(* ===== verification/Prelude.thy ===== *)
theory Prelude
  imports Main "HOL-Library.Word" "HOL-Library.Multiset" "HOL-Library.Sublist"
begin

text \<open>
  Shared ground of the development: names for the C integer types, the error numbers of
  \<^verbatim>\<open>include/asm-generic/errno.h\<close>, byte buffers with bounds-checked copies, the
  little-endian layout of the packed structures that barebox puts on storage media, and
  the generic list lemmas that several components use.

  Conventions used everywhere:
  \<^item> an \<open>int\<close> return value is a C return code, so that an error is written
    \<open>- EINVAL\<close> exactly as in the source;
  \<^item> a buffer is a list of bytes, a byte offset or length is a \<open>nat\<close>; fields that
    the code keeps in 16 or 32 bits are words, so that truncation and wrap-around are
    visible;
  \<^item> \<open>None\<close> in the result of a memory operation is an access outside the buffer.
\<close>

unbundle bit_operations_syntax

named_theorems codec_simps \<open>layout facts: lengths, parts and decoding of encoded fields\<close>

type_synonym u8 = "8 word"
type_synonym u16 = "16 word"
type_synonym u32 = "32 word"
type_synonym u64 = "64 word"
type_synonym bytes = "u8 list"

section \<open>Error numbers\<close>

abbreviation (input) EPERM :: int where "EPERM \<equiv> 1"
abbreviation (input) ENOENT :: int where "ENOENT \<equiv> 2"
abbreviation (input) EIO :: int where "EIO \<equiv> 5"
abbreviation (input) E2BIG :: int where "E2BIG \<equiv> 7"
abbreviation (input) EAGAIN :: int where "EAGAIN \<equiv> 11"
abbreviation (input) ENOMEM :: int where "ENOMEM \<equiv> 12"
abbreviation (input) EACCES :: int where "EACCES \<equiv> 13"
abbreviation (input) EBUSY :: int where "EBUSY \<equiv> 16"
abbreviation (input) EEXIST :: int where "EEXIST \<equiv> 17"
abbreviation (input) ENODEV :: int where "ENODEV \<equiv> 19"
abbreviation (input) EINVAL :: int where "EINVAL \<equiv> 22"
abbreviation (input) ENOSPC :: int where "ENOSPC \<equiv> 28"
abbreviation (input) EROFS :: int where "EROFS \<equiv> 30"
abbreviation (input) ERANGE :: int where "ERANGE \<equiv> 34"
abbreviation (input) ENOSYS :: int where "ENOSYS \<equiv> 38"
abbreviation (input) ENODATA :: int where "ENODATA \<equiv> 61"
abbreviation (input) EBADMSG :: int where "EBADMSG \<equiv> 74"
abbreviation (input) EOVERFLOW :: int where "EOVERFLOW \<equiv> 75"
abbreviation (input) EILSEQ :: int where "EILSEQ \<equiv> 84"
abbreviation (input) ENETDOWN :: int where "ENETDOWN \<equiv> 100"
abbreviation (input) ECONNRESET :: int where "ECONNRESET \<equiv> 104"
abbreviation (input) ETIMEDOUT :: int where "ETIMEDOUT \<equiv> 110"
abbreviation (input) ECONNREFUSED :: int where "ECONNREFUSED \<equiv> 111"
abbreviation (input) EUCLEAN :: int where "EUCLEAN \<equiv> 117"
abbreviation (input) ENOMEDIUM :: int where "ENOMEDIUM \<equiv> 123"

abbreviation (input) EINTR :: int where "EINTR \<equiv> 4"
abbreviation (input) ENXIO :: int where "ENXIO \<equiv> 6"
abbreviation (input) EBADF :: int where "EBADF \<equiv> 9"
abbreviation (input) EFAULT :: int where "EFAULT \<equiv> 14"
abbreviation (input) ENOTDIR :: int where "ENOTDIR \<equiv> 20"
abbreviation (input) EISDIR :: int where "EISDIR \<equiv> 21"
abbreviation (input) EPROTO :: int where "EPROTO \<equiv> 71"
abbreviation (input) EMSGSIZE :: int where "EMSGSIZE \<equiv> 90"
abbreviation (input) EADDRINUSE :: int where "EADDRINUSE \<equiv> 98"
abbreviation (input) ENETUNREACH :: int where "ENETUNREACH \<equiv> 101"
abbreviation (input) ENOTCONN :: int where "ENOTCONN \<equiv> 107"
abbreviation (input) ENOKEY :: int where "ENOKEY \<equiv> 126"
abbreviation (input) EKEYREJECTED :: int where "EKEYREJECTED \<equiv> 129"
abbreviation (input) EPROBE_DEFER :: int where "EPROBE_DEFER \<equiv> 517"
abbreviation (input) ENOTSUPP :: int where "ENOTSUPP \<equiv> 524"

section \<open>Build configuration\<close>

text \<open>
  The \<^verbatim>\<open>IS_ENABLED(CONFIG_...)\<close> switches that the modelled code consults, and the debug
  switch that turns on the self checks of the eraseblock layer. A build is one value of this
  record, so a theorem that does not fix a field holds for both settings.
\<close>

record config =
  fuzz_insecure_partial_digest_enabled :: bool
  cfg_state_backward_compatible :: bool
  cfg_mtd_write :: bool
  mtd_peb_chk_io :: bool

text \<open>A production build, used where a theorem is instantiated.\<close>

definition demo_config :: config where
  "demo_config = \<lparr>fuzz_insecure_partial_digest_enabled = False, cfg_state_backward_compatible = False,
     cfg_mtd_write = True, mtd_peb_chk_io = False\<rparr>"

section \<open>Parts of buffers\<close>

definition subbuf :: "nat \<Rightarrow> nat \<Rightarrow> 'a list \<Rightarrow> 'a list" where
  "subbuf off len buf = take len (drop off buf)"

definition memcpy_from :: "'a list \<Rightarrow> nat \<Rightarrow> nat \<Rightarrow> 'a list option" where
  "memcpy_from buf off len =
     (if off + len \<le> length buf then Some (subbuf off len buf) else None)"

definition memcpy_to :: "'a list \<Rightarrow> nat \<Rightarrow> 'a list \<Rightarrow> 'a list option" where
  "memcpy_to buf off src =
     (if off + length src \<le> length buf
      then Some (take off buf @ src @ drop (off + length src) buf) else None)"

lemma length_subbuf [simp]: "off + len \<le> length buf \<Longrightarrow> length (subbuf off len buf) = len"
  by (simp add: subbuf_def)

lemma subbuf_append_left [codec_simps]:
  "off + len \<le> length xs \<Longrightarrow> subbuf off len (xs @ ys) = subbuf off len xs"
  by (simp add: subbuf_def)

lemma subbuf_append_right [codec_simps]:
  "length xs \<le> off \<Longrightarrow> subbuf off len (xs @ ys) = subbuf (off - length xs) len ys"
  by (simp add: subbuf_def)

lemma subbuf_whole [codec_simps]: "length xs = len \<Longrightarrow> subbuf 0 len xs = xs"
  by (simp add: subbuf_def)

lemma subbuf_0_append [codec_simps]: "length xs = len \<Longrightarrow> subbuf 0 len (xs @ ys) = xs"
  by (simp add: subbuf_def)

lemma subbuf_zero_len [simp]: "subbuf off 0 buf = []"
  by (simp add: subbuf_def)

lemma subbuf_slice:
  "o2 + l2 \<le> l1 \<Longrightarrow> subbuf o2 l2 (subbuf o1 l1 buf) = subbuf (o1 + o2) l2 buf"
  by (simp add: subbuf_def drop_take add.commute)

lemma subbuf_prefix:
  "prefix xs ys \<Longrightarrow> off + len \<le> length xs \<Longrightarrow> subbuf off len ys = subbuf off len xs"
  by (auto simp: prefix_def subbuf_append_left)

lemma memcpy_to_length: "memcpy_to buf off src = Some buf' \<Longrightarrow> length buf' = length buf"
  by (auto simp: memcpy_to_def split: if_splits)

lemma memcpy_to_Some:
  "off + length src \<le> length buf \<Longrightarrow> \<exists>buf'. memcpy_to buf off src = Some buf'"
  by (simp add: memcpy_to_def)

lemma memcpy_to_same:
  "memcpy_to buf off src = Some buf' \<Longrightarrow> subbuf off (length src) buf' = src"
  by (auto simp: memcpy_to_def subbuf_def split: if_splits)

lemma memcpy_to_below:
  assumes "memcpy_to buf off src = Some buf'" and "o2 + l2 \<le> off"
  shows "subbuf o2 l2 buf' = subbuf o2 l2 buf"
proof -
  have "take l2 (drop o2 (take off buf @ xs)) = take l2 (drop o2 buf)"
    if "off \<le> length buf" for xs
    using that assms(2) by (auto simp: drop_take min_def)
  moreover from assms(1) obtain xs where "buf' = take off buf @ xs" and "off \<le> length buf"
    by (auto simp: memcpy_to_def split: if_splits)
  ultimately show ?thesis by (simp only: subbuf_def)
qed

lemma memcpy_to_above:
  assumes "memcpy_to buf off src = Some buf'" and "off + length src \<le> o2"
  shows "subbuf o2 l2 buf' = subbuf o2 l2 buf"
  using assms by (auto simp: memcpy_to_def subbuf_def split: if_splits)

section \<open>Little-endian fields\<close>

definition le16 :: "u16 \<Rightarrow> bytes" where
  "le16 w = [ucast w, ucast (drop_bit 8 w)]"

definition of_le16 :: "bytes \<Rightarrow> u16" where
  "of_le16 bs = ucast (bs ! 0) OR push_bit 8 (ucast (bs ! 1))"

definition le32 :: "u32 \<Rightarrow> bytes" where
  "le32 w = [ucast w, ucast (drop_bit 8 w), ucast (drop_bit 16 w), ucast (drop_bit 24 w)]"

definition of_le32 :: "bytes \<Rightarrow> u32" where
  "of_le32 bs = ucast (bs ! 0) OR push_bit 8 (ucast (bs ! 1))
     OR push_bit 16 (ucast (bs ! 2)) OR push_bit 24 (ucast (bs ! 3))"

definition be16 :: "u16 \<Rightarrow> bytes" where
  "be16 w = [ucast (drop_bit 8 w), ucast w]"

definition of_be16 :: "bytes \<Rightarrow> u16" where
  "of_be16 bs = push_bit 8 (ucast (bs ! 0)) OR ucast (bs ! 1)"

lemma length_le16 [simp, codec_simps]: "length (le16 w) = 2"
  by (simp add: le16_def)

lemma length_le32 [simp, codec_simps]: "length (le32 w) = 4"
  by (simp add: le32_def)

lemma length_be16 [simp, codec_simps]: "length (be16 w) = 2"
  by (simp add: be16_def)

lemma of_le16_le16 [simp, codec_simps]: "of_le16 (le16 w) = w"
  by (rule bit_word_eqI) (auto simp: of_le16_def le16_def bit_simps)

lemma of_le32_le32 [simp, codec_simps]: "of_le32 (le32 w) = w"
proof (rule bit_word_eqI)
  fix n :: nat
  assume "n < LENGTH(32)"
  then consider "n < 8" | "8 \<le> n" "n < 16" | "16 \<le> n" "n < 24" | "24 \<le> n" "n < 32"
    by simp linarith
  then show "bit (of_le32 (le32 w)) n = bit w n"
    by cases (auto simp: of_le32_def le32_def bit_simps)
qed

lemma of_be16_be16 [simp, codec_simps]: "of_be16 (be16 w) = w"
  by (rule bit_word_eqI) (auto simp: of_be16_def be16_def bit_simps)

lemma ff_mask: "(0xff :: 'a::len word) = mask 8"
  by (simp add: mask_eq_exp_minus_1)

lemma length_eq_4: "length bs = 4 \<Longrightarrow> \<exists>a b c d. bs = [a, b, c, d]"
  by (auto simp: numeral_eq_Suc length_Suc_conv)

lemma le32_of_le32 [codec_simps]:
  assumes "length bs = 4"
  shows "le32 (of_le32 bs) = bs"
proof -
  from assms obtain a b c d where bs: "bs = [a, b, c, d]" using length_eq_4 by blast
  have "ucast (of_le32 bs) = a"
    by (rule bit_word_eqI) (auto simp: bs of_le32_def bit_simps dest: bit_imp_le_length)
  moreover have "ucast (drop_bit 8 (of_le32 bs)) = b"
    by (rule bit_word_eqI) (auto simp: bs of_le32_def bit_simps dest: bit_imp_le_length)
  moreover have "ucast (drop_bit 16 (of_le32 bs)) = c"
    by (rule bit_word_eqI) (auto simp: bs of_le32_def bit_simps dest: bit_imp_le_length)
  moreover have "ucast (drop_bit 24 (of_le32 bs)) = d"
    by (rule bit_word_eqI) (auto simp: bs of_le32_def bit_simps dest: bit_imp_le_length)
  ultimately show ?thesis by (simp add: le32_def bs)
qed

section \<open>Lists\<close>

lemma list_all_subbuf: "list_all P xs \<Longrightarrow> list_all P (subbuf off len xs)"
  by (auto simp: subbuf_def list_all_iff dest: in_set_takeD in_set_dropD)

lemma replicate_numeral: "replicate (numeral n) x = x # replicate (pred_numeral n) x"
  by (simp add: numeral_eq_Suc)

end
