(* ===== verification/Mtd.thy ===== *)
theory Mtd
  imports Prelude "HOL-Library.Monad_Syntax"
begin

text \<open>
  Flash devices: the range checks of the MTD core (\<^verbatim>\<open>drivers/mtd/core.c\<close>), the physical
  eraseblock layer on top of it (\<^verbatim>\<open>drivers/mtd/peb.c\<close>) and the RAM backed driver
  (\<^verbatim>\<open>drivers/mtd/devices/mtdram.c\<close>).

  A driver is the record of its callbacks over a hardware state of type \<^typ>\<open>'s\<close>; what a flash
  driver promises is the locale \<open>flash\<close> below. Memory allocation succeeds, and the random
  fault injection of \<^verbatim>\<open>CONFIG_MTD_PEB_DEBUG\<close> is off (its variables are zero by default); the
  self checks of that option are in the model.
\<close>

section \<open>MTD core\<close>

record 's mtd_info =
  mtd_size :: nat
  erasesize :: nat
  writesize :: nat
  subpage_sft :: nat
  numeraseregions :: nat
  mtd_writeable :: bool
  ecc_strength :: nat
  bitflip_threshold :: int
  mtd_block_isbad_fn :: "('s \<Rightarrow> nat \<Rightarrow> int) option"
  mtd_block_markbad_fn :: "('s \<Rightarrow> nat \<Rightarrow> int \<times> 's) option"
  mtd_read_fn :: "'s \<Rightarrow> nat \<Rightarrow> nat \<Rightarrow> int \<times> nat \<times> bytes \<times> 's"
  mtd_write_fn :: "'s \<Rightarrow> nat \<Rightarrow> bytes \<Rightarrow> int \<times> nat \<times> 's"
  mtd_erase_fn :: "'s \<Rightarrow> nat \<Rightarrow> nat \<Rightarrow> int \<times> 's"

definition mtd_block_isbad :: "'s mtd_info \<Rightarrow> 's \<Rightarrow> nat \<Rightarrow> int" where
  "mtd_block_isbad mtd s ofs =
     (case mtd_block_isbad_fn mtd of
        None \<Rightarrow> 0
      | Some f \<Rightarrow> if mtd_size mtd < ofs then - EINVAL else f s ofs)"

definition mtd_block_markbad :: "'s mtd_info \<Rightarrow> 's \<Rightarrow> nat \<Rightarrow> int \<times> 's" where
  "mtd_block_markbad mtd s ofs =
     (if mtd_size mtd \<le> ofs then (- EINVAL, s)
      else case mtd_block_markbad_fn mtd of None \<Rightarrow> (- ENOSYS, s) | Some f \<Rightarrow> f s ofs)"

definition mtd_read_oob :: "'s mtd_info \<Rightarrow> 's \<Rightarrow> nat \<Rightarrow> nat \<Rightarrow> int \<times> nat \<times> bytes \<times> 's" where
  "mtd_read_oob mtd s from len =
     (case mtd_read_fn mtd s from len of (ret_code, retlen, buf, s) \<Rightarrow>
        if ret_code < 0 then (ret_code, retlen, buf, s)
        else if ecc_strength mtd = 0 then (0, retlen, buf, s)
        else (if bitflip_threshold mtd \<le> ret_code then - EUCLEAN else 0, retlen, buf, s))"

definition mtd_read :: "'s mtd_info \<Rightarrow> 's \<Rightarrow> nat \<Rightarrow> nat \<Rightarrow> int \<times> nat \<times> bytes \<times> 's" where
  "mtd_read mtd s from len =
     (if mtd_size mtd \<le> from \<or> mtd_size mtd - from < len then (- EINVAL, 0, [], s)
      else if len = 0 then (0, 0, [], s)
      else mtd_read_oob mtd s from len)"

definition mtd_write :: "'s mtd_info \<Rightarrow> 's \<Rightarrow> nat \<Rightarrow> bytes \<Rightarrow> int \<times> nat \<times> 's" where
  "mtd_write mtd s to buf =
     (if mtd_size mtd \<le> to \<or> mtd_size mtd - to < length buf then (- EINVAL, 0, s)
      else if buf = [] then (0, 0, s)
      else if \<not> mtd_writeable mtd then (- EROFS, 0, s)
      else mtd_write_fn mtd s to buf)"

definition mtd_erase :: "config \<Rightarrow> 's mtd_info \<Rightarrow> 's \<Rightarrow> nat \<Rightarrow> nat \<Rightarrow> int \<times> 's" where
  "mtd_erase cfg mtd s addr len =
     (if mtd_size mtd \<le> addr \<or> mtd_size mtd - addr < len then (- EINVAL, s)
      else if \<not> cfg_mtd_write cfg then (- ENOSYS, s)
      else if \<not> mtd_writeable mtd then (- EROFS, s)
      else if len = 0 then (0, s)
      else mtd_erase_fn mtd s addr len)"

text \<open>The check for erased flash, in three loops: bytes up to a word boundary (\<open>al\<close> is the
  address modulo four), words, and the remaining bytes.\<close>

fun all_ff_bytes :: "bytes \<Rightarrow> bool" where
  "all_ff_bytes [] = True"
| "all_ff_bytes (b # buf) = (if b \<noteq> 0xff then False else all_ff_bytes buf)"

fun all_ff_words :: "bytes \<Rightarrow> bool" where
  "all_ff_words (a # b # c # d # buf) =
     (if of_le32 [a, b, c, d] \<noteq> 0xffffffff then False
      else if buf = [] then True else all_ff_words buf)"
| "all_ff_words buf = all_ff_bytes buf"

fun mtd_buf_all_ff :: "nat \<Rightarrow> bytes \<Rightarrow> bool" where
  "mtd_buf_all_ff al buf =
     (if al mod 4 = 0 then all_ff_words buf
      else case buf of
          [] \<Rightarrow> False
        | b # buf \<Rightarrow>
            if b \<noteq> 0xff then False else if buf = [] then True else mtd_buf_all_ff (al + 1) buf)"

declare mtd_buf_all_ff.simps [simp del]

section \<open>Physical eraseblocks\<close>

definition mtd_peb_valid :: "'s mtd_info \<Rightarrow> nat \<Rightarrow> bool" where
  "mtd_peb_valid mtd pnum \<longleftrightarrow> \<not> mtd_size mtd \<le> pnum * erasesize mtd \<and> numeraseregions mtd = 0"

definition mtd_num_pebs :: "'s mtd_info \<Rightarrow> nat" where
  "mtd_num_pebs mtd = mtd_size mtd div erasesize mtd"

definition mtd_peb_mark_bad :: "'s mtd_info \<Rightarrow> 's \<Rightarrow> nat \<Rightarrow> int \<times> 's" where
  "mtd_peb_mark_bad mtd s pnum = mtd_block_markbad mtd s (pnum * erasesize mtd)"

definition mtd_peb_is_bad :: "'s mtd_info \<Rightarrow> 's \<Rightarrow> nat \<Rightarrow> int" where
  "mtd_peb_is_bad mtd s pnum =
     (if \<not> mtd_peb_valid mtd pnum then - EINVAL
      else mtd_block_isbad mtd s (pnum * erasesize mtd))"

abbreviation (input) MTD_IO_RETRIES :: nat where "MTD_IO_RETRIES \<equiv> 3"

fun peb_read_retry ::
  "'s mtd_info \<Rightarrow> nat \<Rightarrow> 's \<Rightarrow> nat \<Rightarrow> nat \<Rightarrow> int \<times> bytes \<times> 's" where
  "peb_read_retry mtd retries_left s addr len =
     (case mtd_read mtd s addr len of (err, read, buf, s) \<Rightarrow>
        if err \<noteq> 0 then
          if err = - EUCLEAN then (if len \<noteq> read then - EIO else - EUCLEAN, buf, s)
          else if err = - EBADMSG then
            (case retries_left of
               Suc n \<Rightarrow> peb_read_retry mtd n s addr len
             | 0 \<Rightarrow> (err, buf, s))
          else (err, buf, s)
        else (if len \<noteq> read then - EIO else 0, buf, s))"

declare peb_read_retry.simps [simp del]

definition mtd_peb_read ::
  "'s mtd_info \<Rightarrow> 's \<Rightarrow> nat \<Rightarrow> nat \<Rightarrow> nat \<Rightarrow> int \<times> bytes \<times> 's" where
  "mtd_peb_read mtd s pnum offset len =
     (if \<not> mtd_peb_valid mtd pnum then (- EINVAL, [], s)
      else if erasesize mtd < offset + len then (- EINVAL, [], s)
      else if mtd_peb_is_bad mtd s pnum \<noteq> 0 then (- EINVAL, [], s)
      else if len = 0 then (0, [], s)
      else peb_read_retry mtd MTD_IO_RETRIES s (pnum * erasesize mtd + offset) len)"

definition mtd_peb_check_all_ff ::
  "'s mtd_info \<Rightarrow> 's \<Rightarrow> nat \<Rightarrow> nat \<Rightarrow> nat \<Rightarrow> int \<times> 's" where
  "mtd_peb_check_all_ff mtd s pnum offset len =
     (case mtd_peb_read mtd s pnum offset len of (err, buf, s) \<Rightarrow>
        if err \<noteq> 0 \<and> err \<noteq> - EUCLEAN then (err, s)
        else if \<not> mtd_buf_all_ff 0 buf then (- EBADMSG, s)
        else (0, s))"

definition mtd_peb_verify ::
  "'s mtd_info \<Rightarrow> 's \<Rightarrow> bytes \<Rightarrow> nat \<Rightarrow> nat \<Rightarrow> int \<times> 's" where
  "mtd_peb_verify mtd s buf pnum offset =
     (case mtd_read mtd s (pnum * erasesize mtd + offset) (length buf) of (err, read, buf1, s) \<Rightarrow>
        if err \<noteq> 0 \<and> err \<noteq> - EUCLEAN then (err, s)
        else if buf \<noteq> buf1 then (- EBADMSG, s)
        else (0, s))"

definition mtd_peb_write ::
  "config \<Rightarrow> 's mtd_info \<Rightarrow> 's \<Rightarrow> bytes \<Rightarrow> nat \<Rightarrow> nat \<Rightarrow> int \<times> 's" where
  "mtd_peb_write cfg mtd s buf pnum offset =
     (let len = length buf in
      if \<not> mtd_peb_valid mtd pnum then (- EINVAL, s)
      else if erasesize mtd < offset + len then (- EINVAL, s)
      else if len mod (writesize mtd div 2 ^ subpage_sft mtd) \<noteq> 0 then (- EINVAL, s)
      else if mtd_peb_is_bad mtd s pnum \<noteq> 0 then (- EINVAL, s)
      else if len = 0 then (0, s)
      else case (if mtd_peb_chk_io cfg then mtd_peb_check_all_ff mtd s pnum offset len else (0, s)) of
        (err, s) \<Rightarrow>
          if err \<noteq> 0 then (err, s)
          else case mtd_write mtd s (pnum * erasesize mtd + offset) buf of (err, written, s) \<Rightarrow>
            let err = (if err \<noteq> 0 then err else if written \<noteq> len then - EIO else err)
            in if err = 0 \<and> mtd_peb_chk_io cfg then mtd_peb_verify mtd s buf pnum offset else (err, s))"

definition mtd_peb_erase :: "config \<Rightarrow> 's mtd_info \<Rightarrow> 's \<Rightarrow> nat \<Rightarrow> int \<times> 's" where
  "mtd_peb_erase cfg mtd s pnum =
     (if \<not> mtd_peb_valid mtd pnum then (- EINVAL, s)
      else case mtd_erase cfg mtd s (pnum * erasesize mtd) (erasesize mtd) of (ret, s) \<Rightarrow>
        if ret \<noteq> 0 then (ret, s)
        else if mtd_peb_chk_io cfg then
          (case mtd_peb_check_all_ff mtd s pnum 0 (erasesize mtd) of (ret, s) \<Rightarrow> (0, s))
        else (0, s))"

definition torture_patterns :: "u8 list" where
  "torture_patterns = [0xa5, 0x5a, 0x0]"

fun torture_loop :: "config \<Rightarrow> 's mtd_info \<Rightarrow> nat \<Rightarrow> u8 list \<Rightarrow> 's \<Rightarrow> int \<times> 's" where
  "torture_loop cfg mtd pnum [] s =
     (case mtd_peb_erase cfg mtd s pnum of (err, s) \<Rightarrow>
        (if err \<noteq> 0 then err else int (length torture_patterns) + 1, s))"
| "torture_loop cfg mtd pnum (patt # patts) s =
     (case mtd_peb_erase cfg mtd s pnum of (err, s) \<Rightarrow> if err \<noteq> 0 then (err, s)
      else case mtd_peb_check_all_ff mtd s pnum 0 (writesize mtd) of (err, s) \<Rightarrow> if err \<noteq> 0 then (err, s)
      else let peb_buf = replicate (erasesize mtd) patt in
        case mtd_peb_write cfg mtd s peb_buf pnum 0 of (err, s) \<Rightarrow> if err \<noteq> 0 then (err, s)
      else case mtd_peb_verify mtd s peb_buf pnum 0 of (err, s) \<Rightarrow> if err \<noteq> 0 then (err, s)
      else torture_loop cfg mtd pnum patts s)"

definition mtd_peb_torture :: "config \<Rightarrow> 's mtd_info \<Rightarrow> 's \<Rightarrow> nat \<Rightarrow> int \<times> 's" where
  "mtd_peb_torture cfg mtd s pnum =
     (if \<not> mtd_peb_valid mtd pnum then (- EINVAL, s)
      else case torture_loop cfg mtd pnum torture_patterns s of (err, s) \<Rightarrow>
        (if err = - EUCLEAN \<or> err = - EBADMSG then - EIO else err, s))"

section \<open>Files across eraseblocks\<close>

function mtd_skip_bad :: "'s mtd_info \<Rightarrow> 's \<Rightarrow> nat \<Rightarrow> int \<times> nat" where
  "mtd_skip_bad mtd s pnum =
     (if mtd_size mtd \<le> erasesize mtd * pnum \<or> erasesize mtd = 0 then (- ENOSPC, pnum)
      else if mtd_block_isbad mtd s (erasesize mtd * pnum) = 0 then (0, pnum)
      else mtd_skip_bad mtd s (pnum + 1))"
  by pat_completeness auto
termination
proof (relation "measure (\<lambda>(mtd, s, pnum). mtd_size mtd - erasesize mtd * pnum)", goal_cases)
  case (2 mtd s pnum)
  then show ?case by (simp add: diff_less_mono2)
qed simp

declare mtd_skip_bad.simps [simp del]

text \<open>First pass of \<^verbatim>\<open>mtd_peb_write_file\<close>: does the file fit into the good blocks?\<close>

function peb_file_fits :: "'s mtd_info \<Rightarrow> 's \<Rightarrow> nat \<Rightarrow> nat \<Rightarrow> nat \<Rightarrow> int" where
  "peb_file_fits mtd s peb_end pnum left =
     (if mtd_size mtd \<le> pnum * erasesize mtd then - ENOSPC
      else if peb_end \<le> pnum then - ENOSPC
      else if mtd_peb_is_bad mtd s pnum \<noteq> 0 then peb_file_fits mtd s peb_end (pnum + 1) left
      else if left \<le> erasesize mtd then 0
      else peb_file_fits mtd s peb_end (pnum + 1) (left - erasesize mtd))"
  by pat_completeness auto
termination by (relation "measure (\<lambda>(mtd, s, peb_end, pnum, left). peb_end - pnum)") auto

declare peb_file_fits.simps [simp del]

text \<open>Second pass: nothing in this loop bounds the block number, so it is a partial
  function; that it ends after a successful first pass is proved below.\<close>

partial_function (option) peb_write_blocks ::
  "config \<Rightarrow> 's mtd_info \<Rightarrow> nat \<Rightarrow> bytes \<Rightarrow> 's \<Rightarrow> (int \<times> 's) option" where
  "peb_write_blocks cfg mtd pnum buf s =
     (if buf = [] then Some (0, s)
      else if mtd_peb_is_bad mtd s pnum \<noteq> 0 then peb_write_blocks cfg mtd (pnum + 1) buf s
      else case mtd_peb_erase cfg mtd s pnum of (ret, s) \<Rightarrow>
        if ret \<noteq> 0 then Some (ret, s)
        else let now = min (erasesize mtd) (length buf);
                 wrbuf = take now buf @ replicate (erasesize mtd - now) 0
        in case mtd_peb_write cfg mtd s wrbuf pnum 0 of (ret, s) \<Rightarrow>
          if ret \<noteq> 0 then Some (ret, s)
          else peb_write_blocks cfg mtd (pnum + 1) (drop now buf) s)"

definition mtd_peb_write_file ::
  "config \<Rightarrow> 's mtd_info \<Rightarrow> 's \<Rightarrow> nat \<Rightarrow> nat \<Rightarrow> bytes \<Rightarrow> (int \<times> 's) option" where
  "mtd_peb_write_file cfg mtd s peb_start max_pebs buf =
     (let ret = peb_file_fits mtd s (peb_start + max_pebs) peb_start (length buf)
      in if ret \<noteq> 0 then Some (ret, s) else peb_write_blocks cfg mtd peb_start buf s)"

function mtd_peb_read_file ::
  "'s mtd_info \<Rightarrow> 's \<Rightarrow> nat \<Rightarrow> nat \<Rightarrow> nat \<Rightarrow> int \<times> bytes \<times> 's" where
  "mtd_peb_read_file mtd s pnum peb_last len =
     (if len = 0 then (0, [], s)
      else if peb_last < pnum then (- EIO, [], s)
      else if mtd_peb_is_bad mtd s pnum \<noteq> 0 then mtd_peb_read_file mtd s (pnum + 1) peb_last len
      else let now = min (erasesize mtd) len in
        case mtd_peb_read mtd s pnum 0 now of (ret, buf, s) \<Rightarrow>
          if ret \<noteq> 0 then (ret, [], s)
          else case mtd_peb_read_file mtd s (pnum + 1) peb_last (len - now) of (ret, rest, s) \<Rightarrow>
            (ret, buf @ rest, s))"
  by pat_completeness auto
termination by (relation "measure (\<lambda>(mtd, s, pnum, peb_last, len). Suc peb_last - pnum)") auto

declare mtd_peb_read_file.simps [simp del]

section \<open>Return codes\<close>

lemma mtd_read_nonpos: "mtd_read mtd s from len = (err, read, buf, s') \<Longrightarrow> err \<le> 0"
  by (auto simp: mtd_read_def mtd_read_oob_def split: if_splits prod.splits)

lemma peb_read_retry_nonpos: "peb_read_retry mtd n s addr len = (err, buf, s') \<Longrightarrow> err \<le> 0"
proof (induction n arbitrary: s)
  case 0
  then show ?case
    by (auto simp: peb_read_retry.simps [of mtd 0] dest: mtd_read_nonpos split: if_splits prod.splits)
next
  case (Suc n)
  then show ?case
    by (auto simp: peb_read_retry.simps [of mtd "Suc n"] dest: mtd_read_nonpos split: if_splits prod.splits)
qed

lemma mtd_peb_check_all_ff_nonpos: "mtd_peb_check_all_ff mtd s pnum off len = (err, s') \<Longrightarrow> err \<le> 0"
  by (auto simp: mtd_peb_check_all_ff_def mtd_peb_read_def dest: peb_read_retry_nonpos
      split: if_splits prod.splits)

lemma mtd_peb_verify_nonpos: "mtd_peb_verify mtd s buf pnum off = (err, s') \<Longrightarrow> err \<le> 0"
  by (auto simp: mtd_peb_verify_def dest: mtd_read_nonpos split: if_splits prod.splits)

section \<open>What a flash driver promises\<close>

text \<open>
  \<open>cells\<close> is what the device holds. A read that does not fail returns it, a write to erased
  cells programs them, an erase sets every bit, failed operations touch nothing outside the
  addressed range, and no operation but marking changes which blocks are bad. Nothing is
  promised for writes to cells that are not erased: their users have to avoid them.
\<close>

definition same_outside :: "nat \<Rightarrow> nat \<Rightarrow> bytes \<Rightarrow> bytes \<Rightarrow> bool" where
  "same_outside off len a b \<longleftrightarrow> length a = length b \<and> take off a = take off b
     \<and> drop (off + len) a = drop (off + len) b"

lemma same_outside_mono:
  assumes "same_outside off len a b" and "o2 \<le> off" and "off + len \<le> o2 + l2"
  shows "same_outside o2 l2 a b"
proof -
  have "take o2 (take off a) = take o2 (take off b)"
    "drop (o2 + l2 - (off + len)) (drop (off + len) a) = drop (o2 + l2 - (off + len)) (drop (off + len) b)"
    using assms(1) by (simp_all only: same_outside_def)
  then show ?thesis using assms by (simp add: same_outside_def min_absorb1)
qed

lemma same_outside_subbuf:
  assumes "same_outside off len a b" and "o2 + l2 \<le> off \<or> off + len \<le> o2"
  shows "subbuf o2 l2 a = subbuf o2 l2 b"
  using assms(2)
proof
  assume "o2 + l2 \<le> off"
  then have "subbuf o2 l2 c = subbuf o2 l2 (take off c)" for c :: bytes
    by (simp add: subbuf_def drop_take min_def)
  then show ?thesis using assms(1) unfolding same_outside_def by metis
next
  assume "off + len \<le> o2"
  then have "subbuf o2 l2 c = subbuf (o2 - (off + len)) l2 (drop (off + len) c)" for c :: bytes
    by (simp add: subbuf_def)
  then show ?thesis using assms(1) unfolding same_outside_def by metis
qed

definition peb_of :: "'s mtd_info \<Rightarrow> bytes \<Rightarrow> nat \<Rightarrow> bytes" where
  "peb_of mtd c pnum = subbuf (pnum * erasesize mtd) (erasesize mtd) c"

locale flash =
  fixes mtd :: "'s mtd_info" and cells :: "'s \<Rightarrow> bytes" and inv :: "'s \<Rightarrow> bool"
  assumes length_cells: "inv s \<Longrightarrow> length (cells s) = mtd_size mtd"
    and read_law: "inv s \<Longrightarrow> from + len \<le> mtd_size mtd \<Longrightarrow>
      mtd_read_fn mtd s from len = (ret, retlen, buf, s') \<Longrightarrow>
      inv s' \<and> cells s' = cells s \<and> mtd_block_isbad mtd s' = mtd_block_isbad mtd s
      \<and> (0 \<le> ret \<longrightarrow> retlen = len)
      \<and> (0 \<le> ret \<or> ret = - EUCLEAN \<and> retlen = len \<longrightarrow> buf = subbuf from len (cells s))"
    and write_law: "inv s \<Longrightarrow> to + length buf \<le> mtd_size mtd \<Longrightarrow>
      mtd_write_fn mtd s to buf = (ret, retlen, s') \<Longrightarrow>
      inv s' \<and> mtd_block_isbad mtd s' = mtd_block_isbad mtd s
      \<and> same_outside to (length buf) (cells s') (cells s)
      \<and> ret \<le> 0 \<and> (ret = 0 \<longrightarrow> retlen = length buf
           \<and> (list_all (\<lambda>b. b = 0xff) (subbuf to (length buf) (cells s))
              \<longrightarrow> subbuf to (length buf) (cells s') = buf))"
    and erase_law: "inv s \<Longrightarrow> addr + len \<le> mtd_size mtd \<Longrightarrow>
      mtd_erase_fn mtd s addr len = (ret, s') \<Longrightarrow>
      inv s' \<and> mtd_block_isbad mtd s' = mtd_block_isbad mtd s
      \<and> same_outside addr len (cells s') (cells s)
      \<and> ret \<le> 0 \<and> (ret = 0 \<longrightarrow> subbuf addr len (cells s') = replicate len 0xff)"
begin

abbreviation peb :: "'s \<Rightarrow> nat \<Rightarrow> bytes" where
  "peb s pnum \<equiv> peb_of mtd (cells s) pnum"

text \<open>What every operation on one eraseblock leaves alone.\<close>

definition peb_frame :: "nat \<Rightarrow> 's \<Rightarrow> 's \<Rightarrow> bool" where
  "peb_frame pnum s s' \<longleftrightarrow> inv s' \<and> mtd_block_isbad mtd s' = mtd_block_isbad mtd s
     \<and> same_outside (pnum * erasesize mtd) (erasesize mtd) (cells s') (cells s)"

lemma peb_frame_refl: "inv s \<Longrightarrow> peb_frame pnum s s"
  by (simp add: peb_frame_def same_outside_def)

lemma peb_frame_trans: "peb_frame pnum s s' \<Longrightarrow> peb_frame pnum s' s'' \<Longrightarrow> peb_frame pnum s s''"
  by (simp add: peb_frame_def same_outside_def)

lemma peb_frame_inv: "peb_frame pnum s s' \<Longrightarrow> inv s'"
  by (simp add: peb_frame_def)

lemma peb_frame_same_cells:
  "inv s' \<Longrightarrow> mtd_block_isbad mtd s' = mtd_block_isbad mtd s \<Longrightarrow> cells s' = cells s \<Longrightarrow> peb_frame pnum s s'"
  by (simp add: peb_frame_def same_outside_def)

lemma peb_frame_is_bad: "peb_frame pnum s s' \<Longrightarrow> mtd_peb_is_bad mtd s' = mtd_peb_is_bad mtd s"
  by (simp add: peb_frame_def mtd_peb_is_bad_def fun_eq_iff)

lemma peb_frame_other:
  assumes "peb_frame pnum s s'" and "q \<noteq> pnum"
  shows "peb s' q = peb s q"
proof -
  have "q * erasesize mtd + erasesize mtd \<le> pnum * erasesize mtd
      \<or> pnum * erasesize mtd + erasesize mtd \<le> q * erasesize mtd"
    using assms(2) by (metis Suc_leI add.commute linorder_neqE_nat mult_Suc mult_le_mono1)
  with assms(1) show ?thesis
    by (auto simp: peb_frame_def peb_of_def dest: same_outside_subbuf)
qed

lemma mtd_read_ok:
  assumes "inv s" and "mtd_read mtd s from len = (err, read, buf, s')"
  shows "inv s'" and "cells s' = cells s" and "mtd_block_isbad mtd s' = mtd_block_isbad mtd s"
    and "err = 0 \<or> err = - EUCLEAN \<and> read = len \<Longrightarrow> buf = subbuf from len (cells s)"
proof -
  have *: "inv s' \<and> cells s' = cells s \<and> mtd_block_isbad mtd s' = mtd_block_isbad mtd s
    \<and> (err = 0 \<or> err = - EUCLEAN \<and> read = len \<longrightarrow> buf = subbuf from len (cells s))"
  proof (cases "mtd_size mtd \<le> from \<or> mtd_size mtd - from < len \<or> len = 0")
    case True
    then show ?thesis using assms by (auto simp: mtd_read_def split: if_splits)
  next
    case False
    obtain rc rl b t where r: "mtd_read_fn mtd s from len = (rc, rl, b, t)" by (metis prod_cases4)
    from False have "from + len \<le> mtd_size mtd" by auto
    from read_law [OF assms(1) this r] show ?thesis
      using False assms(2) r by (auto simp: mtd_read_def mtd_read_oob_def split: if_splits)
  qed
  then show "inv s'" and "cells s' = cells s" and "mtd_block_isbad mtd s' = mtd_block_isbad mtd s"
    and "err = 0 \<or> err = - EUCLEAN \<and> read = len \<Longrightarrow> buf = subbuf from len (cells s)"
    by auto
qed

lemma peb_read_retry_ok:
  assumes "inv s" and "peb_read_retry mtd n s addr len = (err, buf, s')"
  shows "inv s' \<and> cells s' = cells s \<and> mtd_block_isbad mtd s' = mtd_block_isbad mtd s
    \<and> (err = 0 \<or> err = - EUCLEAN \<longrightarrow> buf = subbuf addr len (cells s))"
  using assms
proof (induction n arbitrary: s)
  case 0
  obtain e r b t where rd: "mtd_read mtd s addr len = (e, r, b, t)" by (metis prod_cases4)
  with 0 mtd_read_ok [OF "0.prems"(1) rd] show ?case
    by (auto simp: peb_read_retry.simps [of mtd 0] split: if_splits)
next
  case (Suc n)
  obtain e r b t where rd: "mtd_read mtd s addr len = (e, r, b, t)" by (metis prod_cases4)
  with Suc.prems mtd_read_ok [OF Suc.prems(1) rd] Suc.IH [of t] show ?case
    by (auto simp: peb_read_retry.simps [of mtd "Suc n"] split: if_splits)
qed

lemma mtd_peb_read_ok:
  assumes "inv s" and "mtd_peb_read mtd s pnum offset len = (err, buf, s')"
  shows "peb_frame q s s'" and "cells s' = cells s"
    and "err = 0 \<or> err = - EUCLEAN \<Longrightarrow> buf = subbuf (pnum * erasesize mtd + offset) len (cells s)"
proof -
  have "(err, buf, s') = (- EINVAL, [], s) \<or> len = 0 \<and> (err, buf, s') = (0, [], s)
      \<or> peb_read_retry mtd MTD_IO_RETRIES s (pnum * erasesize mtd + offset) len = (err, buf, s')"
    using assms(2) by (auto simp: mtd_peb_read_def split: if_splits)
  then have "inv s' \<and> cells s' = cells s \<and> mtd_block_isbad mtd s' = mtd_block_isbad mtd s
    \<and> (err = 0 \<or> err = - EUCLEAN \<longrightarrow> buf = subbuf (pnum * erasesize mtd + offset) len (cells s))"
    using peb_read_retry_ok [OF assms(1)] assms(1) by auto
  then show "peb_frame q s s'" and "cells s' = cells s"
    and "err = 0 \<or> err = - EUCLEAN \<Longrightarrow> buf = subbuf (pnum * erasesize mtd + offset) len (cells s)"
    by (auto intro: peb_frame_same_cells)
qed

lemma mtd_peb_check_all_ff_ok:
  assumes "inv s" and "mtd_peb_check_all_ff mtd s pnum offset len = (err, s')"
  shows "peb_frame q s s'" and "cells s' = cells s"
  using assms mtd_peb_read_ok [OF assms(1)]
  by (auto simp: mtd_peb_check_all_ff_def split: prod.splits if_splits)

lemma mtd_peb_verify_ok:
  assumes "inv s" and "mtd_peb_verify mtd s buf pnum offset = (err, s')"
  shows "peb_frame q s s'" and "cells s' = cells s"
  using assms mtd_read_ok [OF assms(1)]
  by (auto simp: mtd_peb_verify_def split: prod.splits if_splits intro!: peb_frame_same_cells)

lemma mtd_write_frame:
  assumes "inv s" and "mtd_write mtd s (pnum * erasesize mtd + offset) buf = (err, written, s')"
    and "offset + length buf \<le> erasesize mtd"
  shows "peb_frame pnum s s'"
    and "same_outside (pnum * erasesize mtd + offset) (length buf) (cells s') (cells s)"
proof -
  have "peb_frame pnum s s'
    \<and> same_outside (pnum * erasesize mtd + offset) (length buf) (cells s') (cells s)"
  proof (cases "mtd_size mtd \<le> pnum * erasesize mtd + offset
    \<or> mtd_size mtd - (pnum * erasesize mtd + offset) < length buf \<or> buf = [] \<or> \<not> mtd_writeable mtd")
    case True
    then show ?thesis
      using assms by (auto simp: mtd_write_def same_outside_def intro: peb_frame_refl split: if_splits)
  next
    case False
    then have w: "mtd_write_fn mtd s (pnum * erasesize mtd + offset) buf = (err, written, s')"
      using assms(2) by (simp add: mtd_write_def)
    have le: "pnum * erasesize mtd + offset + length buf \<le> mtd_size mtd" using False by auto
    from write_law [OF assms(1) le w] show ?thesis
      using assms(3) by (auto simp: peb_frame_def intro: same_outside_mono)
  qed
  then show "peb_frame pnum s s'"
    and "same_outside (pnum * erasesize mtd + offset) (length buf) (cells s') (cells s)"
    by auto
qed

lemma mtd_write_done:
  assumes "inv s" and "mtd_write mtd s to buf = (0, length buf, s')" and "buf \<noteq> []"
    and "list_all (\<lambda>b. b = 0xff) (subbuf to (length buf) (cells s))"
  shows "subbuf to (length buf) (cells s') = buf" and "same_outside to (length buf) (cells s') (cells s)"
proof -
  have w: "mtd_write_fn mtd s to buf = (0, length buf, s')" and le: "to + length buf \<le> mtd_size mtd"
    using assms(2,3) by (auto simp: mtd_write_def split: if_splits)
  from write_law [OF assms(1) le w] assms(4)
  show "subbuf to (length buf) (cells s') = buf" "same_outside to (length buf) (cells s') (cells s)"
    by auto
qed

lemma mtd_peb_write_frame:
  assumes "inv s" and "mtd_peb_write cfg mtd s buf pnum offset = (err, s')"
  shows "peb_frame pnum s s'"
    and "same_outside (pnum * erasesize mtd + offset) (length buf) (cells s') (cells s)"
proof -
  have *: "peb_frame pnum s s' \<and> same_outside (pnum * erasesize mtd + offset) (length buf) (cells s') (cells s)"
  proof (cases "erasesize mtd < offset + length buf")
    case True
    then show ?thesis
      using assms by (auto simp: mtd_peb_write_def Let_def same_outside_def intro: peb_frame_refl split: if_splits)
  next
    case False
    obtain e1 s1 where c: "(if mtd_peb_chk_io cfg then mtd_peb_check_all_ff mtd s pnum offset (length buf)
        else (0, s)) = (e1, s1)" by fastforce
    then have f1: "peb_frame pnum s s1" "cells s1 = cells s"
      using mtd_peb_check_all_ff_ok [OF assms(1)] peb_frame_refl [OF assms(1)] by (auto split: if_splits)
    obtain e2 w s2 where w: "mtd_write mtd s1 (pnum * erasesize mtd + offset) buf = (e2, w, s2)"
      by (metis prod_cases3)
    note f2 = mtd_write_frame [OF peb_frame_inv [OF f1(1)] w False [unfolded not_less]]
    obtain e3 s3 where v: "mtd_peb_verify mtd s2 buf pnum offset = (e3, s3)" by fastforce
    note f3 = mtd_peb_verify_ok [OF peb_frame_inv [OF f2(1)] v]
    note fs = peb_frame_refl [OF assms(1)] f1(1) peb_frame_trans [OF f1(1) f2(1)]
      peb_frame_trans [OF peb_frame_trans [OF f1(1) f2(1)] f3(1)]
    have "s' \<in> {s, s1, s2, s3}"
      using assms(2) c w v unfolding mtd_peb_write_def Let_def by (simp split: if_splits)
    then show ?thesis using fs f1(2) f2(2) f3(2) by (auto simp: same_outside_def)
  qed
  then show "peb_frame pnum s s'"
    and "same_outside (pnum * erasesize mtd + offset) (length buf) (cells s') (cells s)" by auto
qed

text \<open>A successful write to an erased place holds the data and leaves the rest of the block
  alone.\<close>

lemma mtd_peb_write_done:
  assumes "inv s" and "mtd_peb_write cfg mtd s buf pnum offset = (0, s')"
    and "list_all (\<lambda>b. b = 0xff) (subbuf (pnum * erasesize mtd + offset) (length buf) (cells s))"
  shows "subbuf (pnum * erasesize mtd + offset) (length buf) (cells s') = buf"
    and "same_outside (pnum * erasesize mtd + offset) (length buf) (cells s') (cells s)"
proof -
  let ?a = "pnum * erasesize mtd + offset"
  have "subbuf ?a (length buf) (cells s') = buf \<and> same_outside ?a (length buf) (cells s') (cells s)"
  proof (cases "buf = []")
    case True
    then show ?thesis using assms(2) by (auto simp: mtd_peb_write_def same_outside_def split: if_splits)
  next
    case False
    obtain e1 s1 where c: "(if mtd_peb_chk_io cfg then mtd_peb_check_all_ff mtd s pnum offset (length buf)
        else (0, s)) = (e1, s1)" by fastforce
    then have s1: "inv s1" "cells s1 = cells s"
      using mtd_peb_check_all_ff_ok [OF assms(1)] assms(1) peb_frame_inv
      by (cases "mtd_peb_chk_io cfg"; simp; blast)+
    obtain e2 w s2 where w: "mtd_write mtd s1 ?a buf = (e2, w, s2)" by (metis prod_cases3)
    obtain e3 s3 where v: "mtd_peb_verify mtd s2 buf pnum offset = (e3, s3)" by fastforce
    have ok: "e2 = 0" "w = length buf" and "s' = (if mtd_peb_chk_io cfg then s3 else s2)"
      using assms(2) c w v False unfolding mtd_peb_write_def Let_def by (simp_all split: if_splits)
    moreover have "offset + length buf \<le> erasesize mtd"
      using assms(2) False by (auto simp: mtd_peb_write_def Let_def split: if_splits)
    then have "inv s2" using mtd_write_frame(1) [OF s1(1) w] by (auto dest: peb_frame_inv)
    then have "cells s3 = cells s2" using mtd_peb_verify_ok(2) v by blast
    ultimately have "cells s' = cells s2" by simp
    moreover note w [unfolded ok]
    ultimately show ?thesis
      using mtd_write_done [OF s1(1), of ?a buf s2] False assms(3) s1(2) by simp
  qed
  then show "subbuf ?a (length buf) (cells s') = buf" "same_outside ?a (length buf) (cells s') (cells s)"
    by auto
qed

lemma mtd_erase_ok:
  assumes "inv s" and "mtd_erase cfg mtd s (pnum * erasesize mtd) (erasesize mtd) = (ret, s')"
  shows "peb_frame pnum s s'" and "ret = 0 \<Longrightarrow> peb s' pnum = replicate (erasesize mtd) 0xff"
proof -
  let ?a = "pnum * erasesize mtd" and ?l = "erasesize mtd"
  have "peb_frame pnum s s' \<and> (ret = 0 \<longrightarrow> peb s' pnum = replicate ?l 0xff)"
  proof (cases "mtd_size mtd \<le> ?a \<or> mtd_size mtd - ?a < ?l \<or> \<not> cfg_mtd_write cfg \<or> \<not> mtd_writeable mtd \<or> ?l = 0")
    case True
    then show ?thesis
      using assms by (auto simp: mtd_erase_def peb_of_def peb_frame_refl split: if_splits)
  next
    case False
    then have e: "mtd_erase_fn mtd s ?a ?l = (ret, s')" using assms(2) by (auto simp: mtd_erase_def)
    have le: "?a + ?l \<le> mtd_size mtd" using False by linarith
    from erase_law [OF assms(1) le e] show ?thesis by (auto simp: peb_frame_def peb_of_def)
  qed
  then show "peb_frame pnum s s'" "ret = 0 \<Longrightarrow> peb s' pnum = replicate ?l 0xff" by auto
qed

lemma mtd_peb_erase_ok:
  assumes "inv s" and "mtd_peb_erase cfg mtd s pnum = (ret, s')"
  shows "peb_frame pnum s s'" and "ret = 0 \<Longrightarrow> peb s' pnum = replicate (erasesize mtd) 0xff"
proof -
  obtain r1 s1 where e: "mtd_erase cfg mtd s (pnum * erasesize mtd) (erasesize mtd) = (r1, s1)" by fastforce
  obtain r2 s2 where c: "mtd_peb_check_all_ff mtd s1 pnum 0 (erasesize mtd) = (r2, s2)" by fastforce
  note e1 = mtd_erase_ok [OF assms(1) e]
  note c1 = mtd_peb_check_all_ff_ok [OF peb_frame_inv [OF e1(1)] c]
  have "(ret, s') = (- EINVAL, s) \<or> r1 \<noteq> 0 \<and> (ret, s') = (r1, s1)
      \<or> r1 = 0 \<and> (ret, s') \<in> {(0, s1), (0, s2)}"
    using assms(2) e c by (auto simp: mtd_peb_erase_def split: if_splits)
  then show "peb_frame pnum s s'" "ret = 0 \<Longrightarrow> peb s' pnum = replicate (erasesize mtd) 0xff"
    using e1 c1 peb_frame_refl [OF assms(1)] peb_frame_trans [OF e1(1) c1(1)] by auto
qed

lemma mtd_peb_erase_nonpos:
  assumes "inv s" and "mtd_peb_erase cfg mtd s pnum = (ret, s')"
  shows "ret \<le> 0"
proof -
  obtain r1 s1 where e: "mtd_erase cfg mtd s (pnum * erasesize mtd) (erasesize mtd) = (r1, s1)" by fastforce
  have "r1 \<le> 0"
  proof (cases "mtd_size mtd \<le> pnum * erasesize mtd \<or> mtd_size mtd - pnum * erasesize mtd < erasesize mtd")
    case False
    then have "pnum * erasesize mtd + erasesize mtd \<le> mtd_size mtd" by linarith
    with erase_law [OF assms(1) this, of r1 s1] e show ?thesis
      by (auto simp: mtd_erase_def split: if_splits)
  qed (use e in \<open>auto simp: mtd_erase_def\<close>)
  then show ?thesis
    using assms(2) e by (auto simp: mtd_peb_erase_def split: if_splits prod.splits)
qed

lemma mtd_peb_write_nonpos:
  assumes "inv s" and "mtd_peb_write cfg mtd s buf pnum off = (ret, s')"
  shows "ret \<le> 0"
proof (cases "erasesize mtd < off + length buf")
  case False
  obtain e1 s1 where c: "(if mtd_peb_chk_io cfg then mtd_peb_check_all_ff mtd s pnum off (length buf)
      else (0, s)) = (e1, s1)" by fastforce
  obtain e2 w s2 where w: "mtd_write mtd s1 (pnum * erasesize mtd + off) buf = (e2, w, s2)"
    by (metis prod_cases3)
  obtain e3 s3 where v: "mtd_peb_verify mtd s2 buf pnum off = (e3, s3)" by fastforce
  have "inv s1" using c mtd_peb_check_all_ff_ok(1) [OF assms(1), THEN peb_frame_inv] assms(1)
    by (cases "mtd_peb_chk_io cfg") auto
  then have "e2 \<le> 0"
    using w write_law [of s1 "pnum * erasesize mtd + off" buf e2 w s2]
    by (auto simp: mtd_write_def split: if_splits)
  moreover have "e1 \<le> 0" using c mtd_peb_check_all_ff_nonpos by (auto split: if_splits)
  moreover have "e3 \<le> 0" using v by (rule mtd_peb_verify_nonpos)
  ultimately show ?thesis
    using assms(2) c w v unfolding mtd_peb_write_def Let_def by (simp split: if_splits)
qed (use assms in \<open>auto simp: mtd_peb_write_def Let_def split: if_splits\<close>)

lemma torture_loop_ok:
  assumes "inv s" and "torture_loop cfg mtd pnum patts s = (err, s')"
  shows "peb_frame pnum s s' \<and> (0 \<le> err \<longrightarrow> peb s' pnum = replicate (erasesize mtd) 0xff)"
  using assms
proof (induction patts arbitrary: s)
  case Nil
  obtain r s1 where "mtd_peb_erase cfg mtd s pnum = (r, s1)" by fastforce
  with Nil mtd_peb_erase_ok [OF Nil.prems(1) this] mtd_peb_erase_nonpos [OF Nil.prems(1) this]
  show ?case by (auto split: if_splits)
next
  case (Cons patt patts)
  let ?b = "replicate (erasesize mtd) patt"
  obtain e1 s1 where 1: "mtd_peb_erase cfg mtd s pnum = (e1, s1)" by fastforce
  obtain e2 s2 where 2: "mtd_peb_check_all_ff mtd s1 pnum 0 (writesize mtd) = (e2, s2)" by fastforce
  obtain e3 s3 where 3: "mtd_peb_write cfg mtd s2 ?b pnum 0 = (e3, s3)" by fastforce
  obtain e4 s4 where 4: "mtd_peb_verify mtd s3 ?b pnum 0 = (e4, s4)" by fastforce
  have f1: "peb_frame pnum s s1" using mtd_peb_erase_ok(1) [OF Cons.prems(1) 1] .
  have f2: "peb_frame pnum s s2"
    using peb_frame_trans [OF f1 mtd_peb_check_all_ff_ok(1) [OF peb_frame_inv [OF f1] 2]] .
  have f3: "peb_frame pnum s s3"
    using peb_frame_trans [OF f2 mtd_peb_write_frame(1) [OF peb_frame_inv [OF f2] 3]] .
  have f4: "peb_frame pnum s s4"
    using peb_frame_trans [OF f3 mtd_peb_verify_ok(1) [OF peb_frame_inv [OF f3] 4]] .
  have neg: "e1 \<le> 0" "e2 \<le> 0" "e3 \<le> 0" "e4 \<le> 0"
    using mtd_peb_erase_nonpos [OF Cons.prems(1) 1] mtd_peb_check_all_ff_nonpos [OF 2]
      mtd_peb_write_nonpos [OF peb_frame_inv [OF f2] 3] mtd_peb_verify_nonpos [OF 4] by auto
  show ?case
    using Cons.prems(2) 1 2 3 4 f1 f2 f3 f4 neg
      Cons.IH [OF peb_frame_inv [OF f4]] peb_frame_trans [OF f4]
    by (auto simp: Let_def split: if_splits)
qed

lemma mtd_peb_torture_ok:
  assumes "inv s" and "mtd_peb_torture cfg mtd s pnum = (ret, s')"
  shows "peb_frame pnum s s'" and "0 \<le> ret \<Longrightarrow> peb s' pnum = replicate (erasesize mtd) 0xff"
  using assms(2) torture_loop_ok [OF assms(1), of cfg pnum torture_patterns] peb_frame_refl [OF assms(1)]
  by (auto simp: mtd_peb_torture_def split: if_splits prod.splits)

subsection \<open>Files\<close>

lemma peb_file_fits_cong:
  "mtd_peb_is_bad mtd s' = mtd_peb_is_bad mtd s \<Longrightarrow>
     peb_file_fits mtd s' e pnum left = peb_file_fits mtd s e pnum left"
  by (induction mtd s e pnum left rule: peb_file_fits.induct)
    (simp add: peb_file_fits.simps [of _ s'] peb_file_fits.simps [of _ s for s])

text \<open>One block of the second pass, when the block is good.\<close>

definition block_buf :: "bytes \<Rightarrow> bytes" where
  "block_buf buf = take (erasesize mtd) buf @ replicate (erasesize mtd - length buf) 0"

lemma length_block_buf [simp]: "length (block_buf buf) = erasesize mtd"
  by (simp add: block_buf_def)

lemma peb_write_blocks_good:
  assumes "buf \<noteq> []" and "mtd_peb_is_bad mtd s pnum = 0"
    and "mtd_peb_erase cfg mtd s pnum = (e1, s1)"
    and "mtd_peb_write cfg mtd s1 (block_buf buf) pnum 0 = (e2, s2)"
  shows "peb_write_blocks cfg mtd pnum buf s =
    (if e1 \<noteq> 0 then Some (e1, s1) else if e2 \<noteq> 0 then Some (e2, s2)
     else peb_write_blocks cfg mtd (pnum + 1) (drop (erasesize mtd) buf) s2)"
proof -
  have "take (min (erasesize mtd) (length buf)) buf
      @ replicate (erasesize mtd - min (erasesize mtd) (length buf)) 0 = block_buf buf"
    by (simp add: block_buf_def min_def)
  moreover have "drop (min (erasesize mtd) (length buf)) buf = drop (erasesize mtd) buf"
    by (simp add: min_def)
  ultimately show ?thesis
    using assms by (subst peb_write_blocks.simps) (simp add: Let_def)
qed

lemma peb_write_blocks_bad:
  "buf \<noteq> [] \<Longrightarrow> mtd_peb_is_bad mtd s pnum \<noteq> 0 \<Longrightarrow>
     peb_write_blocks cfg mtd pnum buf s = peb_write_blocks cfg mtd (pnum + 1) buf s"
  by (subst peb_write_blocks.simps) simp

lemma peb_write_blocks_Nil: "peb_write_blocks cfg mtd pnum [] s = Some (0, s)"
  by (subst peb_write_blocks.simps) simp

lemma write_block_ok:
  assumes "inv s" and "mtd_peb_erase cfg mtd s pnum = (0, s1)"
    and "mtd_peb_write cfg mtd s1 (block_buf buf) pnum 0 = (0, s2)"
  shows "peb_frame pnum s s2" and "peb s2 pnum = block_buf buf"
proof -
  note e = mtd_peb_erase_ok [OF assms(1,2)]
  note inv1 = peb_frame_inv [OF e(1)]
  show "peb_frame pnum s s2"
    using peb_frame_trans [OF e(1) mtd_peb_write_frame(1) [OF inv1 assms(3)]] .
  have "list_all (\<lambda>b. b = 0xff) (subbuf (pnum * erasesize mtd + 0) (length (block_buf buf)) (cells s1))"
    using e(2) by (simp add: peb_of_def list_all_iff)
  from mtd_peb_write_done(1) [OF inv1 assms(3) this] show "peb s2 pnum = block_buf buf"
    by (simp add: peb_of_def)
qed

text \<open>The second pass ends, and it touches no block outside the range it was given.\<close>

lemma peb_write_blocks_total:
  assumes "peb_file_fits mtd s e pnum (length buf) = 0" and "inv s"
  shows "\<exists>ret s'. peb_write_blocks cfg mtd pnum buf s = Some (ret, s') \<and> inv s'
    \<and> mtd_peb_is_bad mtd s' = mtd_peb_is_bad mtd s \<and> (\<forall>q. q < pnum \<or> e \<le> q \<longrightarrow> peb s' q = peb s q)"
  using assms
proof (induction "e - pnum" arbitrary: pnum buf s)
  case 0
  then show ?case by (simp add: peb_file_fits.simps [of mtd s] split: if_splits)
next
  case (Suc n)
  show ?case
  proof (cases "buf = []")
    case True
    then show ?thesis using Suc.prems(2) by (simp add: peb_write_blocks_Nil)
  next
    case ne: False
    have lt: "pnum < e" and n: "n = e - (pnum + 1)" using Suc.hyps(2) by auto
    show ?thesis
    proof (cases "mtd_peb_is_bad mtd s pnum = 0")
      case False
      with Suc.prems(1) lt have "peb_file_fits mtd s e (pnum + 1) (length buf) = 0"
        by (simp add: peb_file_fits.simps [of mtd s e pnum] split: if_splits)
      from Suc.hyps(1) [OF n this Suc.prems(2)] False ne show ?thesis
        by (auto simp: peb_write_blocks_bad)
    next
      case good: True
      obtain e1 s1 where 1: "mtd_peb_erase cfg mtd s pnum = (e1, s1)" by fastforce
      obtain e2 s2 where 2: "mtd_peb_write cfg mtd s1 (block_buf buf) pnum 0 = (e2, s2)" by fastforce
      have f1: "peb_frame pnum s s1" using mtd_peb_erase_ok(1) [OF Suc.prems(2) 1] .
      have f2: "peb_frame pnum s s2"
        using peb_frame_trans [OF f1 mtd_peb_write_frame(1) [OF peb_frame_inv [OF f1] 2]] .
      note * = peb_write_blocks_good [OF ne good 1 2]
      consider "e1 \<noteq> 0 \<or> e2 \<noteq> 0" | "length buf \<le> erasesize mtd" "e1 = 0" "e2 = 0"
        | "erasesize mtd < length buf" "e1 = 0" "e2 = 0" by linarith
      then show ?thesis
      proof cases
        case 3
        with Suc.prems(1) lt good have "peb_file_fits mtd s e (pnum + 1) (length (drop (erasesize mtd) buf)) = 0"
          by (simp add: peb_file_fits.simps [of mtd s e pnum] split: if_splits)
        then have "peb_file_fits mtd s2 e (pnum + 1) (length (drop (erasesize mtd) buf)) = 0"
          using peb_file_fits_cong [OF peb_frame_is_bad [OF f2]] by simp
        from Suc.hyps(1) [OF n this peb_frame_inv [OF f2]] * 3 show ?thesis
          using lt peb_frame_is_bad [OF f2] peb_frame_other [OF f2] by auto
      qed (use * lt f1 f2 peb_frame_inv peb_frame_is_bad peb_frame_other peb_write_blocks_Nil in \<open>auto\<close>)
    qed
  qed
qed

lemma peb_read_good:
  assumes "inv t" and "len \<noteq> 0" and "pnum \<le> peb_last" and "mtd_peb_is_bad mtd t pnum = 0"
    and "mtd_peb_read_file mtd t pnum peb_last len = (0, d, t')"
  obtains d1 t1 d2 where "mtd_peb_read mtd t pnum 0 (min (erasesize mtd) len) = (0, d1, t1)"
    and "mtd_peb_read_file mtd t1 (pnum + 1) peb_last (len - min (erasesize mtd) len) = (0, d2, t')"
    and "d = d1 @ d2" and "d1 = take (min (erasesize mtd) len) (peb t pnum)"
    and "inv t1" and "cells t1 = cells t" and "mtd_peb_is_bad mtd t1 = mtd_peb_is_bad mtd t"
proof -
  obtain e1 d1 t1 where 1: "mtd_peb_read mtd t pnum 0 (min (erasesize mtd) len) = (e1, d1, t1)"
    by (metis prod_cases3)
  obtain e2 d2 t2 where 2: "mtd_peb_read_file mtd t1 (pnum + 1) peb_last (len - min (erasesize mtd) len) = (e2, d2, t2)"
    by (metis prod_cases3)
  have "e1 = 0" "e2 = 0" "d = d1 @ d2" "t2 = t'"
    using assms(2-5) 1 2 by (simp_all add: mtd_peb_read_file.simps [of mtd t pnum] Let_def split: if_splits)
  moreover have "e1 = 0 \<Longrightarrow> d1 = take (min (erasesize mtd) len) (peb t pnum)"
    using mtd_peb_read_ok(3) [OF assms(1) 1] by (simp add: peb_of_def subbuf_def min_absorb1)
  moreover note f = mtd_peb_read_ok(1,2) [OF assms(1) 1]
  ultimately show ?thesis
    using that 1 2 peb_frame_inv [OF f(1)] peb_frame_is_bad [OF f(1)] by simp
qed

lemma peb_file_roundtrip:
  assumes "peb_file_fits mtd s e pnum (length buf) = 0" and "inv s"
    and "peb_write_blocks cfg mtd pnum buf s = Some (0, s')"
    and "inv t" and "cells t = cells s'" and "mtd_peb_is_bad mtd t = mtd_peb_is_bad mtd s"
    and "mtd_peb_read_file mtd t pnum (e - 1) (length buf) = (0, d, t')"
  shows "d = buf"
  using assms
proof (induction "e - pnum" arbitrary: pnum buf s t d)
  case 0
  then show ?case by (simp add: peb_file_fits.simps [of mtd s] split: if_splits)
next
  case (Suc n)
  show ?case
  proof (cases "buf = []")
    case True
    then show ?thesis using Suc.prems(7) by (simp add: mtd_peb_read_file.simps)
  next
    case ne: False
    have lt: "pnum < e" "pnum \<le> e - 1" and n: "n = e - (pnum + 1)" using Suc.hyps(2) by auto
    show ?thesis
    proof (cases "mtd_peb_is_bad mtd s pnum = 0")
      case False
      with Suc.prems(1) lt have "peb_file_fits mtd s e (pnum + 1) (length buf) = 0"
        by (simp add: peb_file_fits.simps [of mtd s e pnum] split: if_splits)
      moreover have "mtd_peb_read_file mtd t (pnum + 1) (e - 1) (length buf) = (0, d, t')"
        using Suc.prems(6,7) False ne lt by (simp add: mtd_peb_read_file.simps [of mtd t pnum])
      ultimately show ?thesis
        using Suc.hyps(1) [OF n] Suc.prems(2-6) peb_write_blocks_bad [OF ne False] by simp
    next
      case good: True
      obtain e1 s1 where 1: "mtd_peb_erase cfg mtd s pnum = (e1, s1)" by fastforce
      obtain e2 s2 where 2: "mtd_peb_write cfg mtd s1 (block_buf buf) pnum 0 = (e2, s2)" by fastforce
      note * = peb_write_blocks_good [OF ne good 1 2]
      with Suc.prems(3) have ok: "e1 = 0" "e2 = 0"
        and rest: "peb_write_blocks cfg mtd (pnum + 1) (drop (erasesize mtd) buf) s2 = Some (0, s')"
        by (simp_all split: if_splits)
      note w = write_block_ok [OF Suc.prems(2) 1 [unfolded ok] 2 [unfolded ok]]
      obtain d1 t1 d2 where r: "mtd_peb_read_file mtd t1 (pnum + 1) (e - 1)
            (length buf - min (erasesize mtd) (length buf)) = (0, d2, t')"
          "d = d1 @ d2" "d1 = take (min (erasesize mtd) (length buf)) (peb t pnum)"
          "inv t1" "cells t1 = cells t" "mtd_peb_is_bad mtd t1 = mtd_peb_is_bad mtd t"
        by (rule peb_read_good [OF Suc.prems(4) _ lt(2) _ Suc.prems(7)]) (use good ne Suc.prems(6) in auto)
      show ?thesis
      proof (cases "length buf \<le> erasesize mtd")
        case True
        then have "s' = s2" "d2 = []" using rest r(1) by (simp_all add: peb_write_blocks_Nil mtd_peb_read_file.simps)
        then show ?thesis using True r(2,3) w(2) Suc.prems(5) by (simp add: block_buf_def)
      next
        case False
        with Suc.prems(1) lt good have "peb_file_fits mtd s e (pnum + 1) (length (drop (erasesize mtd) buf)) = 0"
          by (simp add: peb_file_fits.simps [of mtd s e pnum] split: if_splits)
        then have fits: "peb_file_fits mtd s2 e (pnum + 1) (length (drop (erasesize mtd) buf)) = 0"
          using peb_file_fits_cong [OF peb_frame_is_bad [OF w(1)]] by simp
        have "d2 = drop (erasesize mtd) buf"
          using Suc.hyps(1) [OF n fits peb_frame_inv [OF w(1)] rest, of t1 d2] r Suc.prems(5,6)
            peb_frame_is_bad [OF w(1)] False by (simp add: min_def)
        moreover have "peb s' pnum = peb s2 pnum"
          using peb_write_blocks_total [OF fits peb_frame_inv [OF w(1)], of cfg] rest by auto
        ultimately show ?thesis
          using False r(2,3) w(2) Suc.prems(5) by (simp add: block_buf_def min_def)
      qed
    qed
  qed
qed

end

section \<open>The RAM driver\<close>

definition ram_erase :: "bytes \<Rightarrow> nat \<Rightarrow> nat \<Rightarrow> int \<times> bytes" where
  "ram_erase mem addr len = (0, take addr mem @ replicate len 0xff @ drop (addr + len) mem)"

definition ram_write :: "bytes \<Rightarrow> nat \<Rightarrow> bytes \<Rightarrow> int \<times> nat \<times> bytes" where
  "ram_write mem to buf = (0, length buf, take to mem @ buf @ drop (to + length buf) mem)"

definition ram_read :: "bytes \<Rightarrow> nat \<Rightarrow> nat \<Rightarrow> int \<times> nat \<times> bytes \<times> bytes" where
  "ram_read mem from len = (0, len, subbuf from len mem, mem)"

text \<open>The callbacks of the RAM driver under an arbitrary geometry and with a fixed table of
  bad blocks; \<open>mtdram_probe\<close> is the geometry the driver sets up itself.\<close>

definition ram_mtd :: "nat \<Rightarrow> nat \<Rightarrow> nat \<Rightarrow> nat list \<Rightarrow> bytes mtd_info" where
  "ram_mtd sz eb ws bad =
     \<lparr>mtd_size = sz, erasesize = eb, writesize = ws, subpage_sft = 0, numeraseregions = 0,
      mtd_writeable = True, ecc_strength = 0, bitflip_threshold = 0,
      mtd_block_isbad_fn = Some (\<lambda>_ ofs. if ofs \<in> set bad then 1 else 0),
      mtd_block_markbad_fn = None,
      mtd_read_fn = ram_read, mtd_write_fn = ram_write, mtd_erase_fn = ram_erase\<rparr>"

definition mtdram_probe :: "nat \<Rightarrow> bytes mtd_info" where
  "mtdram_probe sz = (ram_mtd sz 1 1 [])\<lparr>mtd_block_isbad_fn := None\<rparr>"

lemma ram_write_outside:
  "to + length buf \<le> length mem \<Longrightarrow> ram_write mem to buf = (ret, n, mem') \<Longrightarrow>
     same_outside to (length buf) mem' mem \<and> subbuf to (length buf) mem' = buf"
  by (auto simp: ram_write_def same_outside_def subbuf_def)

lemma ram_erase_outside:
  "addr + len \<le> length mem \<Longrightarrow> ram_erase mem addr len = (ret, mem') \<Longrightarrow>
     same_outside addr len mem' mem \<and> subbuf addr len mem' = replicate len 0xff"
  by (auto simp: ram_erase_def same_outside_def subbuf_def)

lemma flash_ram_callbacks:
  assumes "mtd_read_fn mtd = ram_read" and "mtd_write_fn mtd = ram_write" and "mtd_erase_fn mtd = ram_erase"
    and "\<And>m m'. mtd_block_isbad mtd m = mtd_block_isbad mtd m'"
  shows "flash mtd (\<lambda>mem. mem) (\<lambda>mem. length mem = mtd_size mtd)"
proof
  fix s s' to ret retlen and buf :: bytes
  assume "length s = mtd_size mtd" "to + length buf \<le> mtd_size mtd"
    and "mtd_write_fn mtd s to buf = (ret, retlen, s')"
  with ram_write_outside [of to buf s ret retlen s'] show
    "length s' = mtd_size mtd \<and> mtd_block_isbad mtd s' = mtd_block_isbad mtd s
      \<and> same_outside to (length buf) s' s \<and> ret \<le> 0
      \<and> (ret = 0 \<longrightarrow> retlen = length buf
          \<and> (list_all (\<lambda>b. b = 0xff) (subbuf to (length buf) s) \<longrightarrow> subbuf to (length buf) s' = buf))"
    using assms(2,4) by (auto simp: ram_write_def same_outside_def)
next
  fix s s' addr len ret
  assume "length s = mtd_size mtd" "addr + len \<le> mtd_size mtd"
    and "mtd_erase_fn mtd s addr len = (ret, s')"
  with ram_erase_outside [of addr len s ret s'] show
    "length s' = mtd_size mtd \<and> mtd_block_isbad mtd s' = mtd_block_isbad mtd s
      \<and> same_outside addr len s' s \<and> ret \<le> 0 \<and> (ret = 0 \<longrightarrow> subbuf addr len s' = replicate len 0xff)"
    using assms(3,4) by (auto simp: ram_erase_def same_outside_def)
qed (use assms in \<open>auto simp: ram_read_def\<close>)

interpretation ram: flash "ram_mtd sz eb ws bad" "\<lambda>mem. mem" "\<lambda>mem. length mem = mtd_size (ram_mtd sz eb ws bad)"
  for sz eb ws bad
  by (rule flash_ram_callbacks) (simp_all add: ram_mtd_def mtd_block_isbad_def fun_eq_iff)

interpretation mtdram: flash "mtdram_probe sz" "\<lambda>mem. mem" "\<lambda>mem. length mem = mtd_size (mtdram_probe sz)"
  for sz
  by (rule flash_ram_callbacks) (simp_all add: mtdram_probe_def ram_mtd_def mtd_block_isbad_def fun_eq_iff)

section \<open>The test for erased flash\<close>

lemma all_ff_bytes_iff: "all_ff_bytes buf \<longleftrightarrow> list_all (\<lambda>b. b = 0xff) buf"
  by (induction buf) auto

lemma of_le32_ff: "of_le32 [a, b, c, d] = 0xffffffff \<longleftrightarrow> a = 0xff \<and> b = 0xff \<and> c = 0xff \<and> d = 0xff"
proof
  assume "of_le32 [a, b, c, d] = 0xffffffff"
  then have "le32 (of_le32 [a, b, c, d]) = le32 0xffffffff" by simp
  then have "[a, b, c, d] = le32 0xffffffff" by (subst (asm) le32_of_le32) simp_all
  then show "a = 0xff \<and> b = 0xff \<and> c = 0xff \<and> d = 0xff" by (simp add: le32_def)
qed (simp add: of_le32_def)

lemma all_ff_words_iff: "all_ff_words buf \<longleftrightarrow> list_all (\<lambda>b. b = 0xff) buf"
  by (induction buf rule: all_ff_words.induct) (auto simp: of_le32_ff all_ff_bytes_iff)

lemma mtd_buf_all_ff_iff:
  assumes "buf \<noteq> []"
  shows "mtd_buf_all_ff al buf \<longleftrightarrow> list_all (\<lambda>b. b = 0xff) buf"
  using assms
proof (induction al buf rule: mtd_buf_all_ff.induct)
  case (1 al buf)
  then show ?case
    by (cases buf) (auto simp: mtd_buf_all_ff.simps [of al] all_ff_words_iff)
qed

section \<open>Properties\<close>

lemmas peb_eval = mtd_peb_is_bad_def mtd_peb_valid_def mtd_block_isbad_def ram_mtd_def Let_def
  mtd_peb_erase_def mtd_erase_def mtd_peb_write_def mtd_write_def mtd_peb_read_def
  peb_read_retry.simps mtd_read_def mtd_read_oob_def ram_read_def ram_write_def ram_erase_def
  mtd_peb_check_all_ff_def mtd_peb_verify_def mtd_buf_all_ff.simps subbuf_def demo_config_def
  mtd_peb_torture_def torture_patterns_def

text \<open>Writing a file into a range of eraseblocks always returns (its second loop has no
  bound of its own), and whatever it returns no block outside the range has changed and no
  block has become bad.\<close>

theorem mtd_peb_write_file_returns:
  assumes "flash mtd cells good" and "good s"
  shows "\<exists>ret s'. mtd_peb_write_file cfg mtd s peb_start max_pebs buf = Some (ret, s') \<and> good s'
    \<and> mtd_peb_is_bad mtd s' = mtd_peb_is_bad mtd s
    \<and> (\<forall>q. q < peb_start \<or> peb_start + max_pebs \<le> q \<longrightarrow> peb_of mtd (cells s') q = peb_of mtd (cells s) q)"
  using flash.peb_write_blocks_total [OF assms(1) _ assms(2), of "peb_start + max_pebs" peb_start buf cfg]
    assms(2)
  by (auto simp: mtd_peb_write_file_def Let_def)

theorem mtd_peb_write_file_returns_witness:
  "\<exists>ret s'. mtd_peb_write_file demo_config (ram_mtd 12 4 1 [4]) (replicate 12 7) 0 2 [1, 2] = Some (ret, s')
    \<and> length s' = mtd_size (ram_mtd 12 4 1 [4])
    \<and> mtd_peb_is_bad (ram_mtd 12 4 1 [4]) s' = mtd_peb_is_bad (ram_mtd 12 4 1 [4]) (replicate 12 7)
    \<and> (\<forall>q. q < 0 \<or> 0 + 2 \<le> q \<longrightarrow> peb_of (ram_mtd 12 4 1 [4]) s' q = peb_of (ram_mtd 12 4 1 [4]) (replicate 12 7) q)"
  by (rule mtd_peb_write_file_returns [OF ram.flash_axioms]) (simp add: ram_mtd_def)

text \<open>C13. A file that was written successfully is read back: bad blocks are skipped by writer
  and reader alike, every block is erased before it is programmed, and the padding of the
  last block does not show.\<close>

theorem mtd_peb_file_write_read:
  assumes "flash mtd cells good" and "good s"
    and "mtd_peb_write_file cfg mtd s peb_start max_pebs buf = Some (0, s')"
    and "mtd_peb_read_file mtd s' peb_start (peb_start + max_pebs - 1) (length buf) = (0, buf', s'')"
  shows "buf' = buf"
proof -
  from assms(3) have fits: "peb_file_fits mtd s (peb_start + max_pebs) peb_start (length buf) = 0"
    and w: "peb_write_blocks cfg mtd peb_start buf s = Some (0, s')"
    by (auto simp: mtd_peb_write_file_def Let_def split: if_splits)
  from flash.peb_write_blocks_total [OF assms(1) fits assms(2), of cfg] w
  have "good s'" "mtd_peb_is_bad mtd s' = mtd_peb_is_bad mtd s" by auto
  with flash.peb_file_roundtrip [OF assms(1) fits assms(2) w _ refl _ assms(4)] show ?thesis by simp
qed

theorem mtd_peb_file_write_read_witness:
  "\<exists>s' buf'. mtd_peb_write_file demo_config (ram_mtd 12 4 1 [4]) (replicate 12 7) 0 3 [1, 2, 3, 4, 5] = Some (0, s')
    \<and> mtd_peb_read_file (ram_mtd 12 4 1 [4]) s' 0 (0 + 3 - 1) (length [1, 2, 3, 4, 5 :: u8]) = (0, buf', s')
    \<and> buf' = [1, 2, 3, 4, 5]"
proof -
  let ?s' = "[1, 2, 3, 4, 7, 7, 7, 7, 5, 0, 0, 0] :: bytes"
  have w: "mtd_peb_write_file demo_config (ram_mtd 12 4 1 [4]) (replicate 12 7) 0 3 [1, 2, 3, 4, 5] = Some (0, ?s')"
    by (simp add: mtd_peb_write_file_def peb_file_fits.simps peb_write_blocks.simps peb_eval) (simp add: numeral_eq_Suc)
  moreover have r: "mtd_peb_read_file (ram_mtd 12 4 1 [4]) ?s' 0 (0 + 3 - 1) (length [1, 2, 3, 4, 5 :: u8])
      = (0, [1, 2, 3, 4, 5], ?s')"
    by (simp add: mtd_peb_read_file.simps peb_eval)
  ultimately show ?thesis
    using mtd_peb_file_write_read [OF ram.flash_axioms _ w r] by (auto simp: ram_mtd_def)
qed

text \<open>C14. The word-wise test for erased flash agrees with looking at every byte, for every
  alignment of the buffer.\<close>

theorem mtd_buf_all_ff_correct:
  assumes "buf \<noteq> []"
  shows "mtd_buf_all_ff al buf \<longleftrightarrow> (\<forall>b \<in> set buf. b = 0xff)"
  using mtd_buf_all_ff_iff [OF assms] by (simp add: list_all_iff)

theorem mtd_buf_all_ff_correct_witness:
  "mtd_buf_all_ff 3 [0xff, 0xff, 0xff, 0xff, 0xff, 0xfe] \<longleftrightarrow> (\<forall>b \<in> set [0xff, 0xff, 0xff, 0xff, 0xff, 0xfe]. b = (0xff :: u8))"
  by (rule mtd_buf_all_ff_correct) simp

text \<open>The torture test of an eraseblock changes nothing outside that block, and when it
  passes it leaves the block erased.\<close>

theorem mtd_peb_torture_erased:
  assumes "flash mtd cells good" and "good s" and "mtd_peb_torture cfg mtd s pnum = (ret, s')"
  shows "(\<forall>q. q \<noteq> pnum \<longrightarrow> peb_of mtd (cells s') q = peb_of mtd (cells s) q)
    \<and> (0 \<le> ret \<longrightarrow> peb_of mtd (cells s') pnum = replicate (erasesize mtd) 0xff)"
  using flash.mtd_peb_torture_ok [OF assms] flash.peb_frame_other [OF assms(1)] by metis

theorem mtd_peb_torture_erased_witness:
  "mtd_peb_torture demo_config (ram_mtd 4 2 1 []) [1, 2, 3, 4] 1 = (4, [1, 2, 0xff, 0xff])
    \<and> peb_of (ram_mtd 4 2 1 []) [1, 2, 0xff, 0xff] 1 = replicate 2 0xff"
proof -
  have "mtd_peb_torture demo_config (ram_mtd 4 2 1 []) [1, 2, 3, 4] 1 = (4, [1, 2, 0xff, 0xff])"
    by (simp add: peb_eval numeral_2_eq_2)
  from mtd_peb_torture_erased [OF ram.flash_axioms _ this] this show ?thesis
    by (auto simp: ram_mtd_def)
qed

end
