(* ===== verification/Bucket_Circular.thy ===== *)
theory Bucket_Circular
  imports Mtd
begin

text \<open>
  The circular storage bucket (\<^verbatim>\<open>common/state/backend_bucket_circular.c\<close>): one eraseblock
  of a flash in which the state is written again and again behind the previous copy, and which
  is erased only when the next copy does not fit any more. Every copy ends with a meta record,
  so that a search from the end of the block finds the last one.

  The code for the Linux side tool (\<^verbatim>\<open>#ifndef __BAREBOX__\<close>) is not modelled.
\<close>

section \<open>The bucket\<close>

record bucket_circular =
  eraseblock :: nat
  circ_writesize :: nat
  max_size :: nat
  write_area :: nat
  last_written_length :: u32
  wrong_magic :: bool

definition circular_magic :: u32 where "circular_magic = 0x14fa2d02"

definition circular_meta_bytes :: "u32 \<Rightarrow> bytes" where
  "circular_meta_bytes written_length = le32 circular_magic @ le32 written_length"

definition roundup :: "nat \<Rightarrow> nat \<Rightarrow> nat" where
  "roundup x y = (x + (y - 1)) div y * y"

section \<open>Access to the eraseblock\<close>

definition state_mtd_peb_read ::
  "config \<Rightarrow> 's mtd_info \<Rightarrow> bucket_circular \<Rightarrow> 's \<Rightarrow> nat \<Rightarrow> nat
     \<Rightarrow> int \<times> bytes \<times> bucket_circular \<times> 's" where
  "state_mtd_peb_read cfg mtd circ s offset len =
     (case mtd_peb_read mtd s (eraseblock circ) offset len of (ret, buf, s) \<Rightarrow>
        if ret = - EBADMSG then
          (case mtd_peb_torture cfg mtd s (eraseblock circ) of (ret, s) \<Rightarrow>
             if ret = - EIO then (- EIO, buf, circ, snd (mtd_peb_mark_bad mtd s (eraseblock circ)))
             else if ret < 0 then (ret, buf, circ, s)
             else (- EUCLEAN, replicate len 0, circ\<lparr>write_area := 0\<rparr>, s))
        else (ret, buf, circ, s))"

definition state_mtd_peb_write ::
  "config \<Rightarrow> 's mtd_info \<Rightarrow> bucket_circular \<Rightarrow> 's \<Rightarrow> bytes \<Rightarrow> nat \<Rightarrow> int \<times> 's" where
  "state_mtd_peb_write cfg mtd circ s buf offset =
     (case mtd_peb_write cfg mtd s buf (eraseblock circ) offset of (ret, s) \<Rightarrow>
        if ret = - EBADMSG then
          (case mtd_peb_torture cfg mtd s (eraseblock circ) of (ret, s) \<Rightarrow>
             if ret = - EIO then (- EIO, snd (mtd_peb_mark_bad mtd s (eraseblock circ)))
             else if ret < 0 then (ret, s)
             else (- EUCLEAN, s))
        else (ret, s))"

definition state_mtd_peb_erase ::
  "config \<Rightarrow> 's mtd_info \<Rightarrow> bucket_circular \<Rightarrow> 's \<Rightarrow> int \<times> 's" where
  "state_mtd_peb_erase cfg mtd circ s = mtd_peb_erase cfg mtd s (eraseblock circ)"

section \<open>Operations\<close>

definition state_backend_bucket_circular_read ::
  "config \<Rightarrow> 's mtd_info \<Rightarrow> bucket_circular \<Rightarrow> 's \<Rightarrow> int \<times> bytes \<times> bucket_circular \<times> 's" where
  "state_backend_bucket_circular_read cfg mtd circ s =
     (if write_area circ = 0 then (- ENODATA, [], circ, s)
      else
        let lwl = last_written_length circ;
            old_format = (lwl = 0);
            invalid = (\<not> old_format
              \<and> (write_area circ < unat lwl \<or> unat lwl mod circ_writesize circ \<noteq> 0));
            read_len = (if old_format then min (write_area circ) (max_size circ - 8) else unat lwl);
            offset = (if old_format then 0 else write_area circ - read_len);
            circ = (if old_format \<or> invalid then circ\<lparr>write_area := 0\<rparr> else circ)
        in if invalid then (- EINVAL, [], circ, s)
           else if read_len = 0 then (- EINVAL, [], circ, s)
           else case state_mtd_peb_read cfg mtd circ s offset read_len of (ret, buf, circ, s) \<Rightarrow>
             if ret < 0 \<and> ret \<noteq> - EUCLEAN then (ret, [], circ, s)
             else (ret, take (if old_format then read_len else read_len - 8) buf, circ, s))"

text \<open>The write buffer: the data, zeros, and the meta record in its last eight bytes. The
  source computes the length in 32 bits; where the sum wraps the copy would overrun the buffer,
  so the lemmas below ask for data shorter than that.\<close>

definition circular_written_length :: "bucket_circular \<Rightarrow> nat \<Rightarrow> u32" where
  "circular_written_length circ len = of_nat (roundup (len + 8) (circ_writesize circ))"

definition circular_write_buf :: "u32 \<Rightarrow> bytes \<Rightarrow> bytes" where
  "circular_write_buf written_length buf =
     take (unat written_length - 8) (buf @ replicate (unat written_length - length buf) 0)
       @ circular_meta_bytes written_length"

definition state_backend_bucket_circular_write ::
  "config \<Rightarrow> 's mtd_info \<Rightarrow> bucket_circular \<Rightarrow> 's \<Rightarrow> bytes \<Rightarrow> int \<times> bucket_circular \<times> 's" where
  "state_backend_bucket_circular_write cfg mtd circ s buf =
     (let written_length = circular_written_length circ (length buf) in
      if max_size circ < unat written_length then (- E2BIG, circ, s)
      else if written_length = 0 then (- EINVAL, circ, s)
      else
        let circ = (if max_size circ \<le> write_area circ + unat written_length
                    then circ\<lparr>write_area := 0\<rparr> else circ)
        in case (if write_area circ = 0 then state_mtd_peb_erase cfg mtd circ s else (0, s)) of (ret, s) \<Rightarrow>
          if ret \<noteq> 0 then (ret, circ, s)
          else
            let offset = write_area circ;
                circ = circ\<lparr>write_area := write_area circ + unat written_length\<rparr>
            in case state_mtd_peb_write cfg mtd circ s (circular_write_buf written_length buf) offset of
                 (ret, s) \<Rightarrow> (ret, circ, s))"

text \<open>The search of the initialisation; \<open>area\<close> is \<^verbatim>\<open>sub_offset + writesize\<close>. The result is the
  write area, the length in the meta record and whether its magic is wrong.\<close>

function circular_scan :: "nat \<Rightarrow> bytes \<Rightarrow> nat \<Rightarrow> nat \<times> u32 \<times> bool" where
  "circular_scan ws buf area =
     (if ws = 0 \<or> area < ws then (area, 0, False)
      else if mtd_buf_all_ff (area - ws) (subbuf (area - ws) ws buf) then circular_scan ws buf (area - ws)
      else
        let magic = of_le32 (subbuf (area - 8) 4 buf);
            written_length = of_le32 (subbuf (area - 4) 4 buf)
        in if magic \<noteq> circular_magic
           then (area, 0, magic \<noteq> 0xffffffff \<and> magic \<noteq> 0)
           else (area, written_length, False))"
  by pat_completeness auto
termination by (relation "measure (\<lambda>(ws, buf, area). area)") auto

declare circular_scan.simps [simp del]

definition state_backend_bucket_circular_init ::
  "config \<Rightarrow> 's mtd_info \<Rightarrow> bucket_circular \<Rightarrow> 's \<Rightarrow> int \<times> bucket_circular \<times> 's" where
  "state_backend_bucket_circular_init cfg mtd circ s =
     (case state_mtd_peb_read cfg mtd circ s 0 (max_size circ) of (ret, buf, circ, s) \<Rightarrow>
        if ret \<noteq> 0 \<and> ret \<noteq> - EUCLEAN then (ret, circ, s)
        else case circular_scan (circ_writesize circ) buf (max_size circ) of (area, len, wrong) \<Rightarrow>
          (0, circ\<lparr>write_area := area, last_written_length := len,
                   wrong_magic := wrong_magic circ \<or> wrong\<rparr>, s))"

definition state_backend_bucket_circular_create ::
  "config \<Rightarrow> 's mtd_info \<Rightarrow> 's \<Rightarrow> nat \<Rightarrow> nat \<Rightarrow> int \<times> bucket_circular \<times> 's" where
  "state_backend_bucket_circular_create cfg mtd s eb ws =
     (let circ = \<lparr>eraseblock = eb, circ_writesize = (if ws < 8 then 8 else ws),
                  max_size = erasesize mtd, write_area = 0, last_written_length = 0, wrong_magic = False\<rparr>
      in if mtd_peb_is_bad mtd s eb \<noteq> 0 then (- EIO, circ, s)
         else state_backend_bucket_circular_init cfg mtd circ s)"

section \<open>Arithmetic\<close>

lemma roundup_bounds:
  assumes "0 < y"
  shows "x \<le> roundup x y" and "roundup x y < x + y" and "y dvd roundup x y"
proof -
  have eq: "(x + (y - 1)) div y * y + (x + (y - 1)) mod y = x + (y - 1)" by (rule div_mult_mod_eq)
  moreover have "(x + (y - 1)) mod y \<le> y - 1" using assms
    by (metis Suc_pred' less_Suc_eq_le mod_less_divisor)
  ultimately show "x \<le> roundup x y" unfolding roundup_def by linarith
  show "roundup x y < x + y" using eq assms unfolding roundup_def by linarith
  show "y dvd roundup x y" by (simp add: roundup_def)
qed

lemma unat_written_length:
  assumes "0 < circ_writesize circ" and "len + 8 + circ_writesize circ \<le> 2 ^ 32"
  shows "unat (circular_written_length circ len) = roundup (len + 8) (circ_writesize circ)"
  using roundup_bounds(2) [OF assms(1), of "len + 8"] assms(2)
  by (simp add: circular_written_length_def unat_of_nat)

lemma length_circular_write_buf:
  "8 \<le> unat wl \<Longrightarrow> length (circular_write_buf wl buf) = unat wl"
  by (simp add: circular_write_buf_def circular_meta_bytes_def)

section \<open>The search finds the last copy\<close>

abbreviation erased :: "bytes \<Rightarrow> bool" where
  "erased \<equiv> list_all (\<lambda>b. b = 0xff)"

lemma erased_subbuf: "erased xs \<Longrightarrow> erased (subbuf off len xs)"
  by (rule list_all_subbuf)

lemma erased_drop_mono:
  assumes "erased (drop m xs)" and "m \<le> n"
  shows "erased (drop n xs)"
proof -
  have "drop n xs = drop (n - m) (drop m xs)" using assms(2) by simp
  then show ?thesis using assms(1) by (auto simp: list_all_iff dest: in_set_dropD simp del: drop_drop)
qed

lemma erased_subbuf_drop: "erased (drop m xs) \<Longrightarrow> m \<le> off \<Longrightarrow> erased (subbuf off len xs)"
  by (drule (1) erased_drop_mono) (auto simp: subbuf_def list_all_iff dest: in_set_takeD)

lemma erased_word: "erased xs \<Longrightarrow> length xs = 4 \<Longrightarrow> of_le32 xs = 0xffffffff"
  using length_eq_4 [of xs] by (auto simp: of_le32_ff)

lemma circular_scan_found:
  assumes "8 \<le> ws" and "ws \<le> a" and "area \<le> length B" and "a \<le> area" and "ws dvd area - a"
    and "erased (drop a B)" and "subbuf (a - 8) 8 B = circular_meta_bytes wl"
  shows "circular_scan ws B area = (a, wl, False)"
  using assms(3-5)
proof (induction area rule: less_induct)
  case (less area)
  show ?case
  proof (cases "a = area")
    case True
    have nest: "subbuf (a - 8) 4 B = subbuf 0 4 (subbuf (a - 8) 8 B)"
        "subbuf (a - 4) 4 B = subbuf 4 4 (subbuf (a - 8) 8 B)"
      using assms(1,2) by (simp_all add: subbuf_slice)
    then have fields: "of_le32 (subbuf (a - 8) 4 B) = circular_magic" "of_le32 (subbuf (a - 4) 4 B) = wl"
      by (simp_all add: assms(7) circular_meta_bytes_def codec_simps)
    have "\<not> erased (subbuf (a - ws) ws B)"
    proof
      assume "erased (subbuf (a - ws) ws B)"
      then have "erased (subbuf (ws - 8) 4 (subbuf (a - ws) ws B))" by (rule erased_subbuf)
      also have "subbuf (ws - 8) 4 (subbuf (a - ws) ws B) = subbuf (a - 8) 4 B"
        using assms(1,2) by (simp add: subbuf_slice)
      finally have "erased (subbuf (a - 8) 4 B)" .
      moreover have "length (subbuf (a - 8) 4 B) = 4"
        using less.prems(1) assms(1,2) True by simp
      ultimately show False using erased_word fields(1) by (simp add: circular_magic_def)
    qed
    moreover have "subbuf (a - ws) ws B \<noteq> []"
      using less.prems(1) assms(1,2) True by (simp add: subbuf_def)
    ultimately show ?thesis
      using assms(1,2) True fields by (subst circular_scan.simps) (auto simp: mtd_buf_all_ff_iff Let_def)
  next
    case False
    then have "a < area" using less.prems(2) by simp
    with less.prems(3) have step: "a + ws \<le> area" by (auto dest!: dvd_imp_le)
    then have "erased (subbuf (area - ws) ws B)"
      using assms(6) by (intro erased_subbuf_drop) auto
    moreover have "subbuf (area - ws) ws B \<noteq> []"
      using less.prems(1) step assms(1) by (simp add: subbuf_def)
    moreover have "circular_scan ws B (area - ws) = (a, wl, False)"
    proof (rule less.IH)
      show "ws dvd area - ws - a"
        using less.prems(3) dvd_diff_nat [of ws "area - a" ws] by (simp add: add.commute)
    qed (use less.prems(1) step assms(1) in auto)
    ultimately show ?thesis
      using step assms(1) by (subst circular_scan.simps) (simp add: mtd_buf_all_ff_iff)
  qed
qed

section \<open>The bucket on a flash\<close>

context flash
begin

text \<open>Geometry, and the invariant that keeps writes away from programmed cells: everything
  behind the write area is erased (an empty write area promises nothing, the block is then
  erased before the next write).\<close>

definition circ_geometry :: "bucket_circular \<Rightarrow> bool" where
  "circ_geometry circ \<longleftrightarrow> max_size circ = erasesize mtd \<and> 8 \<le> circ_writesize circ
     \<and> circ_writesize circ dvd erasesize mtd
     \<and> eraseblock circ * erasesize mtd + erasesize mtd \<le> mtd_size mtd"

definition circ_ok :: "bucket_circular \<Rightarrow> 's \<Rightarrow> bool" where
  "circ_ok circ s \<longleftrightarrow> inv s \<and> circ_geometry circ
     \<and> circ_writesize circ dvd write_area circ \<and> write_area circ \<le> erasesize mtd
     \<and> (write_area circ \<noteq> 0 \<longrightarrow> erased (drop (write_area circ) (peb s (eraseblock circ))))"

lemma length_peb:
  "inv s \<Longrightarrow> circ_geometry circ \<Longrightarrow> length (peb s (eraseblock circ)) = erasesize mtd"
  by (simp add: peb_of_def circ_geometry_def length_cells)

lemma subbuf_cells_peb:
  "off + len \<le> erasesize mtd \<Longrightarrow>
     subbuf (pnum * erasesize mtd + off) len (cells s) = subbuf off len (peb s pnum)"
  by (simp add: peb_of_def subbuf_slice)

lemma same_outside_peb:
  assumes "same_outside (pnum * erasesize mtd + off) len (cells s') (cells s)"
    and "off + len \<le> erasesize mtd"
  shows "drop (off + len) (peb s' pnum) = drop (off + len) (peb s pnum)"
proof -
  have "drop (off + len) (peb t pnum)
      = take (erasesize mtd - (off + len)) (drop (pnum * erasesize mtd + off + len) (cells t))" for t
    by (simp add: peb_of_def subbuf_def drop_take ac_simps)
  then show ?thesis using assms(1) by (simp add: same_outside_def)
qed

lemma state_mtd_peb_write_0:
  assumes "state_mtd_peb_write cfg mtd circ s buf offset = (0, s')"
  shows "mtd_peb_write cfg mtd s buf (eraseblock circ) offset = (0, s')"
  using assms by (auto simp: state_mtd_peb_write_def split: prod.splits if_splits)

lemma circ_prepare:
  assumes "circ_ok circ s" and "unat wl \<le> max_size circ"
    and "circ1 = (if max_size circ \<le> write_area circ + unat wl then circ\<lparr>write_area := 0\<rparr> else circ)"
    and "(if write_area circ1 = 0 then state_mtd_peb_erase cfg mtd circ1 s else (0, s)) = (0, s1)"
  shows "inv s1" and "erased (drop (write_area circ1) (peb s1 (eraseblock circ)))"
    and "write_area circ1 + unat wl \<le> erasesize mtd" and "circ_writesize circ dvd write_area circ1"
proof -
  have g: "max_size circ = erasesize mtd" "inv s" using assms(1) by (auto simp: circ_ok_def circ_geometry_def)
  show "write_area circ1 + unat wl \<le> erasesize mtd" using assms(2,3) g(1) by (auto split: if_splits)
  show "circ_writesize circ dvd write_area circ1" using assms(1,3) by (auto simp: circ_ok_def)
  have eb: "eraseblock circ1 = eraseblock circ" using assms(3) by simp
  show "inv s1"
    using assms(4) g(2) mtd_peb_erase_ok(1) [OF g(2), THEN peb_frame_inv]
    by (auto simp: state_mtd_peb_erase_def split: if_splits)
  show "erased (drop (write_area circ1) (peb s1 (eraseblock circ)))"
  proof (cases "write_area circ1 = 0")
    case True
    then have "mtd_peb_erase cfg mtd s (eraseblock circ) = (0, s1)"
      using assms(4) by (simp add: state_mtd_peb_erase_def eb)
    from mtd_peb_erase_ok(2) [OF g(2) this] show ?thesis by (simp add: list_all_iff)
  next
    case False
    then have "s1 = s" "circ1 = circ" using assms(3,4) by (auto split: if_splits)
    then show ?thesis using assms(1) False by (simp add: circ_ok_def)
  qed
qed

text \<open>A successful write lands behind the previous copy, and the invariant holds again.\<close>

lemma circular_write_ok:
  assumes "circ_ok circ s" and "length buf + 8 + circ_writesize circ \<le> 2 ^ 32"
    and "state_backend_bucket_circular_write cfg mtd circ s buf = (0, circ', s')"
  defines "wl \<equiv> circular_written_length circ (length buf)"
  shows "circ_ok circ' s'" and "circ' = circ\<lparr>write_area := write_area circ'\<rparr>"
    and "unat wl \<le> write_area circ'"
    and "subbuf (write_area circ' - unat wl) (unat wl) (peb s' (eraseblock circ)) = circular_write_buf wl buf"
proof -
  have g: "circ_geometry circ" "0 < circ_writesize circ" using assms(1) by (auto simp: circ_ok_def circ_geometry_def)
  note wl = unat_written_length [OF g(2) assms(2), folded wl_def]
  note rb = roundup_bounds [OF g(2), of "length buf + 8", folded wl]
  have len: "length (circular_write_buf wl buf) = unat wl"
    using rb(1) by (intro length_circular_write_buf) simp
  define circ1 where "circ1 = (if max_size circ \<le> write_area circ + unat wl then circ\<lparr>write_area := 0\<rparr> else circ)"
  obtain r s1 where p: "(if write_area circ1 = 0 then state_mtd_peb_erase cfg mtd circ1 s else (0, s)) = (r, s1)"
    by fastforce
  have small: "unat wl \<le> max_size circ" and r: "r = 0"
    and c': "circ' = circ1\<lparr>write_area := write_area circ1 + unat wl\<rparr>"
    and w: "state_mtd_peb_write cfg mtd (circ1\<lparr>write_area := write_area circ1 + unat wl\<rparr>) s1
        (circular_write_buf wl buf) (write_area circ1) = (0, s')"
    using assms(3) p unfolding state_backend_bucket_circular_write_def Let_def
    by (auto simp: wl_def [symmetric] circ1_def [symmetric] split: if_splits prod.splits)
  note prep = circ_prepare [OF assms(1) small circ1_def p [unfolded r]]
  have w': "mtd_peb_write cfg mtd s1 (circular_write_buf wl buf) (eraseblock circ) (write_area circ1) = (0, s')"
    using state_mtd_peb_write_0 [OF w] by (simp add: circ1_def split: if_splits)
  let ?off = "write_area circ1"
  have "erased (subbuf (eraseblock circ * erasesize mtd + ?off) (length (circular_write_buf wl buf)) (cells s1))"
    using erased_subbuf_drop [OF prep(2) order_refl] prep(3) by (simp add: len subbuf_cells_peb)
  note wrote = mtd_peb_write_done [OF prep(1) w' this]
  have at: "subbuf ?off (unat wl) (peb s' (eraseblock circ)) = circular_write_buf wl buf"
    using wrote(1) prep(3) by (simp add: len subbuf_cells_peb)
  have rest: "erased (drop (?off + unat wl) (peb s' (eraseblock circ)))"
    using same_outside_peb [OF wrote(2)] prep(2,3) erased_drop_mono [OF prep(2), of "?off + unat wl"]
    by (simp add: len)
  have "inv s'" using mtd_peb_write_frame(1) [OF prep(1) w'] by (rule peb_frame_inv)
  moreover have "circ_geometry circ'" "eraseblock circ' = eraseblock circ" "circ_writesize circ' = circ_writesize circ"
    using g(1) by (simp_all add: c' circ1_def circ_geometry_def)
  ultimately show "circ_ok circ' s'"
    using prep(3,4) rest rb(3) by (simp add: circ_ok_def c')
  show "circ' = circ\<lparr>write_area := write_area circ'\<rparr>" by (simp add: c' circ1_def)
  show "unat wl \<le> write_area circ'"
    and "subbuf (write_area circ' - unat wl) (unat wl) (peb s' (eraseblock circ)) = circular_write_buf wl buf"
    using at by (simp_all add: c')
qed

text \<open>Reads that the hardware completes, with corrected bit flips or without.\<close>

lemma state_mtd_peb_read_ok:
  assumes "inv s" and "mtd_peb_read mtd s (eraseblock circ) off len = (ret, buf, s')"
    and "ret = 0 \<or> ret = - EUCLEAN" and "off + len \<le> erasesize mtd"
  shows "state_mtd_peb_read cfg mtd circ s off len
      = (ret, subbuf off len (peb s (eraseblock circ)), circ, s')"
    and "inv s'" and "cells s' = cells s"
proof -
  note r = mtd_peb_read_ok [OF assms(1,2)]
  show "inv s'" "cells s' = cells s" using r peb_frame_inv by auto
  show "state_mtd_peb_read cfg mtd circ s off len
      = (ret, subbuf off len (peb s (eraseblock circ)), circ, s')"
    using assms(2,3) r(3) subbuf_cells_peb [OF assms(4)] by (auto simp: state_mtd_peb_read_def)
qed

text \<open>What a bucket holds once the search has run: the last copy ends at the write area and
  its meta record gives its length.\<close>

definition circ_holds :: "bucket_circular \<Rightarrow> 's \<Rightarrow> u32 \<Rightarrow> bytes \<Rightarrow> bool" where
  "circ_holds circ s wl buf \<longleftrightarrow> circ_ok circ s \<and> circ_writesize circ dvd unat wl
     \<and> length buf + 8 \<le> unat wl \<and> unat wl \<le> write_area circ
     \<and> subbuf (write_area circ - unat wl) (unat wl) (peb s (eraseblock circ)) = circular_write_buf wl buf"

lemma circular_write_holds:
  assumes "circ_ok circ s" and "length buf + 8 + circ_writesize circ \<le> 2 ^ 32"
    and "state_backend_bucket_circular_write cfg mtd circ s buf = (0, circ', s')"
  shows "circ_holds circ' s' (circular_written_length circ (length buf)) buf"
proof -
  have g: "0 < circ_writesize circ" using assms(1) by (auto simp: circ_ok_def circ_geometry_def)
  note w = circular_write_ok [OF assms]
  note rb = roundup_bounds [OF g, of "length buf + 8", folded unat_written_length [OF g assms(2)]]
  have "eraseblock circ' = eraseblock circ" "circ_writesize circ' = circ_writesize circ"
    by (subst w(2), simp)+
  then show ?thesis using w(1,3,4) rb by (simp add: circ_holds_def)
qed

lemma circ_holds_meta:
  assumes "circ_holds circ s wl buf"
  shows "subbuf (write_area circ - 8) 8 (peb s (eraseblock circ)) = circular_meta_bytes wl"
proof -
  from assms have h: "8 \<le> unat wl" "unat wl \<le> write_area circ"
      "subbuf (write_area circ - unat wl) (unat wl) (peb s (eraseblock circ)) = circular_write_buf wl buf"
    by (auto simp: circ_holds_def)
  have "subbuf (write_area circ - 8) 8 (peb s (eraseblock circ))
      = subbuf (unat wl - 8) 8 (subbuf (write_area circ - unat wl) (unat wl) (peb s (eraseblock circ)))"
    using h(1,2) by (simp add: subbuf_slice)
  also have "\<dots> = circular_meta_bytes wl"
    unfolding h(3) using h(1) by (simp add: circular_write_buf_def circular_meta_bytes_def subbuf_def)
  finally show ?thesis .
qed

text \<open>The initialisation at the next start finds the last copy again, whatever the bucket
  object held before.\<close>

lemma circular_init_finds:
  assumes "circ_holds circ s wl buf" and "eraseblock circ0 = eraseblock circ"
    and "circ_writesize circ0 = circ_writesize circ" and "max_size circ0 = max_size circ"
    and "mtd_peb_read mtd s (eraseblock circ0) 0 (max_size circ0) = (ret, b, s1)"
    and "ret = 0 \<or> ret = - EUCLEAN"
  shows "state_backend_bucket_circular_init cfg mtd circ0 s
    = (0, circ0\<lparr>write_area := write_area circ, last_written_length := wl\<rparr>, s1)"
    and "circ_holds (circ0\<lparr>write_area := write_area circ, last_written_length := wl\<rparr>) s1 wl buf"
proof -
  let ?B = "peb s (eraseblock circ)"
  from assms(1) have ok: "circ_ok circ s" and g: "circ_geometry circ" "inv s"
    by (auto simp: circ_holds_def circ_ok_def)
  from g assms(4) have ms: "max_size circ0 = erasesize mtd" by (simp add: circ_geometry_def)
  note rd = state_mtd_peb_read_ok [OF g(2) assms(5,6)]
  have b: "subbuf 0 (erasesize mtd) (peb s (eraseblock circ0)) = ?B"
    using length_peb [OF g(2,1)] by (simp add: assms(2) subbuf_whole)
  have a: "circ_writesize circ \<le> write_area circ" "write_area circ \<noteq> 0"
    using assms(1) by (auto simp: circ_holds_def circ_ok_def circ_geometry_def dest!: dvd_imp_le)
  have "circular_scan (circ_writesize circ) ?B (erasesize mtd) = (write_area circ, wl, False)"
  proof (rule circular_scan_found)
    show "circ_writesize circ dvd erasesize mtd - write_area circ"
      using ok g(1) by (intro dvd_diff_nat) (auto simp: circ_ok_def circ_geometry_def)
    show "subbuf (write_area circ - 8) 8 ?B = circular_meta_bytes wl" by (rule circ_holds_meta) fact
  qed (use ok g a length_peb [OF g(2,1)] in \<open>auto simp: circ_ok_def circ_geometry_def\<close>)
  then show "state_backend_bucket_circular_init cfg mtd circ0 s
    = (0, circ0\<lparr>write_area := write_area circ, last_written_length := wl\<rparr>, s1)"
    using assms(3,6) rd(1) by (auto simp: state_backend_bucket_circular_init_def b ms)
  show "circ_holds (circ0\<lparr>write_area := write_area circ, last_written_length := wl\<rparr>) s1 wl buf"
    using assms(1-4) rd(2,3) by (simp add: circ_holds_def circ_ok_def circ_geometry_def ms)
qed

lemma circular_read_holds:
  assumes "circ_holds circ s wl buf" and "last_written_length circ = wl"
    and "mtd_peb_read mtd s (eraseblock circ) (write_area circ - unat wl) (unat wl) = (ret, b, s1)"
    and "ret = 0 \<or> ret = - EUCLEAN"
  shows "state_backend_bucket_circular_read cfg mtd circ s
    = (ret, buf @ replicate (unat wl - 8 - length buf) 0, circ, s1)"
proof -
  from assms(1) have h: "length buf + 8 \<le> unat wl" "unat wl \<le> write_area circ" "write_area circ \<noteq> 0" "wl \<noteq> 0"
    "unat wl mod circ_writesize circ = 0" "write_area circ \<le> erasesize mtd" "inv s"
    and data: "subbuf (write_area circ - unat wl) (unat wl) (peb s (eraseblock circ)) = circular_write_buf wl buf"
    by (auto simp: circ_holds_def circ_ok_def dvd_eq_mod_eq_0)
  have "write_area circ - unat wl + unat wl \<le> erasesize mtd" using h by simp
  note rd = state_mtd_peb_read_ok [OF h(7) assms(3,4) this]
  have "take (unat wl - 8) (circular_write_buf wl buf) = buf @ replicate (unat wl - 8 - length buf) 0"
    using h(1) by (simp add: circular_write_buf_def min_def)
  moreover have "unat wl \<noteq> 0" using h(1) by simp
  ultimately show ?thesis
    using h assms(2,4) rd(1) by (auto simp: state_backend_bucket_circular_read_def Let_def data)
qed

text \<open>A write that fails keeps the invariant as well, because the write area is advanced before
  the flash is touched; the drivers that report an uncorrectable error for a write, after which
  the block is tortured, are left out here.\<close>

lemma circular_write_keeps:
  assumes "circ_ok circ s" and "length buf + 8 + circ_writesize circ \<le> 2 ^ 32"
    and "\<And>t b off. fst (mtd_peb_write cfg mtd t b (eraseblock circ) off) \<noteq> - EBADMSG"
    and "state_backend_bucket_circular_write cfg mtd circ s buf = (ret, circ', s')"
  shows "circ_ok circ' s'"
proof -
  define wl where "wl = circular_written_length circ (length buf)"
  define circ1 where "circ1 = (if max_size circ \<le> write_area circ + unat wl then circ\<lparr>write_area := 0\<rparr> else circ)"
  have g: "circ_geometry circ" "0 < circ_writesize circ" "inv s"
    using assms(1) by (auto simp: circ_ok_def circ_geometry_def)
  note rb = roundup_bounds [OF g(2), of "length buf + 8", folded unat_written_length [OF g(2) assms(2), folded wl_def]]
  have len: "length (circular_write_buf wl buf) = unat wl"
    using rb(1) by (intro length_circular_write_buf) simp
  obtain r s1 where p: "(if write_area circ1 = 0 then state_mtd_peb_erase cfg mtd circ1 s else (0, s)) = (r, s1)"
    by fastforce
  let ?c2 = "circ1\<lparr>write_area := write_area circ1 + unat wl\<rparr>"
  obtain r2 s2 where w: "state_mtd_peb_write cfg mtd ?c2 s1 (circular_write_buf wl buf) (write_area circ1) = (r2, s2)"
    by fastforce
  have eb: "eraseblock circ1 = eraseblock circ" by (simp add: circ1_def)
  have cases: "(circ', s') = (circ, s) \<or> (unat wl \<le> max_size circ \<and> r \<noteq> 0 \<and> (circ', s') = (circ1, s1))
      \<or> (unat wl \<le> max_size circ \<and> r = 0 \<and> (circ', s') = (?c2, s2))"
    using assms(4) p w unfolding state_backend_bucket_circular_write_def Let_def
    by (auto simp: wl_def [symmetric] circ1_def [symmetric] split: if_splits)
  then show ?thesis
  proof (elim disjE conjE)
    assume "r \<noteq> 0" and eq: "(circ', s') = (circ1, s1)"
    then have wa: "write_area circ1 = 0" and e: "mtd_peb_erase cfg mtd s (eraseblock circ) = (r, s1)"
      using p eb by (auto simp: state_mtd_peb_erase_def split: if_splits)
    have "inv s1" using mtd_peb_erase_ok(1) [OF g(3) e] by (rule peb_frame_inv)
    then show ?thesis using eq wa g(1) by (auto simp: circ_ok_def circ1_def circ_geometry_def)
  next
    assume small: "unat wl \<le> max_size circ" and r: "r = 0" and eq: "(circ', s') = (?c2, s2)"
    note prep = circ_prepare [OF assms(1) small circ1_def p [unfolded r]]
    have w': "mtd_peb_write cfg mtd s1 (circular_write_buf wl buf) (eraseblock circ) (write_area circ1) = (r2, s2)"
      using w assms(3) [of s1 "circular_write_buf wl buf" "write_area circ1"]
      by (auto simp: state_mtd_peb_write_def eb split: prod.splits if_splits)
    note f = mtd_peb_write_frame [OF prep(1) w']
    have "erased (drop (write_area circ1 + unat wl) (peb s2 (eraseblock circ)))"
      using same_outside_peb [OF f(2)] prep(2,3) erased_drop_mono [OF prep(2), of "write_area circ1 + unat wl"]
      by (simp add: len)
    then show ?thesis
      using eq prep(3,4) rb(3) g(1) peb_frame_inv [OF f(1)] by (auto simp: circ_ok_def circ1_def circ_geometry_def)
  qed (use assms(1) in simp)
qed

end

section \<open>Properties\<close>

text \<open>C5. A state copy that was written to a circular bucket successfully is found and read back
  at the next start: initialisation finds the place of the last copy among all the copies in the
  block, and reading returns the data, padded with zeros to the write size of the flash. This
  holds for every flash that behaves as its driver promises, also when the reads had correctable
  bit flips.\<close>

theorem circular_write_init_read:
  assumes "flash mtd cells good" and "flash.circ_ok mtd cells good circ s"
    and "length buf + 8 + circ_writesize circ \<le> 2 ^ 32"
    and "state_backend_bucket_circular_write cfg mtd circ s buf = (0, circ1, s1)"
    and "mtd_peb_read mtd s1 (eraseblock circ) 0 (max_size circ) = (r1, b1, s2)" and "r1 = 0 \<or> r1 = - EUCLEAN"
    and "circ0 = circ\<lparr>write_area := x, last_written_length := y\<rparr>"
    and "state_backend_bucket_circular_init cfg mtd circ0 s1 = (r2, circ2, s2')"
    and "mtd_peb_read mtd s2 (eraseblock circ) (write_area circ2 - unat (last_written_length circ2))
           (unat (last_written_length circ2)) = (r3, b3, s3)" and "r3 = 0 \<or> r3 = - EUCLEAN"
  shows "r2 = 0 \<and> state_backend_bucket_circular_read cfg mtd circ2 s2
    = (r3, buf @ replicate (roundup (length buf + 8) (circ_writesize circ) - 8 - length buf) 0, circ2, s3)"
proof -
  let ?wl = "circular_written_length circ (length buf)"
  note holds = flash.circular_write_holds [OF assms(1-4)]
  have c1: "circ1 = circ\<lparr>write_area := write_area circ1\<rparr>" using flash.circular_write_ok(2) [OF assms(1-4)] .
  then have f: "eraseblock circ1 = eraseblock circ" "circ_writesize circ1 = circ_writesize circ"
      "max_size circ1 = max_size circ"
    by (metis bucket_circular.select_convs(1-3) bucket_circular.surjective bucket_circular.update_convs(4))+
  have same: "eraseblock circ0 = eraseblock circ1" "circ_writesize circ0 = circ_writesize circ1"
      "max_size circ0 = max_size circ1" and rd: "mtd_peb_read mtd s1 (eraseblock circ0) 0 (max_size circ0) = (r1, b1, s2)"
    using f assms(5,7) by simp_all
  note init = flash.circular_init_finds [OF assms(1) holds same rd assms(6)]
  have c2: "r2 = 0" "circ2 = circ0\<lparr>write_area := write_area circ1, last_written_length := ?wl\<rparr>"
    using init(1) assms(8) by simp_all
  have "0 < circ_writesize circ"
    using assms(2) by (auto simp: flash.circ_ok_def [OF assms(1)] flash.circ_geometry_def [OF assms(1)])
  then have wl: "unat ?wl = roundup (length buf + 8) (circ_writesize circ)"
    using assms(3) by (rule unat_written_length)
  have "state_backend_bucket_circular_read cfg mtd circ2 s2 = (r3, buf @ replicate (unat ?wl - 8 - length buf) 0, circ2, s3)"
  proof (rule flash.circular_read_holds [OF assms(1)])
    show "flash.circ_holds mtd cells good circ2 s2 ?wl buf" using init(2) c2(2) by simp
    show "mtd_peb_read mtd s2 (eraseblock circ2) (write_area circ2 - unat ?wl) (unat ?wl) = (r3, b3, s3)"
      using assms(7,9) c2(2) by simp
  qed (use c2 assms(10) in simp_all)
  then show ?thesis using c2(1) wl by simp
qed

text \<open>A bucket in the only eraseblock of a 48 byte RAM flash.\<close>

definition demo_mtd :: "bytes mtd_info" where
  "demo_mtd = ram_mtd 48 48 1 []"

definition demo_circ :: "nat \<Rightarrow> u32 \<Rightarrow> bucket_circular" where
  "demo_circ area lwl = \<lparr>eraseblock = 0, circ_writesize = 8, max_size = 48, write_area = area,
     last_written_length = lwl, wrong_magic = False\<rparr>"

definition demo_copy :: "u8 \<Rightarrow> bytes" where
  "demo_copy b = circular_write_buf 16 [b]"

lemmas circ_eval = peb_eval demo_mtd_def demo_circ_def state_backend_bucket_circular_write_def
  state_backend_bucket_circular_read_def state_backend_bucket_circular_init_def
  state_mtd_peb_read_def state_mtd_peb_write_def state_mtd_peb_erase_def circular_written_length_def
  circular_write_buf_def circular_meta_bytes_def circular_magic_def roundup_def le32_def of_le32_def
  circular_scan.simps demo_copy_def replicate_numeral

lemma demo_write:
  "state_backend_bucket_circular_write demo_config demo_mtd (demo_circ 0 0) (replicate 48 0xff) [7]
     = (0, demo_circ 16 0, demo_copy 7 @ replicate 32 0xff)"
  by (simp add: circ_eval)

lemma demo_init:
  "state_backend_bucket_circular_init demo_config demo_mtd (demo_circ 0 0) (demo_copy 7 @ replicate 32 0xff)
     = (0, demo_circ 16 16, demo_copy 7 @ replicate 32 0xff)"
  by (simp add: circ_eval)

lemma demo_flash: "flash demo_mtd (\<lambda>mem. mem) (\<lambda>mem. length mem = mtd_size demo_mtd)"
  unfolding demo_mtd_def by (rule ram.flash_axioms)

lemma demo_circ_ok: "flash.circ_ok demo_mtd (\<lambda>mem. mem) (\<lambda>mem. length mem = mtd_size demo_mtd)
    (demo_circ 0 0) (replicate 48 0xff)"
  unfolding flash.circ_ok_def [OF demo_flash] flash.circ_geometry_def [OF demo_flash]
  by (simp add: demo_mtd_def ram_mtd_def demo_circ_def)

theorem circular_write_init_read_witness:
  "state_backend_bucket_circular_read demo_config demo_mtd (demo_circ 16 16) (demo_copy 7 @ replicate 32 0xff)
     = (0, [7] @ replicate (roundup (length [7 :: u8] + 8) (circ_writesize (demo_circ 0 0)) - 8 - length [7 :: u8]) 0,
        demo_circ 16 16, demo_copy 7 @ replicate 32 0xff)"
proof -
  let ?m = "demo_copy 7 @ replicate 32 0xff"
  have rd: "mtd_peb_read demo_mtd ?m (eraseblock (demo_circ 0 0)) 0 (max_size (demo_circ 0 0)) = (0, ?m, ?m)"
    by (simp add: circ_eval)
  have rd2: "mtd_peb_read demo_mtd ?m (eraseblock (demo_circ 0 0))
      (write_area (demo_circ 16 16) - unat (last_written_length (demo_circ 16 16)))
      (unat (last_written_length (demo_circ 16 16))) = (0, demo_copy 7, ?m)"
    by (simp add: circ_eval)
  have self: "demo_circ 0 0 = (demo_circ 0 0)\<lparr>write_area := 0, last_written_length := 0\<rparr>"
    by (simp add: demo_circ_def)
  show ?thesis
    using circular_write_init_read [OF demo_flash demo_circ_ok _ demo_write rd _ self demo_init rd2]
    by (simp add: demo_circ_def)
qed

text \<open>The bucket never writes to programmed cells: whatever a write returns, the block is
  erased behind the write area afterwards, so the next write finds erased cells.\<close>

theorem circular_write_invariant:
  assumes "flash mtd cells good" and "flash.circ_ok mtd cells good circ s"
    and "length buf + 8 + circ_writesize circ \<le> 2 ^ 32"
    and "\<And>t b off. fst (mtd_peb_write cfg mtd t b (eraseblock circ) off) \<noteq> - EBADMSG"
    and "state_backend_bucket_circular_write cfg mtd circ s buf = (ret, circ', s')"
  shows "flash.circ_ok mtd cells good circ' s'"
  using assms by (rule flash.circular_write_keeps)

lemma demo_no_badmsg: "fst (mtd_peb_write demo_config demo_mtd t b pnum off) \<noteq> - EBADMSG"
  by (simp add: mtd_peb_write_def mtd_write_def ram_write_def demo_mtd_def ram_mtd_def demo_config_def Let_def)

theorem circular_write_invariant_witness:
  "flash.circ_ok demo_mtd (\<lambda>mem. mem) (\<lambda>mem. length mem = mtd_size demo_mtd)
     (demo_circ 16 0) (demo_copy 7 @ replicate 32 0xff)"
  by (rule circular_write_invariant [OF demo_flash demo_circ_ok _ demo_no_badmsg demo_write])
    (simp add: demo_circ_def)


text \<open>An interrupted write hides every earlier copy but the first: when only the beginning of
  the third copy reached the flash, the next start finds no meta record, takes the block for
  the old format and reads the first copy instead of the second. The half written unit also
  counts as foreign content.\<close>

theorem circular_torn_write_rolls_back:
  "\<exists>circ mem data circ' mem'.
     state_backend_bucket_circular_init demo_config demo_mtd (demo_circ 0 0)
       (demo_copy 7 @ demo_copy 9 @ replicate 16 0xff)
       = (0, demo_circ 32 16, demo_copy 7 @ demo_copy 9 @ replicate 16 0xff)
     \<and> mem = snd (snd (ram_write (demo_copy 7 @ demo_copy 9 @ replicate 16 0xff) 32 (take 8 (demo_copy 11))))
     \<and> state_backend_bucket_circular_init demo_config demo_mtd (demo_circ 0 0) mem = (0, circ, mem)
     \<and> state_backend_bucket_circular_read demo_config demo_mtd circ mem = (0, data, circ', mem')
     \<and> hd data = 7 \<and> wrong_magic circ"
proof -
  let ?m = "demo_copy 7 @ demo_copy 9 @ take 8 (demo_copy 11) @ replicate 8 0xff"
  have 1: "state_backend_bucket_circular_init demo_config demo_mtd (demo_circ 0 0)
       (demo_copy 7 @ demo_copy 9 @ replicate 16 0xff)
       = (0, demo_circ 32 16, demo_copy 7 @ demo_copy 9 @ replicate 16 0xff)"
    by (simp add: circ_eval)
  have 2: "snd (snd (ram_write (demo_copy 7 @ demo_copy 9 @ replicate 16 0xff) 32 (take 8 (demo_copy 11)))) = ?m"
    by (simp add: circ_eval)
  have 3: "state_backend_bucket_circular_init demo_config demo_mtd (demo_circ 0 0) ?m
      = (0, (demo_circ 40 0)\<lparr>wrong_magic := True\<rparr>, ?m)"
    by (simp add: circ_eval)
  have 4: "state_backend_bucket_circular_read demo_config demo_mtd ((demo_circ 40 0)\<lparr>wrong_magic := True\<rparr>) ?m
      = (0, take 40 ?m, (demo_circ 0 0)\<lparr>wrong_magic := True\<rparr>, ?m)"
    by (simp add: circ_eval)
  have "hd (take 40 ?m) = 7" "wrong_magic ((demo_circ 40 0)\<lparr>wrong_magic := True\<rparr>)"
    by (simp_all add: circ_eval)
  with 1 2 3 4 show ?thesis by metis
qed

end
