(* ===== verification/Files.thy ===== *)
theory Files
  imports Mtd
begin

text \<open>
  Device files, from the calls the state backends make down to the driver: the loops of
  \<^verbatim>\<open>lib/libfile.c\<close>, the clamping of reads, writes and seeks in \<^verbatim>\<open>fs/fs.c\<close>, the device file
  system (\<^verbatim>\<open>fs/devfs.c\<close>, \<^verbatim>\<open>fs/devfs-core.c\<close>) and the character device of an MTD
  (\<^verbatim>\<open>drivers/mtd/core.c\<close>).

  A read returns the bytes stored into the buffer next to its return value. Byte counts are
  64 bit \<^verbatim>\<open>size_t\<close> values, written as natural numbers with the wrap-around explicit.
\<close>

section \<open>Character devices\<close>

record 's cdev_operations =
  cdev_read_fn :: "('s \<Rightarrow> nat \<Rightarrow> nat \<Rightarrow> int \<times> bytes \<times> 's) option"
  cdev_write_fn :: "('s \<Rightarrow> bytes \<Rightarrow> nat \<Rightarrow> int \<times> 's) option"
  cdev_flush_fn :: "('s \<Rightarrow> int \<times> 's) option"
  cdev_lseek_fn :: "('s \<Rightarrow> nat \<Rightarrow> int) option"
  cdev_truncate_fn :: "('s \<Rightarrow> nat \<Rightarrow> int \<times> 's) option"

record 's cdev =
  cdev_offset :: nat
  cdev_sz :: nat
  cdev_character :: bool
  cdev_partition_readonly :: bool
  cdev_ops :: "'s cdev_operations"

definition cdev_read :: "'s cdev \<Rightarrow> 's \<Rightarrow> nat \<Rightarrow> nat \<Rightarrow> int \<times> bytes \<times> 's" where
  "cdev_read cdev s cnt offset =
     (case cdev_read_fn (cdev_ops cdev) of
        None \<Rightarrow> (- ENOSYS, [], s) | Some rd \<Rightarrow> rd s cnt (cdev_offset cdev + offset))"

definition cdev_write :: "'s cdev \<Rightarrow> 's \<Rightarrow> bytes \<Rightarrow> nat \<Rightarrow> int \<times> 's" where
  "cdev_write cdev s buf offset =
     (case cdev_write_fn (cdev_ops cdev) of
        None \<Rightarrow> (- ENOSYS, s) | Some wr \<Rightarrow> wr s buf (cdev_offset cdev + offset))"

definition cdev_flush :: "'s cdev \<Rightarrow> 's \<Rightarrow> int \<times> 's" where
  "cdev_flush cdev s = (case cdev_flush_fn (cdev_ops cdev) of None \<Rightarrow> (0, s) | Some fl \<Rightarrow> fl s)"

definition cdev_lseek :: "'s cdev \<Rightarrow> 's \<Rightarrow> nat \<Rightarrow> int" where
  "cdev_lseek cdev s pos =
     (case cdev_lseek_fn (cdev_ops cdev) of
        None \<Rightarrow> 0
      | Some ls \<Rightarrow> let ret = ls s (pos + cdev_offset cdev) in if ret < 0 then ret else 0)"

definition cdev_truncate :: "'s cdev \<Rightarrow> 's \<Rightarrow> nat \<Rightarrow> int \<times> 's" where
  "cdev_truncate cdev s sz =
     (case cdev_truncate_fn (cdev_ops cdev) of None \<Rightarrow> (- EPERM, s) | Some tr \<Rightarrow> tr s sz)"

section \<open>The device file system\<close>

datatype open_mode = O_RDONLY | O_WRONLY | O_RDWR

record 's vfile =
  f_mode :: open_mode
  f_pos :: nat
  f_size :: nat
  f_stream :: bool
  f_cdev :: "'s cdev"

definition devfs_open :: "'s cdev \<Rightarrow> open_mode \<Rightarrow> 's vfile" where
  "devfs_open cdev mode =
     \<lparr>f_mode = mode, f_pos = 0,
      f_size = (if cdev_character cdev then 0 else cdev_sz cdev),
      f_stream = cdev_character cdev, f_cdev = cdev\<rparr>"

definition devfs_read :: "'s vfile \<Rightarrow> 's \<Rightarrow> nat \<Rightarrow> int \<times> bytes \<times> 's" where
  "devfs_read f s cnt = cdev_read (f_cdev f) s cnt (f_pos f)"

definition devfs_write :: "'s vfile \<Rightarrow> 's \<Rightarrow> bytes \<Rightarrow> int \<times> 's" where
  "devfs_write f s buf =
     (if cdev_partition_readonly (f_cdev f) then (- EPERM, s)
      else cdev_write (f_cdev f) s buf (f_pos f))"

section \<open>The virtual file system\<close>

text \<open>What is left of a request when it is cut at the end of the file. The difference of the
  source is unsigned: it wraps around when the position is behind the end.\<close>

definition clamp_count :: "'s vfile \<Rightarrow> nat" where
  "clamp_count f =
     (if f_pos f \<le> f_size f then f_size f - f_pos f else 2 ^ 64 - (f_pos f - f_size f))"

definition vfs_read :: "'s vfile \<Rightarrow> 's \<Rightarrow> nat \<Rightarrow> int \<times> bytes \<times> 's" where
  "vfs_read f s cnt =
     (if f_mode f = O_WRONLY then (- EBADF, [], s)
      else let cnt = (if \<not> f_stream f \<and> f_size f < f_pos f + cnt then clamp_count f else cnt)
      in if cnt = 0 then (0, [], s) else devfs_read f s cnt)"

definition vfs_write :: "'s vfile \<Rightarrow> 's \<Rightarrow> bytes \<Rightarrow> int \<times> 's vfile \<times> 's" where
  "vfs_write f s buf =
     (if f_mode f = O_RDONLY then (- EBADF, f, s)
      else if \<not> f_stream f \<and> f_size f < f_pos f + length buf then
        (case cdev_truncate (f_cdev f) s (f_pos f + length buf) of (ret, s) \<Rightarrow>
           if ret \<noteq> 0 then
             let ret = (if ret = - EPERM then - ENOSPC else ret)
             in if ret \<noteq> - ENOSPC then (ret, f, s)
                else let cnt = clamp_count f
                in if cnt = 0 then (ret, f, s)
                   else (case devfs_write f s (take cnt buf) of (ret, s) \<Rightarrow> (ret, f, s))
           else
             let f = f\<lparr>f_size := f_pos f + length buf\<rparr>
             in case devfs_write f s buf of (ret, s) \<Rightarrow> (ret, f, s))
      else (case devfs_write f s buf of (ret, s) \<Rightarrow> (ret, f, s)))"

definition fd_read :: "'s vfile \<Rightarrow> 's \<Rightarrow> nat \<Rightarrow> int \<times> bytes \<times> 's vfile \<times> 's" where
  "fd_read f s cnt =
     (case vfs_read f s cnt of (ret, buf, s) \<Rightarrow>
        (ret, buf, if 0 < ret then f\<lparr>f_pos := f_pos f + nat ret\<rparr> else f, s))"

definition pread :: "'s vfile \<Rightarrow> 's \<Rightarrow> nat \<Rightarrow> nat \<Rightarrow> int \<times> bytes \<times> 's" where
  "pread f s cnt offset = vfs_read (f\<lparr>f_pos := offset\<rparr>) s cnt"

definition fd_write :: "'s vfile \<Rightarrow> 's \<Rightarrow> bytes \<Rightarrow> int \<times> 's vfile \<times> 's" where
  "fd_write f s buf =
     (case vfs_write f s buf of (ret, f, s) \<Rightarrow>
        (ret, if 0 < ret then f\<lparr>f_pos := f_pos f + nat ret\<rparr> else f, s))"

definition pwrite :: "'s vfile \<Rightarrow> 's \<Rightarrow> bytes \<Rightarrow> nat \<Rightarrow> int \<times> 's vfile \<times> 's" where
  "pwrite f s buf offset =
     (case vfs_write (f\<lparr>f_pos := offset\<rparr>) s buf of (ret, f', s) \<Rightarrow> (ret, f'\<lparr>f_pos := f_pos f\<rparr>, s))"

definition fd_flush :: "'s vfile \<Rightarrow> 's \<Rightarrow> int \<times> 's" where
  "fd_flush f s = cdev_flush (f_cdev f) s"

text \<open>\<^verbatim>\<open>lseek\<close> with \<^verbatim>\<open>SEEK_SET\<close>; the error that is left in \<^verbatim>\<open>errno\<close> is returned directly.\<close>

definition lseek_set :: "'s vfile \<Rightarrow> 's \<Rightarrow> nat \<Rightarrow> int + 's vfile" where
  "lseek_set f s pos =
     (if \<not> f_stream f \<and> f_size f < pos then Inl (- EINVAL)
      else let ret = cdev_lseek (f_cdev f) s pos
      in if ret < 0 then Inl ret else Inr (f\<lparr>f_pos := pos\<rparr>))"

section \<open>Complete transfers\<close>

text \<open>A driver that claims to have transferred more than it was asked for has overrun the
  buffer of the caller; the loops stop there.\<close>

function read_full :: "'s vfile \<Rightarrow> 's \<Rightarrow> nat \<Rightarrow> int \<times> bytes \<times> 's vfile \<times> 's" where
  "read_full f s sz =
     (if sz = 0 then (0, [], f, s)
      else case fd_read f s sz of (now, buf, f, s) \<Rightarrow>
        if now = 0 then (0, [], f, s)
        else if now < 0 then (now, [], f, s)
        else if int sz < now then (now, buf, f, s)
        else case read_full f s (sz - nat now) of (ret, rest, f, s) \<Rightarrow>
          (if ret < 0 then ret else now + ret, take (nat now) buf @ rest, f, s))"
  by pat_completeness auto
termination by (relation "measure (\<lambda>(f, s, sz). sz)") auto

function write_full :: "'s vfile \<Rightarrow> 's \<Rightarrow> bytes \<Rightarrow> int \<times> 's vfile \<times> 's" where
  "write_full f s buf =
     (if buf = [] then (0, f, s)
      else case fd_write f s buf of (now, f, s) \<Rightarrow>
        if now = 0 then (- ENOSPC, f, s)
        else if now < 0 then (now, f, s)
        else if int (length buf) < now then (now, f, s)
        else case write_full f s (drop (nat now) buf) of (ret, f, s) \<Rightarrow>
          (if ret < 0 then ret else now + ret, f, s))"
  by pat_completeness auto
termination by (relation "measure (\<lambda>(f, s, buf). length buf)") auto

declare read_full.simps [simp del] write_full.simps [simp del]

section \<open>The character device of an MTD\<close>

definition mtd_op_read :: "'s mtd_info \<Rightarrow> 's \<Rightarrow> nat \<Rightarrow> nat \<Rightarrow> int \<times> bytes \<times> 's" where
  "mtd_op_read mtd s cnt offset =
     (case mtd_read mtd s offset cnt of (ret, retlen, buf, s) \<Rightarrow>
        if ret < 0 \<and> ret \<noteq> - EUCLEAN then (ret, buf, s) else (int retlen, buf, s))"

definition mtd_op_write :: "'s mtd_info \<Rightarrow> 's \<Rightarrow> bytes \<Rightarrow> nat \<Rightarrow> int \<times> 's" where
  "mtd_op_write mtd s buf offset =
     (case mtd_write mtd s offset buf of (ret, retlen, s) \<Rightarrow>
        (if ret \<noteq> 0 then ret else int (length buf), s))"

definition mtd_cdev :: "'s mtd_info \<Rightarrow> 's cdev" where
  "mtd_cdev mtd =
     \<lparr>cdev_offset = 0, cdev_sz = mtd_size mtd, cdev_character = False, cdev_partition_readonly = False,
      cdev_ops = \<lparr>cdev_read_fn = Some (mtd_op_read mtd), cdev_write_fn = Some (mtd_op_write mtd),
        cdev_flush_fn = None, cdev_lseek_fn = None, cdev_truncate_fn = None\<rparr>\<rparr>"

section \<open>What a block or character device promises\<close>

text \<open>
  Reads inside the device return what it holds, possibly less than asked for but never nothing;
  writes replace what was there, and touch nothing outside the addressed range even when they
  fail. Corrected bit flips (\<open>- EUCLEAN\<close>) are not reported through a device file.
\<close>

locale disk =
  fixes cdev :: "'s cdev" and content :: "'s \<Rightarrow> bytes" and inv :: "'s \<Rightarrow> bool"
  assumes sized: "\<not> cdev_character cdev"
    and length_content: "inv s \<Longrightarrow> length (content s) = cdev_sz cdev"
    and read_law: "inv s \<Longrightarrow> off + cnt \<le> cdev_sz cdev \<Longrightarrow> 0 < cnt \<Longrightarrow>
      cdev_read cdev s cnt off = (ret, buf, s') \<Longrightarrow>
      inv s' \<and> content s' = content s \<and> ret \<noteq> 0 \<and> ret \<le> int cnt \<and> ret \<noteq> - EUCLEAN
      \<and> (0 < ret \<longrightarrow> take (nat ret) buf = subbuf off (nat ret) (content s))"
    and write_law: "inv s \<Longrightarrow> off + length buf \<le> cdev_sz cdev \<Longrightarrow> buf \<noteq> [] \<Longrightarrow>
      cdev_write cdev s buf off = (ret, s') \<Longrightarrow>
      inv s' \<and> ret \<le> int (length buf) \<and> same_outside off (length buf) (content s') (content s)
      \<and> (0 < ret \<longrightarrow> subbuf off (nat ret) (content s') = take (nat ret) buf)"
    and flush_law: "inv s \<Longrightarrow> cdev_flush cdev s = (ret, s') \<Longrightarrow> inv s' \<and> content s' = content s"
    and lseek_law: "cdev_lseek cdev s pos \<noteq> - EUCLEAN"
begin

text \<open>An open file of the device.\<close>

definition is_open :: "'s vfile \<Rightarrow> bool" where
  "is_open f \<longleftrightarrow> f_cdev f = cdev \<and> f_size f = cdev_sz cdev \<and> \<not> f_stream f"

lemma is_open_devfs_open: "is_open (devfs_open cdev mode)"
  using sized by (simp add: is_open_def devfs_open_def)

lemma is_open_pos [simp]: "is_open (f\<lparr>f_pos := p\<rparr>) = is_open f"
  by (simp add: is_open_def)

lemma lseek_ok: "is_open f \<Longrightarrow> lseek_set f s pos = Inr f' \<Longrightarrow> f' = f\<lparr>f_pos := pos\<rparr> \<and> pos \<le> cdev_sz cdev"
  by (auto simp: lseek_set_def is_open_def Let_def split: if_splits)

lemma fd_read_ok:
  assumes "is_open f" and "f_mode f \<noteq> O_WRONLY" and "inv s" and "0 < sz" and "f_pos f + sz \<le> cdev_sz cdev"
    and "fd_read f s sz = (ret, buf, f', s')"
  shows "inv s'" and "content s' = content s" and "ret \<noteq> 0" and "ret \<le> int sz"
    and "f' = f\<lparr>f_pos := f_pos f + nat ret\<rparr>"
    and "0 < ret \<Longrightarrow> take (nat ret) buf = subbuf (f_pos f) (nat ret) (content s)" and "ret \<noteq> - EUCLEAN"
proof -
  from assms(1,2,4,5) have "vfs_read f s sz = cdev_read cdev s sz (f_pos f)"
    by (simp add: vfs_read_def devfs_read_def is_open_def)
  with assms(6) obtain r: "cdev_read cdev s sz (f_pos f) = (ret, buf, s')"
    and f': "f' = (if 0 < ret then f\<lparr>f_pos := f_pos f + nat ret\<rparr> else f)"
    by (auto simp: fd_read_def split: prod.splits)
  from read_law [OF assms(3,5,4) r] show "inv s'" "content s' = content s" "ret \<noteq> 0" "ret \<le> int sz" "ret \<noteq> - EUCLEAN"
    "0 < ret \<Longrightarrow> take (nat ret) buf = subbuf (f_pos f) (nat ret) (content s)" by auto
  show "f' = f\<lparr>f_pos := f_pos f + nat ret\<rparr>" by (simp add: f')
qed

lemma subbuf_add: "subbuf off (m + n) xs = subbuf off m xs @ subbuf (off + m) n xs"
  by (simp add: subbuf_def take_add add.commute)

lemma read_full_ok:
  assumes "is_open f" and "f_mode f \<noteq> O_WRONLY" and "inv s" and "f_pos f + sz \<le> cdev_sz cdev"
    and "read_full f s sz = (ret, buf, f', s')"
  shows "inv s' \<and> content s' = content s \<and> (\<exists>p. f' = f\<lparr>f_pos := p\<rparr>) \<and> (0 \<le> ret \<longrightarrow> ret = int sz
      \<and> buf = subbuf (f_pos f) sz (content s) \<and> f' = f\<lparr>f_pos := f_pos f + sz\<rparr>)"
  using assms
proof (induction sz arbitrary: f s ret buf f' s' rule: less_induct)
  case (less sz)
  show ?case
  proof (cases "sz = 0")
    case True
    then show ?thesis using less.prems by (auto simp: read_full.simps intro: exI [of _ "f_pos f"])
  next
    case False
    obtain now b1 f1 s1 where r: "fd_read f s sz = (now, b1, f1, s1)" by (metis prod_cases4)
    note ok = fd_read_ok [OF less.prems(1,2,3) _ less.prems(4) r]
    obtain r2 b2 f2 s2 where r2: "read_full f1 s1 (sz - nat now) = (r2, b2, f2, s2)" by (metis prod_cases4)
    have eq: "read_full f s sz = (if now < 0 then (now, [], f1, s1)
        else (if r2 < 0 then r2 else now + r2, take (nat now) b1 @ b2, f2, s2))"
      using False ok(3,4) r r2 by (simp add: read_full.simps [of f s sz])
    show ?thesis
    proof (cases "now < 0")
      case True
      then show ?thesis using eq ok(1,2,5) less.prems(5) False by (auto intro: exI [of _ "f_pos f"])
    next
      case ge: False
      have "inv s2 \<and> content s2 = content s1 \<and> (\<exists>p. f2 = f1\<lparr>f_pos := p\<rparr>) \<and> (0 \<le> r2 \<longrightarrow> r2 = int (sz - nat now)
          \<and> b2 = subbuf (f_pos f1) (sz - nat now) (content s1) \<and> f2 = f1\<lparr>f_pos := f_pos f1 + (sz - nat now)\<rparr>)"
        using less.prems(1,2,4) ok ge False r2 by (intro less.IH) auto
      moreover have "subbuf (f_pos f) sz (content s)
          = subbuf (f_pos f) (nat now) (content s) @ subbuf (f_pos f + nat now) (sz - nat now) (content s)"
        using subbuf_add [of "f_pos f" "nat now" "sz - nat now" "content s"] ok(4) False by simp
      ultimately show ?thesis
        using less.prems(5) eq ge ok False by auto
    qed
  qed
qed

lemma read_full_frame:
  assumes "is_open f" and "f_mode f \<noteq> O_WRONLY" and "inv s" and "f_pos f \<le> cdev_sz cdev"
    and "read_full f s sz = (ret, buf, f', s')"
  shows "inv s' \<and> content s' = content s \<and> ret \<noteq> - EUCLEAN \<and> (\<exists>p \<le> cdev_sz cdev. f' = f\<lparr>f_pos := p\<rparr>)"
  using assms
proof (induction sz arbitrary: f s ret buf f' s' rule: less_induct)
  case (less sz)
  obtain now b1 f1 s1 where r: "fd_read f s sz = (now, b1, f1, s1)" by (metis prod_cases4)
  obtain r2 b2 f2 s2 where r2: "read_full f1 s1 (sz - nat now) = (r2, b2, f2, s2)" by (metis prod_cases4)
  let ?n = "min sz (cdev_sz cdev - f_pos f)"
  have fd: "fd_read f s sz = (if ?n = 0 then (0, [], f, s) else fd_read f s ?n)"
    using less.prems(1,2,4)
    by (cases "f_pos f + sz \<le> cdev_sz cdev"; cases "f_pos f = cdev_sz cdev")
      (auto simp: fd_read_def vfs_read_def clamp_count_def is_open_def Let_def min_absorb1 min_absorb2)
  have ok: "inv s1 \<and> content s1 = content s \<and> now \<noteq> - EUCLEAN \<and> (\<exists>p \<le> cdev_sz cdev. f1 = f\<lparr>f_pos := p\<rparr>)"
  proof (cases "?n = 0")
    case True
    then show ?thesis using fd r less.prems(3,4) by (auto intro: exI [of _ "f_pos f"])
  next
    case False
    then have rn: "fd_read f s ?n = (now, b1, f1, s1)" using fd r by metis
    have "f_pos f + ?n \<le> cdev_sz cdev" using less.prems(4) by simp
    note fr = fd_read_ok [OF less.prems(1-3) _ this rn]
    then show ?thesis using False less.prems(4) by (intro conjI exI [of _ "f_pos f + nat now"]) auto
  qed
  show ?case
  proof (cases "sz = 0 \<or> now \<le> 0 \<or> int sz < now")
    case True
    then show ?thesis
      using less.prems(3-5) r ok
      by (auto simp: read_full.simps [of f s sz] intro: exI [of _ "f_pos f"] split: if_splits)
  next
    case False
    then have "(f', s') = (f2, s2) \<and> ret = (if r2 < 0 then r2 else now + r2)" using less.prems(5) r r2 by (simp add: read_full.simps [of f s sz])
    moreover have "inv s2 \<and> content s2 = content s1 \<and> r2 \<noteq> - EUCLEAN \<and> (\<exists>p \<le> cdev_sz cdev. f2 = f1\<lparr>f_pos := p\<rparr>)"
      using less.prems(1,2) ok False r2 by (intro less.IH [of "sz - nat now"]) auto
    ultimately show ?thesis using ok False by auto
  qed
qed

lemma fd_write_ok:
  assumes "is_open f" and "f_mode f \<noteq> O_RDONLY" and "inv s" and "buf \<noteq> []"
    and "f_pos f + length buf \<le> cdev_sz cdev" and "fd_write f s buf = (ret, f', s')"
  shows "inv s'" and "ret \<le> int (length buf)" and "f' = f\<lparr>f_pos := f_pos f + nat ret\<rparr>"
    and "same_outside (f_pos f) (length buf) (content s') (content s)"
    and "0 < ret \<Longrightarrow> subbuf (f_pos f) (nat ret) (content s') = take (nat ret) buf"
proof -
  have io: "f_cdev f = cdev" "f_size f = cdev_sz cdev" using assms(1) by (simp_all add: is_open_def)
  then have "vfs_write f s buf = (case devfs_write f s buf of (ret, s) \<Rightarrow> (ret, f, s))"
    using assms(2,5) by (simp add: vfs_write_def)
  with assms(6) have d: "devfs_write f s buf = (ret, s')"
    and f': "f' = (if 0 < ret then f\<lparr>f_pos := f_pos f + nat ret\<rparr> else f)"
    by (auto simp: fd_write_def split: prod.splits)
  have "(ret, s') = (- EPERM, s) \<or> cdev_write cdev s buf (f_pos f) = (ret, s')"
    using d io by (auto simp: devfs_write_def split: if_splits)
  with write_law [OF assms(3,5,4)] assms(3) show "inv s'" "ret \<le> int (length buf)"
    "same_outside (f_pos f) (length buf) (content s') (content s)"
    "0 < ret \<Longrightarrow> subbuf (f_pos f) (nat ret) (content s') = take (nat ret) buf"
    by (auto simp: same_outside_def)
  show "f' = f\<lparr>f_pos := f_pos f + nat ret\<rparr>" by (simp add: f')
qed

lemma write_full_ok:
  assumes "is_open f" and "f_mode f \<noteq> O_RDONLY" and "inv s" and "f_pos f + length buf \<le> cdev_sz cdev"
    and "write_full f s buf = (ret, f', s')"
  shows "inv s' \<and> same_outside (f_pos f) (length buf) (content s') (content s)
    \<and> (\<exists>p. f' = f\<lparr>f_pos := p\<rparr>) \<and> (0 \<le> ret \<longrightarrow> subbuf (f_pos f) (length buf) (content s') = buf
        \<and> f' = f\<lparr>f_pos := f_pos f + length buf\<rparr>)"
  using assms
proof (induction "length buf" arbitrary: f s buf ret f' s' rule: less_induct)
  case less
  show ?case
  proof (cases "buf = []")
    case True
    then show ?thesis
      using less.prems by (auto simp: write_full.simps same_outside_def intro: exI [of _ "f_pos f"])
  next
    case False
    obtain now f1 s1 where w: "fd_write f s buf = (now, f1, s1)" by (metis prod_cases3)
    note ok = fd_write_ok [OF less.prems(1,2,3) False less.prems(4) w]
    obtain r2 f2 s2 where r2: "write_full f1 s1 (drop (nat now) buf) = (r2, f2, s2)" by (metis prod_cases3)
    have eq: "write_full f s buf = (if now = 0 then (- ENOSPC, f1, s1) else if now < 0 then (now, f1, s1)
        else (if r2 < 0 then r2 else now + r2, f2, s2))"
      using False ok(2) w r2 by (simp add: write_full.simps [of f s buf])
    show ?thesis
    proof (cases "now \<le> 0")
      case True
      then show ?thesis using eq ok(1,3,4) less.prems(5) by (auto split: if_splits intro: exI [of _ "f_pos f"])
    next
      case pos: False
      define n where "n = nat now"
      have n: "0 < n" "n \<le> length buf" "nat now = n" using pos ok(2) by (auto simp: n_def)
      have ih: "inv s2 \<and> same_outside (f_pos f + n) (length buf - n) (content s2) (content s1)
          \<and> (\<exists>p. f2 = f\<lparr>f_pos := p\<rparr>) \<and> (0 \<le> r2 \<longrightarrow> subbuf (f_pos f + n) (length buf - n) (content s2) = drop n buf
              \<and> f2 = f\<lparr>f_pos := f_pos f + n + (length buf - n)\<rparr>)"
        using less.hyps [of "drop n buf" f1 s1 r2 f2 s2] less.prems(1,2,4) ok(1,3) n r2 by simp
      have "same_outside (f_pos f) (length buf) (content s2) (content s1)"
        using ih n by (auto intro: same_outside_mono)
      then have out: "same_outside (f_pos f) (length buf) (content s2) (content s)"
        using ok(4) by (simp add: same_outside_def)
      have "subbuf (f_pos f) n (content s2) = take n buf"
        using ih ok(5) pos n(3) by (auto dest!: same_outside_subbuf [of _ _ _ _ "f_pos f" n])
      then have "0 \<le> r2 \<Longrightarrow> subbuf (f_pos f) (n + (length buf - n)) (content s2) = buf"
        unfolding subbuf_add using ih by simp
      then show ?thesis
        using less.prems(5) eq pos out ih n by (auto split: if_splits)
    qed
  qed
qed

end

section \<open>The RAM device\<close>

interpretation mtdram_disk: disk "mtd_cdev (mtdram_probe sz)" "\<lambda>mem. mem" "\<lambda>mem. length mem = sz" for sz
proof
  fix s s' :: bytes and off ret and buf :: bytes
  assume *: "length s = sz" "off + length buf \<le> cdev_sz (mtd_cdev (mtdram_probe sz))" "buf \<noteq> []"
    and "cdev_write (mtd_cdev (mtdram_probe sz)) s buf off = (ret, s')"
  moreover have "0 < length buf" using *(3) by simp
  ultimately have "ram_write s off buf = (0, length buf, s')" "ret = int (length buf)"
    by (auto simp: cdev_write_def mtd_cdev_def mtd_op_write_def mtd_write_def mtdram_probe_def ram_mtd_def
        ram_write_def split: if_splits)
  with ram_write_outside [of off buf s 0 "length buf" s'] *
  show "length s' = sz \<and> ret \<le> int (length buf) \<and> same_outside off (length buf) s' s
      \<and> (0 < ret \<longrightarrow> subbuf off (nat ret) s' = take (nat ret) buf)"
    by (auto simp: mtd_cdev_def mtdram_probe_def ram_mtd_def same_outside_def)
qed (auto simp: mtd_cdev_def mtdram_probe_def ram_mtd_def cdev_read_def mtd_op_read_def mtd_read_def
    mtd_read_oob_def ram_read_def cdev_flush_def cdev_lseek_def split: if_splits)

section \<open>Properties\<close>

text \<open>C15. What is written completely to a device file is read back completely from the same
  place, and nothing outside that place changes, however the driver splits the transfers.\<close>

theorem write_full_read_full:
  assumes "disk cdev content good" and "good s" and "f = (devfs_open cdev O_RDWR)\<lparr>f_pos := pos\<rparr>"
    and "pos + length buf \<le> cdev_sz cdev" and "write_full f s buf = (ret1, f1, s1)" and "0 \<le> ret1"
    and "lseek_set f1 s1 pos = Inr f2" and "read_full f2 s1 (length buf) = (ret2, data, f3, s3)" and "0 \<le> ret2"
  shows "data = buf \<and> same_outside pos (length buf) (content s3) (content s)"
proof -
  have "disk.is_open cdev f"
    using assms(3) disk.is_open_devfs_open [OF assms(1), of O_RDWR] disk.is_open_pos [OF assms(1)] by simp
  moreover have "f_mode f = O_RDWR" "f_pos f = pos" using assms(3) by (simp_all add: devfs_open_def)
  ultimately have f: "disk.is_open cdev f" "f_mode f = O_RDWR" "f_pos f = pos" .
  have w: "good s1 \<and> same_outside pos (length buf) (content s1) (content s)
      \<and> subbuf pos (length buf) (content s1) = buf \<and> f1 = f\<lparr>f_pos := pos + length buf\<rparr>"
    using disk.write_full_ok [OF assms(1) f(1) _ assms(2) _ assms(5)] f(2,3) assms(4,6) by simp
  then have f2: "f2 = f\<lparr>f_pos := pos\<rparr>"
    using disk.lseek_ok [OF assms(1) _ assms(7)] f(1) disk.is_open_pos [OF assms(1)] by simp
  have "disk.is_open cdev f2" "f_mode f2 = O_RDWR" using f f2 disk.is_open_pos [OF assms(1)] by simp_all
  then show ?thesis
    using disk.read_full_ok [OF assms(1) _ _ _ _ assms(8)] w f2 assms(4,9) by simp
qed

lemmas file_eval = fd_read_def fd_write_def vfs_read_def vfs_write_def devfs_read_def devfs_write_def
  devfs_open_def cdev_read_def cdev_write_def cdev_flush_def cdev_lseek_def lseek_set_def fd_flush_def
  mtd_cdev_def mtd_op_read_def mtd_op_write_def mtdram_probe_def ram_mtd_def mtd_read_def mtd_read_oob_def
  mtd_write_def ram_read_def ram_write_def subbuf_def read_full.simps write_full.simps Let_def

theorem write_full_read_full_witness:
  "\<exists>f1 s1 f2 data f3 s3.
     write_full ((devfs_open (mtd_cdev (mtdram_probe 8)) O_RDWR)\<lparr>f_pos := 2\<rparr>) [1, 2, 3, 4, 5, 6, 7, 8] [9, 10] = (2, f1, s1)
     \<and> lseek_set f1 s1 2 = Inr f2 \<and> read_full f2 s1 (length [9, 10 :: u8]) = (2, data, f3, s3) \<and> data = [9, 10]"
proof -
  let ?f = "\<lambda>p. (devfs_open (mtd_cdev (mtdram_probe 8)) O_RDWR)\<lparr>f_pos := p\<rparr>"
  let ?m = "[1, 2, 9, 10, 5, 6, 7, 8] :: bytes"
  have w: "write_full (?f 2) [1, 2, 3, 4, 5, 6, 7, 8] [9, 10] = (2, ?f 4, ?m)"
    and l: "lseek_set (?f 4) ?m 2 = Inr (?f 2)"
    and r: "read_full (?f 2) ?m (length [9, 10 :: u8]) = (2, [9, 10], ?f 4, ?m)"
    by (simp_all add: file_eval)
  have "[9, 10] = [9, 10 :: u8] \<and> same_outside 2 (length [9, 10 :: u8]) ?m [1, 2, 3, 4, 5, 6, 7, 8]"
    by (rule write_full_read_full [OF mtdram_disk.disk_axioms _ refl _ w _ l r])
      (simp_all add: mtd_cdev_def mtdram_probe_def ram_mtd_def)
  with w l r show ?thesis by blast
qed

text \<open>A read at the file position never asks the driver for more than is left in a sized
  file, nor for more than the caller asked for.\<close>

theorem fd_read_clamped:
  assumes "\<not> f_stream f" and "f_pos f \<le> f_size f" and "f_mode f \<noteq> O_WRONLY"
  shows "\<exists>n. n \<le> cnt \<and> f_pos f + n \<le> f_size f \<and>
    vfs_read f s cnt = (if n = 0 then (0, [], s) else cdev_read (f_cdev f) s n (f_pos f))"
  using assms
  by (intro exI [of _ "min cnt (f_size f - f_pos f)"])
    (auto simp: vfs_read_def devfs_read_def clamp_count_def Let_def min_def)

theorem fd_read_clamped_witness:
  "\<exists>n. n \<le> 5 \<and> f_pos ((devfs_open (mtd_cdev (mtdram_probe 8)) O_RDWR)\<lparr>f_pos := 6\<rparr>) + n
        \<le> f_size ((devfs_open (mtd_cdev (mtdram_probe 8)) O_RDWR)\<lparr>f_pos := 6\<rparr>) \<and>
    vfs_read ((devfs_open (mtd_cdev (mtdram_probe 8)) O_RDWR)\<lparr>f_pos := 6\<rparr>) [1, 2, 3, 4, 5, 6, 7, 8] 5
      = (if n = 0 then (0, [], [1, 2, 3, 4, 5, 6, 7, 8])
         else cdev_read (f_cdev ((devfs_open (mtd_cdev (mtdram_probe 8)) O_RDWR)\<lparr>f_pos := 6\<rparr>))
           [1, 2, 3, 4, 5, 6, 7, 8] n (f_pos ((devfs_open (mtd_cdev (mtdram_probe 8)) O_RDWR)\<lparr>f_pos := 6\<rparr>)))"
  by (rule fd_read_clamped) (simp_all add: devfs_open_def mtd_cdev_def mtdram_probe_def ram_mtd_def)

text \<open>A positioned read has no such bound: an offset behind the end of the file passes to the
  driver a byte count that has wrapped around, whatever the size of the caller's buffer.\<close>

theorem pread_behind_end_wraps:
  assumes "\<not> f_stream f" and "f_mode f \<noteq> O_WRONLY" and "f_size f < offset" and "offset - f_size f < 2 ^ 64"
  shows "pread f s cnt offset = cdev_read (f_cdev f) s (2 ^ 64 - (offset - f_size f)) offset"
  using assms by (auto simp: pread_def vfs_read_def devfs_read_def clamp_count_def Let_def)

theorem pread_behind_end_wraps_witness:
  "pread (devfs_open (mtd_cdev (mtdram_probe 8)) O_RDONLY) (replicate 8 0) 1 9
     = cdev_read (f_cdev (devfs_open (mtd_cdev (mtdram_probe 8)) O_RDONLY)) (replicate 8 0)
         (2 ^ 64 - (9 - f_size (devfs_open (mtd_cdev (mtdram_probe 8)) O_RDONLY))) 9"
  by (rule pread_behind_end_wraps) (simp_all add: devfs_open_def mtd_cdev_def mtdram_probe_def ram_mtd_def)

end
