(* ===== verification/Bucket_Direct.thy ===== *)
theory Bucket_Direct
  imports Files
begin

text \<open>
  The direct storage bucket (\<^verbatim>\<open>common/state/backend_bucket_direct.c\<close>): a stretch of a
  device file that can be rewritten in place, with a meta record in front of the data where
  there is room for it.

  A short read at the end of the device leaves the rest of the target uninitialised; what is
  found there is the parameter \<open>uninit\<close>.
\<close>

section \<open>The bucket\<close>

record 's bucket_direct =
  direct_offset :: nat
  direct_max_size :: nat
  direct_fd :: "'s vfile"
  direct_wrong_magic :: bool

definition direct_magic :: u32 where "direct_magic = 0x2354fdf3"

definition direct_meta_bytes :: "u32 \<Rightarrow> bytes" where
  "direct_meta_bytes written_length = le32 direct_magic @ le32 written_length"

definition fill :: "(nat \<Rightarrow> u8) \<Rightarrow> nat \<Rightarrow> bytes \<Rightarrow> bytes" where
  "fill uninit len buf = buf @ map uninit [length buf..<len]"

section \<open>Operations\<close>

definition direct_read_data ::
  "(nat \<Rightarrow> u8) \<Rightarrow> 's bucket_direct \<Rightarrow> 's vfile \<Rightarrow> 's \<Rightarrow> nat \<Rightarrow> int \<times> bytes \<times> 's bucket_direct \<times> 's" where
  "direct_read_data uninit direct fd s read_len =
     (if read_len = 0 then (- EINVAL, [], direct\<lparr>direct_fd := fd\<rparr>, s)
      else case read_full fd s read_len of (ret, buf, fd, s) \<Rightarrow>
        if ret < 0 then (ret, [], direct\<lparr>direct_fd := fd\<rparr>, s)
        else (0, fill uninit read_len buf, direct\<lparr>direct_fd := fd\<rparr>, s))"

definition state_backend_bucket_direct_read ::
  "config \<Rightarrow> (nat \<Rightarrow> u8) \<Rightarrow> 's bucket_direct \<Rightarrow> 's \<Rightarrow> int \<times> bytes \<times> 's bucket_direct \<times> 's" where
  "state_backend_bucket_direct_read cfg uninit direct s =
     (case lseek_set (direct_fd direct) s (direct_offset direct) of
        Inl err \<Rightarrow> (err, [], direct, s)
      | Inr fd \<Rightarrow>
          (case read_full fd s 8 of (ret, mbuf, fd, s) \<Rightarrow>
             let direct = direct\<lparr>direct_fd := fd\<rparr> in
             if ret < 0 then (ret, [], direct, s)
             else
               let meta = fill uninit 8 mbuf; magic = of_le32 (subbuf 0 4 meta);
                   written_length = of_le32 (subbuf 4 4 meta)
               in if magic = direct_magic then
                    if direct_max_size direct < unat written_length then (- EINVAL, [], direct, s)
                    else direct_read_data uninit direct fd s (unat written_length)
                  else
                    let direct = (if magic \<noteq> 0xffffffff \<and> magic \<noteq> 0
                                  then direct\<lparr>direct_wrong_magic := True\<rparr> else direct)
                    in if \<not> cfg_state_backward_compatible cfg
                       then (if magic \<noteq> 0 then - EINVAL else - ENOMEDIUM, [], direct, s)
                       else case lseek_set fd s (direct_offset direct) of
                           Inl err \<Rightarrow> (err, [], direct, s)
                         | Inr fd \<Rightarrow> direct_read_data uninit direct fd s (direct_max_size direct mod 2 ^ 32)))"

text \<open>The head room is computed in unsigned arithmetic.\<close>

definition direct_head_room :: "'s bucket_direct \<Rightarrow> nat" where
  "direct_head_room direct =
     (if 8 \<le> direct_max_size direct then direct_max_size direct - 8
      else 2 ^ 64 - (8 - direct_max_size direct))"

definition direct_write_data :: "'s bucket_direct \<Rightarrow> 's \<Rightarrow> bytes \<Rightarrow> int \<times> 's bucket_direct \<times> 's" where
  "direct_write_data direct s buf =
     (case write_full (direct_fd direct) s buf of (ret, fd, s) \<Rightarrow>
        let direct = direct\<lparr>direct_fd := fd\<rparr> in
        if ret < 0 then (ret, direct, s)
        else case fd_flush fd s of (ret, s) \<Rightarrow>
          if ret < 0 then (ret, direct, s) else (0, direct, s))"

definition state_backend_bucket_direct_write ::
  "config \<Rightarrow> 's bucket_direct \<Rightarrow> 's \<Rightarrow> bytes \<Rightarrow> int \<times> 's bucket_direct \<times> 's" where
  "state_backend_bucket_direct_write cfg direct s buf =
     (case lseek_set (direct_fd direct) s (direct_offset direct) of
        Inl err \<Rightarrow> (err, direct, s)
      | Inr fd \<Rightarrow>
          if length buf \<le> direct_head_room direct then
            (case write_full fd s (direct_meta_bytes (of_nat (length buf))) of (ret, fd, s) \<Rightarrow>
               let direct = direct\<lparr>direct_fd := fd\<rparr> in
               if ret < 0 then (ret, direct, s) else direct_write_data direct s buf)
          else if \<not> cfg_state_backward_compatible cfg then (- EINVAL, direct\<lparr>direct_fd := fd\<rparr>, s)
          else direct_write_data (direct\<lparr>direct_fd := fd\<rparr>) s buf)"

definition state_backend_bucket_direct_create ::
  "'s cdev \<Rightarrow> nat \<Rightarrow> nat \<Rightarrow> bool \<Rightarrow> 's bucket_direct" where
  "state_backend_bucket_direct_create cdev offset max_sz readonly =
     \<lparr>direct_offset = offset, direct_max_size = max_sz,
      direct_fd = devfs_open cdev (if readonly then O_RDONLY else O_RDWR), direct_wrong_magic = False\<rparr>"

lemma length_direct_meta_bytes [simp]: "length (direct_meta_bytes wl) = 8"
  by (simp add: direct_meta_bytes_def)

lemma fill_whole [simp]: "length buf = len \<Longrightarrow> fill uninit len buf = buf"
  by (simp add: fill_def)

section \<open>The bucket on a device\<close>

context disk
begin

text \<open>A bucket with an open file whose stretch lies in the device.\<close>

definition direct_ok :: "'s bucket_direct \<Rightarrow> 's \<Rightarrow> bool" where
  "direct_ok b s \<longleftrightarrow> inv s \<and> is_open (direct_fd b) \<and> f_mode (direct_fd b) = O_RDWR
     \<and> 8 \<le> direct_max_size b \<and> direct_max_size b < 2 ^ 32
     \<and> direct_offset b + direct_max_size b \<le> cdev_sz cdev"

definition direct_holds :: "'s bucket_direct \<Rightarrow> 's \<Rightarrow> bytes \<Rightarrow> bool" where
  "direct_holds b s buf \<longleftrightarrow> length buf + 8 \<le> direct_max_size b
     \<and> subbuf (direct_offset b) (8 + length buf) (content s) = direct_meta_bytes (of_nat (length buf)) @ buf"

lemma direct_holds_cong:
  "direct_holds b s buf \<Longrightarrow> content s' = content s \<Longrightarrow> direct_holds b s' buf"
  by (simp add: direct_holds_def)

lemma lseek_direct:
  assumes "direct_ok b s"
  shows "(\<exists>err. lseek_set (direct_fd b) s (direct_offset b) = Inl err \<and> err < 0)
    \<or> lseek_set (direct_fd b) s (direct_offset b) = Inr ((direct_fd b)\<lparr>f_pos := direct_offset b\<rparr>)"
  using assms by (auto simp: lseek_set_def Let_def direct_ok_def is_open_def)

text \<open>What every operation keeps of the bucket object.\<close>

definition direct_same :: "'s bucket_direct \<Rightarrow> 's bucket_direct \<Rightarrow> bool" where
  "direct_same b b' \<longleftrightarrow> direct_offset b' = direct_offset b \<and> direct_max_size b' = direct_max_size b
     \<and> (\<exists>p. direct_fd b' = (direct_fd b)\<lparr>f_pos := p\<rparr>)"

lemma direct_same_refl: "direct_same b b"
  by (auto simp: direct_same_def intro: exI [of _ "f_pos (direct_fd b)"])

lemma direct_same_trans: "direct_same a b \<Longrightarrow> direct_same b c \<Longrightarrow> direct_same a c"
  by (auto simp: direct_same_def)

lemma direct_same_ok: "direct_ok b s \<Longrightarrow> direct_same b b' \<Longrightarrow> inv s' \<Longrightarrow> direct_ok b' s'"
  by (auto simp: direct_ok_def direct_same_def)

lemma direct_same_holds: "direct_same b b' \<Longrightarrow> direct_holds b' s buf = direct_holds b s buf"
  by (simp add: direct_same_def direct_holds_def)

lemma direct_same_fd: "direct_same b (b\<lparr>direct_fd := (direct_fd b)\<lparr>f_pos := p\<rparr>\<rparr>)"
  by (auto simp: direct_same_def)

lemma direct_write_data_ok:
  assumes "direct_ok b s" and "f_pos (direct_fd b) + length buf \<le> cdev_sz cdev"
    and "direct_write_data b s buf = (ret, b', s')"
  shows "inv s'" and "same_outside (f_pos (direct_fd b)) (length buf) (content s') (content s)"
    and "direct_same b b'" and "ret = 0 \<Longrightarrow> subbuf (f_pos (direct_fd b)) (length buf) (content s') = buf"
proof -
  from assms(1) have f: "is_open (direct_fd b)" "f_mode (direct_fd b) \<noteq> O_RDONLY" "inv s"
    by (simp_all add: direct_ok_def)
  obtain r1 f1 s1 where w: "write_full (direct_fd b) s buf = (r1, f1, s1)" by (metis prod_cases3)
  note ok = write_full_ok [OF f assms(2) w]
  obtain r2 s2 where fl: "fd_flush f1 s1 = (r2, s2)" by fastforce
  have "f_cdev f1 = cdev" using ok f(1) by (auto simp: is_open_def)
  then have fl2: "inv s2 \<and> content s2 = content s1"
    using flush_law [of s1 r2 s2] ok fl by (simp add: fd_flush_def)
  have eq: "(ret, b', s') = (if r1 < 0 then (r1, b\<lparr>direct_fd := f1\<rparr>, s1)
      else if r2 < 0 then (r2, b\<lparr>direct_fd := f1\<rparr>, s2) else (0, b\<lparr>direct_fd := f1\<rparr>, s2))"
    using assms(3) w fl by (auto simp: direct_write_data_def Let_def)
  then show "inv s'" "same_outside (f_pos (direct_fd b)) (length buf) (content s') (content s)"
    "ret = 0 \<Longrightarrow> subbuf (f_pos (direct_fd b)) (length buf) (content s') = buf"
    using ok fl2 by (auto split: if_splits)
  show "direct_same b b'" using ok eq by (auto simp: direct_same_def split: if_splits)
qed

text \<open>A write with room for the meta record.\<close>

lemma direct_write_ok:
  assumes "direct_ok b s" and "length buf + 8 \<le> direct_max_size b"
    and "state_backend_bucket_direct_write cfg b s buf = (ret, b', s')"
  shows "direct_ok b' s'" and "direct_same b b'"
    and "same_outside (direct_offset b) (direct_max_size b) (content s') (content s)"
    and "ret = 0 \<Longrightarrow> direct_holds b' s' buf"
proof -
  let ?f = "(direct_fd b)\<lparr>f_pos := direct_offset b\<rparr>" and ?off = "direct_offset b"
  let ?m = "direct_meta_bytes (of_nat (length buf))"
  from assms(1) have f: "is_open ?f" "f_mode ?f \<noteq> O_RDONLY" "inv s" "?off + direct_max_size b \<le> cdev_sz cdev"
    by (simp_all add: direct_ok_def)
  obtain r1 f1 s1 where w: "write_full ?f s ?m = (r1, f1, s1)" by (metis prod_cases3)
  have "inv s1 \<and> same_outside ?off 8 (content s1) (content s) \<and> (\<exists>p. f1 = (direct_fd b)\<lparr>f_pos := p\<rparr>)
      \<and> (0 \<le> r1 \<longrightarrow> subbuf ?off 8 (content s1) = ?m \<and> f1 = (direct_fd b)\<lparr>f_pos := ?off + 8\<rparr>)"
    using write_full_ok [OF f(1-3) _ w] f(4) assms(2) by auto
  then have ok: "inv s1" "same_outside ?off 8 (content s1) (content s)"
      "direct_same b (b\<lparr>direct_fd := f1\<rparr>)"
      "0 \<le> r1 \<Longrightarrow> subbuf ?off 8 (content s1) = ?m \<and> f1 = (direct_fd b)\<lparr>f_pos := ?off + 8\<rparr>"
    by (auto simp: direct_same_def)
  obtain r2 b2 s2 where d: "direct_write_data (b\<lparr>direct_fd := f1\<rparr>) s1 buf = (r2, b2, s2)" by (metis prod_cases3)
  have "?off + 8 + length buf \<le> cdev_sz cdev" using f(4) assms(2) by simp
  then have ok2: "0 \<le> r1 \<Longrightarrow> inv s2 \<and> same_outside (?off + 8) (length buf) (content s2) (content s1)
      \<and> direct_same b b2 \<and> (r2 = 0 \<longrightarrow> subbuf (?off + 8) (length buf) (content s2) = buf)"
    using direct_write_data_ok [OF direct_same_ok [OF assms(1) ok(3,1)] _ d] ok(3,4)
    by (auto dest: direct_same_trans)
  have eq: "(\<exists>err. err \<noteq> 0 \<and> (ret, b', s') = (err, b, s)) \<or> r1 < 0 \<and> (ret, b', s') = (r1, b\<lparr>direct_fd := f1\<rparr>, s1)
      \<or> 0 \<le> r1 \<and> (ret, b', s') = (r2, b2, s2)"
    using assms lseek_direct [OF assms(1)] w d
    by (auto simp: state_backend_bucket_direct_write_def direct_head_room_def Let_def split: if_splits)
  show same: "direct_same b b'" using eq ok(3) ok2 direct_same_refl by auto
  show "direct_ok b' s'"
    using eq ok(1) ok2 f(3) by (intro direct_same_ok [OF assms(1) same]) auto
  have "same_outside ?off (8 + length buf) (content s2) (content s)" if "0 \<le> r1"
    using same_outside_mono [OF ok(2), of ?off "8 + length buf"] ok2 that
      same_outside_mono [of "?off + 8" "length buf" "content s2" "content s1" ?off "8 + length buf"]
    by (auto simp: same_outside_def)
  then show "same_outside ?off (direct_max_size b) (content s') (content s)"
    using eq ok(2) assms(2) by (auto intro: same_outside_mono simp: same_outside_def [of ?off "direct_max_size b" x x for x])
  have "subbuf ?off (8 + length buf) (content s2) = ?m @ buf" if "0 \<le> r1" "r2 = 0"
    unfolding subbuf_add using ok(4) ok2 that
    by (auto dest!: same_outside_subbuf [of _ _ "content s2" _ ?off 8])
  then show "ret = 0 \<Longrightarrow> direct_holds b' s' buf"
    using eq assms(2) same by (auto simp: direct_holds_def direct_same_def)
qed

lemma direct_read_data_ok:
  assumes "direct_ok b s" and "f = (direct_fd b)\<lparr>f_pos := p\<rparr>" and "p + n \<le> cdev_sz cdev"
    and "direct_read_data uninit b f s n = (ret, data, b', s')"
  shows "inv s' \<and> content s' = content s \<and> direct_same b b'
    \<and> (ret = 0 \<longrightarrow> data = subbuf p n (content s))"
proof (cases "n = 0")
  case True
  then show ?thesis
    using assms by (auto simp: direct_read_data_def direct_ok_def direct_same_def)
next
  case False
  obtain r1 d f1 s1 where r: "read_full f s n = (r1, d, f1, s1)" by (metis prod_cases4)
  have "inv s1 \<and> content s1 = content s \<and> (\<exists>p. f1 = f\<lparr>f_pos := p\<rparr>)
      \<and> (0 \<le> r1 \<longrightarrow> d = subbuf p n (content s))"
    using read_full_ok [OF _ _ _ _ r] assms(1-3) by (auto simp: direct_ok_def)
  moreover have "length (subbuf p n (content s)) = n"
    using assms(1,3) by (simp add: direct_ok_def length_content)
  ultimately show ?thesis
    using assms(2,4) r False by (auto simp: direct_read_data_def direct_same_def split: if_splits)
qed

text \<open>Reading a bucket that holds a copy.\<close>

lemma direct_read_ok:
  assumes "direct_ok b s" and "direct_holds b s buf" and "buf \<noteq> []"
    and "state_backend_bucket_direct_read cfg uninit b s = (ret, data, b', s')"
  shows "inv s' \<and> content s' = content s \<and> direct_same b b' \<and> (ret = 0 \<longrightarrow> data = buf)"
proof -
  let ?f = "(direct_fd b)\<lparr>f_pos := direct_offset b\<rparr>" and ?off = "direct_offset b"
  let ?m = "direct_meta_bytes (of_nat (length buf))"
  from assms(1) have f: "is_open ?f" "f_mode ?f \<noteq> O_WRONLY" "inv s" "?off + direct_max_size b \<le> cdev_sz cdev"
    "direct_max_size b < 2 ^ 32"
    by (simp_all add: direct_ok_def)
  have "length (subbuf ?off 8 (content s)) = 8"
    using f(3,4) assms(1) by (simp add: length_content direct_ok_def)
  with assms(2) have h: "length buf + 8 \<le> direct_max_size b"
    "subbuf ?off 8 (content s) = ?m" "subbuf (?off + 8) (length buf) (content s) = buf"
    by (simp_all add: direct_holds_def subbuf_add append_eq_append_conv)
  obtain r1 m f1 s1 where r: "read_full ?f s 8 = (r1, m, f1, s1)" by (metis prod_cases4)
  have ok: "inv s1 \<and> content s1 = content s \<and> (\<exists>p. f1 = (direct_fd b)\<lparr>f_pos := p\<rparr>)
      \<and> (0 \<le> r1 \<longrightarrow> m = ?m \<and> f1 = (direct_fd b)\<lparr>f_pos := ?off + 8\<rparr>)"
    using read_full_ok [OF f(1-3) _ r] f(4) h by auto
  let ?b1 = "b\<lparr>direct_fd := f1\<rparr>"
  have b1: "direct_same b ?b1" using ok by (auto simp: direct_same_def)
  obtain r2 d2 b2 s2 where d: "direct_read_data uninit ?b1 f1 s1 (length buf) = (r2, d2, b2, s2)"
    by (metis prod_cases4)
  have ok2: "0 \<le> r1 \<Longrightarrow> inv s2 \<and> content s2 = content s1 \<and> direct_same b b2 \<and> (r2 = 0 \<longrightarrow> d2 = buf)"
    using direct_read_data_ok [OF direct_same_ok [OF assms(1) b1, of s1] _ _ d, of "?off + 8"] ok h f(4) b1
    by (auto dest: direct_same_trans)
  have len: "unat (of_nat (length buf) :: u32) = length buf" "of_le32 (subbuf 0 4 ?m) = direct_magic"
      "of_le32 (subbuf 4 4 ?m) = of_nat (length buf)"
    using h(1) f(5) by (simp_all add: unat_of_nat direct_meta_bytes_def codec_simps)
  have "(\<exists>err. err \<noteq> 0 \<and> (ret, data, b', s') = (err, [], b, s)) \<or> r1 < 0 \<and> (ret, data, b', s') = (r1, [], ?b1, s1)
      \<or> 0 \<le> r1 \<and> (ret, data, b', s') = (r2, d2, b2, s2)"
    using assms(4) lseek_direct [OF assms(1)] r d ok h(1) len
    by (auto simp: state_backend_bucket_direct_read_def Let_def split: if_splits)
  then show ?thesis using ok ok2 b1 f(3) direct_same_refl by auto
qed

text \<open>Reading never changes the device, whatever it finds there.\<close>

lemma direct_read_data_frame:
  assumes "direct_ok b s" and "f = (direct_fd b)\<lparr>f_pos := p\<rparr>" and "p \<le> cdev_sz cdev"
    and "direct_read_data uninit b f s n = (ret, data, b', s')"
  shows "inv s' \<and> content s' = content s \<and> direct_same b b' \<and> ret \<noteq> - EUCLEAN"
proof -
  obtain r1 d f1 s1 where r: "read_full f s n = (r1, d, f1, s1)" by (metis prod_cases4)
  have "inv s1 \<and> content s1 = content s \<and> r1 \<noteq> - EUCLEAN \<and> (\<exists>p. f1 = f\<lparr>f_pos := p\<rparr>)"
    using read_full_frame [OF _ _ _ _ r] assms(1-3) by (auto simp: direct_ok_def)
  then show ?thesis
    using assms r by (auto simp: direct_read_data_def direct_same_def direct_ok_def split: if_splits)
qed

lemma direct_same_magic: "direct_same b b' \<Longrightarrow> direct_same b (b'\<lparr>direct_wrong_magic := w\<rparr>)"
  by (simp add: direct_same_def)

lemma direct_read_frame:
  assumes "direct_ok b s" and "state_backend_bucket_direct_read cfg uninit b s = (ret, data, b', s')"
  shows "inv s' \<and> content s' = content s \<and> direct_same b b' \<and> ret \<noteq> - EUCLEAN"
proof -
  let ?f = "(direct_fd b)\<lparr>f_pos := direct_offset b\<rparr>" and ?off = "direct_offset b"
  from assms(1) have f: "is_open ?f" "f_mode ?f \<noteq> O_WRONLY" "inv s" "?off \<le> cdev_sz cdev"
    by (simp_all add: direct_ok_def)
  obtain r1 m f1 s1 where r: "read_full ?f s 8 = (r1, m, f1, s1)" by (metis prod_cases4)
  obtain p where ok: "inv s1" "content s1 = content s" "r1 \<noteq> - EUCLEAN" "p \<le> cdev_sz cdev" "f1 = (direct_fd b)\<lparr>f_pos := p\<rparr>"
    using read_full_frame [OF f(1-3) _ r] f(4) by auto
  let ?b1 = "b\<lparr>direct_fd := f1\<rparr>"
  have b1: "direct_same b ?b1" using ok(5) by (auto simp: direct_same_def)
  have d: "inv s2 \<and> content s2 = content s \<and> direct_same b b2 \<and> r2 \<noteq> - EUCLEAN"
    if "direct_read_data uninit b1 f2 s1 n = (r2, d2, b2, s2)" "b1 = ?b1 \<or> b1 = ?b1\<lparr>direct_wrong_magic := True\<rparr>"
      "f2 = f1 \<or> f2 = f1\<lparr>f_pos := ?off\<rparr>" for b1 f2 n r2 d2 b2 s2
  proof -
    have same: "direct_same b b1" using that(2) direct_same_magic [OF b1] b1 by auto
    have "\<exists>q \<le> cdev_sz cdev. f2 = (direct_fd b1)\<lparr>f_pos := q\<rparr>"
      using that(2,3) ok(4,5) f(4) by auto
    then show ?thesis
      using direct_read_data_frame [OF direct_same_ok [OF assms(1) same ok(1)] _ _ that(1)] same ok(2) direct_same_trans
      by metis
  qed
  show ?thesis
    using assms lseek_direct [OF assms(1)] lseek_law [of s1 ?off] lseek_law [of s ?off] r ok b1 f(3) direct_same_refl [of b] direct_same_magic [OF b1]
    by (auto simp: state_backend_bucket_direct_read_def Let_def lseek_set_def direct_ok_def is_open_def
        split: if_splits dest!: d)
qed

end

section \<open>Properties\<close>


definition demo_direct :: "nat \<Rightarrow> nat \<Rightarrow> bytes bucket_direct" where
  "demo_direct off max_sz = state_backend_bucket_direct_create (mtd_cdev (mtdram_probe 24)) off max_sz False"

lemmas direct_eval = file_eval demo_direct_def state_backend_bucket_direct_create_def
  state_backend_bucket_direct_write_def state_backend_bucket_direct_read_def direct_write_data_def
  direct_read_data_def direct_meta_bytes_def direct_magic_def direct_head_room_def fill_def le32_def
  of_le32_def demo_config_def

lemma demo_direct_ok: "disk.direct_ok (mtd_cdev (mtdram_probe 24)) (\<lambda>mem. length mem = 24) (demo_direct 0 12) (replicate 24 0)"
  unfolding mtdram_disk.direct_ok_def mtdram_disk.is_open_def
  by (simp add: demo_direct_def devfs_open_def
      state_backend_bucket_direct_create_def mtd_cdev_def mtdram_probe_def ram_mtd_def)


text \<open>In a build with backward compatibility a copy that is larger than the stride is written
  without any check: it runs into the next bucket, and reading the bucket returns only as much as
  the stride holds.\<close>

theorem direct_compat_write_overruns_stride:
  "\<exists>b1 s1 b2 s2.
     state_backend_bucket_direct_write (demo_config\<lparr>cfg_state_backward_compatible := True\<rparr>)
       (demo_direct 0 8) (replicate 24 0) [1, 2, 3, 4, 5, 6, 7, 8, 9, 10] = (0, b1, s1)
     \<and> subbuf (direct_offset (demo_direct 8 8)) 2 s1 = [9, 10]
     \<and> state_backend_bucket_direct_read (demo_config\<lparr>cfg_state_backward_compatible := True\<rparr>) (\<lambda>_. 0) b1 s1
         = (0, [1, 2, 3, 4, 5, 6, 7, 8], b2, s2)"
  by (simp add: direct_eval replicate_numeral)

end
