(* ===== verification/Storage.thy ===== *)
theory Storage
  imports Bucket_Circular Bucket_Direct "HOL-Library.Sublist"
begin

text \<open>
  The redundant storage of a state (\<^verbatim>\<open>common/state/backend_storage.c\<close>): up to three buckets,
  each with one copy. A save writes them in order; a load takes the first copy that the format
  accepts and rewrites the buckets that differ from it.

  The storage is generic in the bucket type \<^typ>\<open>'b\<close> (circular or direct), in the medium
  \<^typ>\<open>'s\<close> the buckets share and in the format, whose verification may change the format
  object of type \<^typ>\<open>'f\<close>.
\<close>

unbundle bit_operations_syntax

section \<open>Buckets and formats as the storage sees them\<close>

record ('b, 's) bucket_ops =
  op_write :: "'b \<Rightarrow> 's \<Rightarrow> bytes \<Rightarrow> int \<times> 'b \<times> 's"
  op_read :: "'b \<Rightarrow> 's \<Rightarrow> int \<times> bytes \<times> 'b \<times> 's"
  op_wrong_magic :: "'b \<Rightarrow> bool"

record 'b storage_bucket =
  bkt :: 'b
  bkt_buf :: bytes
  bkt_len :: nat
  needs_refresh :: bool

type_synonym 'f verify_fn = "'f \<Rightarrow> u32 \<Rightarrow> bytes \<Rightarrow> nat \<Rightarrow> bool \<Rightarrow> int \<times> nat \<times> 'f"

abbreviation (input) min_buckets_written :: nat where "min_buckets_written \<equiv> 1"
abbreviation (input) desired_buckets :: nat where "desired_buckets \<equiv> 3"

section \<open>Writing\<close>

fun storage_write_loop ::
  "('b, 's) bucket_ops \<Rightarrow> bytes \<Rightarrow> 'b storage_bucket list \<Rightarrow> 's \<Rightarrow> nat
     \<Rightarrow> nat \<times> 'b storage_bucket list \<times> 's" where
  "storage_write_loop ops buf [] s buckets_written = (buckets_written, [], s)"
| "storage_write_loop ops buf (b # bs) s buckets_written =
     (case op_write ops (bkt b) s buf of (ret, bk, s) \<Rightarrow>
        case storage_write_loop ops buf bs s (if ret \<noteq> 0 then buckets_written else buckets_written + 1) of
          (n, bs, s) \<Rightarrow> (n, b\<lparr>bkt := bk\<rparr> # bs, s))"

definition state_storage_write ::
  "('b, 's) bucket_ops \<Rightarrow> bool \<Rightarrow> 'b storage_bucket list \<Rightarrow> 's \<Rightarrow> bytes
     \<Rightarrow> int \<times> 'b storage_bucket list \<times> 's" where
  "state_storage_write ops readonly buckets s buf =
     (if readonly then (0, buckets, s)
      else case storage_write_loop ops buf buckets s 0 of (n, buckets, s) \<Rightarrow>
        (if min_buckets_written \<le> n then 0 else - EIO, buckets, s))"

section \<open>Reading\<close>

definition bucket_refresh ::
  "('b, 's) bucket_ops \<Rightarrow> 'b storage_bucket \<Rightarrow> bytes \<Rightarrow> nat \<Rightarrow> 's \<Rightarrow> int \<times> 'b storage_bucket \<times> 's" where
  "bucket_refresh ops b buf len s =
     (if needs_refresh b \<or> bkt_len b \<noteq> len \<or> take len (bkt_buf b) \<noteq> take len buf then
        (case op_write ops (bkt b) s (take len buf) of (ret, bk, s) \<Rightarrow>
           (ret, b\<lparr>bkt := bk, needs_refresh := (if ret \<noteq> 0 then needs_refresh b else False)\<rparr>, s))
      else (0, b, s))"

text \<open>One round of the first loop: the value is the error of the read, or the result of the
  verification.\<close>

definition bucket_check ::
  "('b, 's) bucket_ops \<Rightarrow> 'f verify_fn \<Rightarrow> u32 \<Rightarrow> bool \<Rightarrow> 'b storage_bucket \<Rightarrow> 's \<Rightarrow> 'f
     \<Rightarrow> int \<times> 'b storage_bucket \<times> 's \<times> 'f" where
  "bucket_check ops vf magic no_auth b s fmt =
     (case op_read ops (bkt b) s of (ret, data, bk, s) \<Rightarrow>
        if ret \<noteq> 0 \<and> ret \<noteq> - EUCLEAN then (ret, b\<lparr>bkt := bk\<rparr>, s, fmt)
        else
          case vf fmt magic data (length data) no_auth of (vret, len, fmt) \<Rightarrow>
            (vret, b\<lparr>bkt := bk, bkt_buf := data, bkt_len := len,
                     needs_refresh := needs_refresh b \<or> ret = - EUCLEAN\<rparr>, s, fmt))"

fun storage_scan ::
  "('b, 's) bucket_ops \<Rightarrow> 'f verify_fn \<Rightarrow> u32 \<Rightarrow> bool \<Rightarrow> 'b storage_bucket list \<Rightarrow> 's \<Rightarrow> 'f
     \<Rightarrow> int list \<times> 'b storage_bucket list \<times> 's \<times> 'f" where
  "storage_scan ops vf magic no_auth [] s fmt = ([], [], s, fmt)"
| "storage_scan ops vf magic no_auth (b # bs) s fmt =
     (case bucket_check ops vf magic no_auth b s fmt of (ret, b, s, fmt) \<Rightarrow>
        case storage_scan ops vf magic no_auth bs s fmt of (rets, bs, s, fmt) \<Rightarrow>
          (ret # rets, b # bs, s, fmt))"

text \<open>The bucket in use: the first with a valid copy.\<close>

fun first_valid :: "int list \<Rightarrow> nat option" where
  "first_valid [] = None"
| "first_valid (ret # rets) = (if ret = 0 then Some 0 else map_option Suc (first_valid rets))"

fun storage_refresh_others ::
  "('b, 's) bucket_ops \<Rightarrow> bytes \<Rightarrow> nat \<Rightarrow> nat option \<Rightarrow> 'b storage_bucket list \<Rightarrow> 's
     \<Rightarrow> 'b storage_bucket list \<times> 's" where
  "storage_refresh_others ops buf len used [] s = ([], s)"
| "storage_refresh_others ops buf len used (b # bs) s =
     (case (if used = Some 0 then (b, s)
            else case bucket_refresh ops b buf len s of (ret, b, s) \<Rightarrow>
              (b\<lparr>bkt_buf := [], bkt_len := 0\<rparr>, s)) of (b, s) \<Rightarrow>
        case storage_refresh_others ops buf len
               (case used of Some (Suc i) \<Rightarrow> Some i | _ \<Rightarrow> None) bs s of (bs, s) \<Rightarrow> (b # bs, s))"

definition state_storage_read ::
  "('b, 's) bucket_ops \<Rightarrow> 'f verify_fn \<Rightarrow> 'b storage_bucket list \<Rightarrow> 's \<Rightarrow> 'f \<Rightarrow> u32 \<Rightarrow> bool
     \<Rightarrow> int \<times> bytes \<times> 'b storage_bucket list \<times> 's \<times> 'f" where
  "state_storage_read ops vf buckets s fmt magic no_auth =
     (case storage_scan ops vf magic no_auth buckets s fmt of (rets, buckets, s, fmt) \<Rightarrow>
        case first_valid rets of
          None \<Rightarrow>
            (if length (filter (\<lambda>ret. ret = - ENOMEDIUM) rets) = length buckets then - ENOMEDIUM else - ENOENT,
             [], buckets, s, fmt)
        | Some i \<Rightarrow>
            let buf = bkt_buf (buckets ! i); len = bkt_len (buckets ! i)
            in case storage_refresh_others ops buf len (Some i) buckets s of (buckets, s) \<Rightarrow>
                 case bucket_refresh ops (buckets ! i) buf len s of (ret, used, s) \<Rightarrow>
                   (0, take len buf, buckets[i := used\<lparr>bkt_buf := [], bkt_len := 0\<rparr>], s, fmt))"

section \<open>Setting up the buckets\<close>

definition new_bucket :: "'b \<Rightarrow> 'b storage_bucket" where
  "new_bucket b = \<lparr>bkt = b, bkt_buf = [], bkt_len = 0, needs_refresh = False\<rparr>"

function storage_mtd_buckets ::
  "config \<Rightarrow> 's mtd_info \<Rightarrow> nat \<Rightarrow> nat \<Rightarrow> nat \<Rightarrow> nat \<Rightarrow> 's \<Rightarrow> bucket_circular storage_bucket list \<times> 's" where
  "storage_mtd_buckets cfg mtd ws offset limit n_buckets s =
     (if limit \<le> offset \<or> erasesize mtd = 0 then ([], s)
      else case state_backend_bucket_circular_create cfg mtd s (offset div erasesize mtd) ws of (ret, b, s) \<Rightarrow>
        if ret \<noteq> 0 then storage_mtd_buckets cfg mtd ws (offset + erasesize mtd) limit n_buckets s
        else if desired_buckets \<le> n_buckets + 1 then ([new_bucket b], s)
        else case storage_mtd_buckets cfg mtd ws (offset + erasesize mtd) limit (n_buckets + 1) s of
          (bs, s) \<Rightarrow> (new_bucket b # bs, s))"
  by pat_completeness auto
termination by (relation "measure (\<lambda>(cfg, mtd, ws, offset, limit, n, s). limit - offset)") auto

declare storage_mtd_buckets.simps [simp del]

definition state_storage_mtd_buckets_init ::
  "config \<Rightarrow> 's mtd_info \<Rightarrow> nat \<Rightarrow> nat \<Rightarrow> bool \<Rightarrow> 's \<Rightarrow> int \<times> bucket_circular storage_bucket list \<times> 's" where
  "state_storage_mtd_buckets_init cfg mtd offset max_sz circular s =
     (let limit = (if offset + max_sz = 0 \<or> mtd_size mtd < offset + max_sz then mtd_size mtd else offset + max_sz)
      in if offset AND (erasesize mtd - 1) \<noteq> 0 then (- EINVAL, [], s)
         else case storage_mtd_buckets cfg mtd (if circular then writesize mtd else erasesize mtd) offset limit 0 s of
           (buckets, s) \<Rightarrow> (if buckets = [] then - EIO else 0, buckets, s))"

definition state_storage_file_buckets_init ::
  "'s cdev option \<Rightarrow> nat \<Rightarrow> nat \<Rightarrow> u32 \<Rightarrow> bool \<Rightarrow> int \<times> 's bucket_direct storage_bucket list" where
  "state_storage_file_buckets_init cdev offset max_sz stridesize readonly =
     (if stridesize = 0 then (- EINVAL, [])
      else if max_sz \<noteq> 0 \<and> max_sz < unat (of_nat desired_buckets * stridesize) then (- EINVAL, [])
      else case cdev of
          None \<Rightarrow> (- EIO, [])
        | Some cdev \<Rightarrow>
            (0, map (\<lambda>n. new_bucket (state_backend_bucket_direct_create cdev
                   (offset + unat (of_nat n * stridesize)) (unat stridesize) readonly)) [0..<desired_buckets]))"

text \<open>The choice of the bucket type. The device behind the path is given as the flash it is (with
  the flag \<^verbatim>\<open>MTD_NO_ERASE\<close>), if it is one, and as the device file it is, if it can be opened.\<close>

datatype 's storage_buckets =
    Circular_Buckets "bucket_circular storage_bucket list"
  | Direct_Buckets "'s bucket_direct storage_bucket list"

definition state_storage_init ::
  "config \<Rightarrow> ('s mtd_info \<times> bool) option \<Rightarrow> 's cdev option \<Rightarrow> nat \<Rightarrow> nat \<Rightarrow> u32 \<Rightarrow> string option \<Rightarrow> bool \<Rightarrow> 's
     \<Rightarrow> int \<times> string option \<times> 's storage_buckets \<times> 's" where
  "state_storage_init cfg mtd cdev offset max_sz stridesize storagetype readonly s =
     (case mtd of
        Some (mtd, False) \<Rightarrow>
          if storagetype = None \<or> storagetype = Some ''circular'' then
            (case state_storage_mtd_buckets_init cfg mtd offset max_sz True s of (ret, bs, s) \<Rightarrow>
               (ret, Some ''circular'', Circular_Buckets bs, s))
          else if storagetype = Some ''noncircular'' then
            (case state_storage_mtd_buckets_init cfg mtd offset max_sz False s of (ret, bs, s) \<Rightarrow>
               (ret, storagetype, Circular_Buckets bs, s))
          else (- EINVAL, storagetype, Circular_Buckets [], s)
      | _ \<Rightarrow>
          (case state_storage_file_buckets_init cdev offset max_sz stridesize readonly of (ret, bs) \<Rightarrow>
             (ret, storagetype, Direct_Buckets bs, s)))"

definition circular_ops :: "config \<Rightarrow> 's mtd_info \<Rightarrow> (bucket_circular, 's) bucket_ops" where
  "circular_ops cfg mtd = \<lparr>op_write = state_backend_bucket_circular_write cfg mtd,
     op_read = state_backend_bucket_circular_read cfg mtd, op_wrong_magic = wrong_magic\<rparr>"

definition direct_ops :: "config \<Rightarrow> (nat \<Rightarrow> u8) \<Rightarrow> ('s bucket_direct, 's) bucket_ops" where
  "direct_ops cfg uninit = \<lparr>op_write = state_backend_bucket_direct_write cfg,
     op_read = state_backend_bucket_direct_read cfg uninit, op_wrong_magic = direct_wrong_magic\<rparr>"

section \<open>What the storage promises\<close>

text \<open>The format accepts a copy, whatever the bucket returns behind it, and finds its length.\<close>

definition valid_copy :: "'f verify_fn \<Rightarrow> ('f \<Rightarrow> bool) \<Rightarrow> u32 \<Rightarrow> bool \<Rightarrow> bytes \<Rightarrow> nat \<Rightarrow> bool" where
  "valid_copy vf finv magic no_auth x n \<longleftrightarrow> n \<le> length x
     \<and> (\<forall>f pad. finv f \<longrightarrow> (\<exists>f'. vf f magic (x @ pad) (length (x @ pad)) no_auth = (0, n, f')))"

definition keeps_format :: "'f verify_fn \<Rightarrow> ('f \<Rightarrow> bool) \<Rightarrow> bool" where
  "keeps_format vf finv \<longleftrightarrow> (\<forall>f magic buf len no_auth. finv f \<longrightarrow> finv (snd (snd (vf f magic buf len no_auth))))"

text \<open>The contract of a bucket type. \<open>place\<close> is the part of the medium a bucket uses, \<open>stored\<close> says
  that the medium has a copy which is found at the next start, and \<open>holds\<close> that the bucket object
  is ready to read it.\<close>

locale bucket_store =
  fixes ops :: "('b, 's) bucket_ops" and ok :: "'b \<Rightarrow> 's \<Rightarrow> bool"
    and place :: "'b \<Rightarrow> 'p" and apart :: "'p \<Rightarrow> 'p \<Rightarrow> bool" and fits :: "'p \<Rightarrow> bytes \<Rightarrow> bool"
    and stored :: "'b \<Rightarrow> 's \<Rightarrow> bytes \<Rightarrow> bool" and holds :: "'b \<Rightarrow> 's \<Rightarrow> bytes \<Rightarrow> bool"
  assumes apart_sym: "apart p q \<Longrightarrow> apart q p"
    and write_law: "ok b s \<Longrightarrow> fits (place b) buf \<Longrightarrow> op_write ops b s buf = (ret, b', s') \<Longrightarrow>
      place b' = place b \<and> ok b' s' \<and> (ret = 0 \<longrightarrow> stored b' s' buf)"
    and write_frame: "ok b s \<Longrightarrow> fits (place b) buf \<Longrightarrow> op_write ops b s buf = (ret, b', s') \<Longrightarrow>
      apart (place b) (place c) \<Longrightarrow>
      (ok c s \<longrightarrow> ok c s') \<and> (stored c s x \<longrightarrow> stored c s' x) \<and> (holds c s x \<longrightarrow> holds c s' x)"
    and read_law: "ok b s \<Longrightarrow> op_read ops b s = (ret, data, b', s') \<Longrightarrow>
      place b' = place b \<and> ok b' s' \<and> (holds b s x \<and> (ret = 0 \<or> ret = - EUCLEAN) \<longrightarrow> prefix x data)"
    and read_frame: "ok b s \<Longrightarrow> op_read ops b s = (ret, data, b', s') \<Longrightarrow>
      apart (place b) (place c) \<Longrightarrow>
      (ok c s \<longrightarrow> ok c s') \<and> (stored c s x \<longrightarrow> stored c s' x) \<and> (holds c s x \<longrightarrow> holds c s' x)"
begin

definition all_ok :: "'b storage_bucket list \<Rightarrow> 's \<Rightarrow> bool" where
  "all_ok bs s \<longleftrightarrow> (\<forall>b \<in> set bs. ok (bkt b) s)
     \<and> sorted_wrt (\<lambda>b c. apart (place (bkt b)) (place (bkt c))) bs"

definition places :: "'b storage_bucket list \<Rightarrow> 'p list" where
  "places bs = map (\<lambda>b. place (bkt b)) bs"

definition apart_from :: "'b \<Rightarrow> 'b storage_bucket list \<Rightarrow> bool" where
  "apart_from c bs \<longleftrightarrow> (\<forall>p \<in> set (places bs). apart p (place c))"

lemma places_simps [simp]: "places [] = []" "places (b # bs) = place (bkt b) # places bs"
  by (simp_all add: places_def)

lemma places_length: "places bs = places cs \<Longrightarrow> length bs = length cs"
  by (metis length_map places_def)

lemma all_ok_Cons:
  "all_ok (b # bs) s \<longleftrightarrow> ok (bkt b) s \<and> apart_from (bkt b) bs \<and> all_ok bs s"
  using apart_sym by (auto simp: all_ok_def apart_from_def places_def)

lemma apart_from_Cons: "apart_from c (b # bs) \<longleftrightarrow> apart (place (bkt b)) (place c) \<and> apart_from c bs"
  by (simp add: apart_from_def)

lemma apart_from_cong: "places bs' = places bs \<Longrightarrow> place c' = place c \<Longrightarrow> apart_from c' bs' = apart_from c bs"
  by (simp add: apart_from_def)

text \<open>What an operation on one place leaves alone.\<close>

definition undisturbed :: "'p \<Rightarrow> 's \<Rightarrow> 's \<Rightarrow> bool" where
  "undisturbed p s s' \<longleftrightarrow> (\<forall>c x. apart p (place c) \<longrightarrow>
     (ok c s \<longrightarrow> ok c s') \<and> (stored c s x \<longrightarrow> stored c s' x) \<and> (holds c s x \<longrightarrow> holds c s' x))"

lemma undisturbed_all_ok:
  "undisturbed p s s' \<Longrightarrow> \<forall>q \<in> set (places bs). apart p q \<Longrightarrow> all_ok bs s \<Longrightarrow> all_ok bs s'"
  by (auto simp: undisturbed_def all_ok_def places_def)

lemma apart_from_places: "apart_from b bs \<Longrightarrow> q \<in> set (places bs) \<Longrightarrow> apart (place b) q"
  using apart_sym by (auto simp: apart_from_def)

subsection \<open>Saving\<close>

text \<open>A save keeps every bucket usable; it disturbs nothing but the places of the buckets; and
  the buckets it counts have the new copy.\<close>

lemma write_loop_ok:
  assumes "all_ok bs s" and "\<forall>p \<in> set (places bs). fits p buf"
    and "storage_write_loop ops buf bs s n = (m, bs', s')"
  shows "places bs' = places bs \<and> all_ok bs' s' \<and> n \<le> m \<and> m \<le> n + length bs
    \<and> (n < m \<longrightarrow> (\<exists>b \<in> set bs'. stored (bkt b) s' buf))
    \<and> (m = n + length bs \<longrightarrow> (\<forall>b \<in> set bs'. stored (bkt b) s' buf))
    \<and> (\<forall>c. apart_from c bs \<longrightarrow> (ok c s \<longrightarrow> ok c s') \<and> (\<forall>x. stored c s x \<longrightarrow> stored c s' x))"
  using assms
proof (induction bs arbitrary: s n m bs' s')
  case Nil
  then show ?case by simp
next
  case (Cons b bs)
  obtain ret bk s1 where w: "op_write ops (bkt b) s buf = (ret, bk, s1)" by (metis prod_cases3)
  let ?n = "if ret \<noteq> 0 then n else n + 1"
  obtain m2 bs2 s2 where l: "storage_write_loop ops buf bs s1 ?n = (m2, bs2, s2)" by (metis prod_cases3)
  have pre: "ok (bkt b) s" "fits (place (bkt b)) buf" "all_ok bs s" "apart_from (bkt b) bs"
    using Cons.prems(1,2) by (auto simp: all_ok_Cons)
  note law = write_law [OF pre(1,2) w]
  have und: "undisturbed (place (bkt b)) s s1"
    using write_frame [OF pre(1,2) w] by (simp add: undisturbed_def)
  have "all_ok bs s1" using undisturbed_all_ok [OF und _ pre(3)] apart_from_places [OF pre(4)] by blast
  note ih = Cons.IH [OF this _ l]
  have res: "m = m2" "bs' = b\<lparr>bkt := bk\<rparr> # bs2" "s' = s2" using Cons.prems(3) w l by simp_all
  have "apart_from bk bs" using pre(4) law by (simp add: apart_from_def)
  then show ?case
    using ih law und Cons.prems(2) apart_from_cong [of bs2 bs bk bk]
    by (auto simp: res all_ok_Cons apart_from_Cons undisturbed_def split: if_splits)
qed

subsection \<open>Loading\<close>

text \<open>The contents of the buckets, as far as they are known.\<close>

definition contents :: "'b storage_bucket list \<Rightarrow> 's \<Rightarrow> bytes option list \<Rightarrow> bool" where
  "contents bs s xs \<longleftrightarrow> list_all2 (\<lambda>b xo. \<forall>x. xo = Some x \<longrightarrow> holds (bkt b) s x) bs xs"

lemma contents_undisturbed:
  assumes "undisturbed p s s'" and "\<forall>q \<in> set (places bs). apart p q" and "contents bs s xs"
  shows "contents bs s' xs"
  using assms by (auto simp: contents_def list_all2_conv_all_nth undisturbed_def places_def)

lemma bucket_check_ok:
  assumes "ok (bkt b) s" and "keeps_format vf finv" and "finv f"
    and "bucket_check ops vf magic no_auth b s f = (ret, b', s', f')"
  shows "place (bkt b') = place (bkt b)" and "ok (bkt b') s'" and "undisturbed (place (bkt b)) s s'" and "finv f'"
    and "holds (bkt b) s x \<Longrightarrow> valid_copy vf finv magic no_auth x n \<Longrightarrow> ret = 0 \<Longrightarrow>
      take (bkt_len b') (bkt_buf b') = take n x"
    and "holds (bkt b) s x \<Longrightarrow> valid_copy vf finv magic no_auth x n \<Longrightarrow>
      fst (op_read ops (bkt b) s) \<in> {0, - EUCLEAN} \<Longrightarrow> ret = 0"
proof -
  obtain r data bk s1 where rd: "op_read ops (bkt b) s = (r, data, bk, s1)" by (metis prod_cases4)
  obtain vret len f1 where v: "vf f magic data (length data) no_auth = (vret, len, f1)" by (metis prod_cases3)
  note law = read_law [OF assms(1) rd]
  have eq: "(ret, b', s', f') = (if r \<noteq> 0 \<and> r \<noteq> - EUCLEAN then (r, b\<lparr>bkt := bk\<rparr>, s1, f)
      else (vret, b\<lparr>bkt := bk, bkt_buf := data, bkt_len := len,
              needs_refresh := needs_refresh b \<or> r = - EUCLEAN\<rparr>, s1, f1))"
    using assms(4) rd v by (auto simp: bucket_check_def)
  show "place (bkt b') = place (bkt b)" "ok (bkt b') s'"
    using law eq by (auto split: if_splits)
  have "finv f1" using assms(2,3) v unfolding keeps_format_def by (metis snd_conv)
  then show "finv f'" using eq assms(3) by (auto split: if_splits)
  show "undisturbed (place (bkt b)) s s'"
    using read_frame [OF assms(1) rd] eq by (auto simp: undisturbed_def split: if_splits)
  have copy: "vret = 0 \<and> take len data = take n x"
    if "holds (bkt b) s x" "valid_copy vf finv magic no_auth x n" "r = 0 \<or> r = - EUCLEAN"
  proof -
    have "prefix x data" using law that(1,3) by blast
    then obtain pad where "data = x @ pad" by (auto simp: prefix_def)
    moreover from that(2) assms(3) obtain f2
      where "vf f magic (x @ pad) (length (x @ pad)) no_auth = (0, n, f2)" and "n \<le> length x"
      unfolding valid_copy_def by blast
    ultimately show ?thesis using v by simp
  qed
  show "take (bkt_len b') (bkt_buf b') = take n x"
    if "holds (bkt b) s x" "valid_copy vf finv magic no_auth x n" "ret = 0"
    using copy [OF that(1,2)] that(3) eq by (auto split: if_splits)
  show "ret = 0"
    if "holds (bkt b) s x" "valid_copy vf finv magic no_auth x n" "fst (op_read ops (bkt b) s) \<in> {0, - EUCLEAN}"
    using copy [OF that(1,2)] that(3) eq rd by (auto split: if_splits)
qed

text \<open>A bucket whose copy \<open>x\<close> can be read whenever it is there.\<close>

definition readable :: "'b \<Rightarrow> bytes \<Rightarrow> bool" where
  "readable b x \<longleftrightarrow> (\<forall>t. ok b t \<longrightarrow> holds b t x \<longrightarrow> fst (op_read ops b t) \<in> {0, - EUCLEAN})"

lemma storage_scan_ok:
  assumes "all_ok bs s" and "contents bs s xs" and "keeps_format vf finv" and "finv f"
    and "storage_scan ops vf magic no_auth bs s f = (rets, bs', s', f')"
  shows "places bs' = places bs \<and> all_ok bs' s' \<and> finv f' \<and> length rets = length bs
    \<and> (\<forall>c. apart_from c bs \<longrightarrow> ok c s \<longrightarrow> ok c s')
    \<and> (\<forall>i x n. i < length bs \<longrightarrow> xs ! i = Some x \<longrightarrow> valid_copy vf finv magic no_auth x n \<longrightarrow>
         (rets ! i = 0 \<longrightarrow> take (bkt_len (bs' ! i)) (bkt_buf (bs' ! i)) = take n x)
         \<and> (readable (bkt (bs ! i)) x \<longrightarrow> rets ! i = 0))"
  using assms
proof (induction bs arbitrary: s f xs rets bs' s' f')
  case Nil
  then show ?case by (simp add: all_ok_def)
next
  case (Cons b bs)
  obtain r b1 s1 f1 where c: "bucket_check ops vf magic no_auth b s f = (r, b1, s1, f1)" by (metis prod_cases4)
  obtain rs bs2 s2 f2 where l: "storage_scan ops vf magic no_auth bs s1 f1 = (rs, bs2, s2, f2)"
    by (metis prod_cases4)
  obtain xo ys where xs: "xs = xo # ys" and h: "\<forall>x. xo = Some x \<longrightarrow> holds (bkt b) s x" and ys: "contents bs s ys"
    using Cons.prems(2) by (auto simp: contents_def list_all2_Cons1)
  have pre: "ok (bkt b) s" "all_ok bs s" "apart_from (bkt b) bs" using Cons.prems(1) by (auto simp: all_ok_Cons)
  note chk = bucket_check_ok [OF pre(1) Cons.prems(3,4) c]
  have "all_ok bs s1" "contents bs s1 ys"
    using undisturbed_all_ok [OF chk(3) _ pre(2)] contents_undisturbed [OF chk(3) _ ys] apart_from_places [OF pre(3)]
    by blast+
  note ih = Cons.IH [OF this Cons.prems(3) chk(4) l]
  have res: "rets = r # rs" "bs' = b1 # bs2" "s' = s2" "f' = f2" using Cons.prems(5) c l by simp_all
  have "apart_from (bkt b1) bs" using pre(3) chk(1) by (simp add: apart_from_def)
  then have "places bs' = places (b # bs) \<and> all_ok bs' s' \<and> finv f' \<and> length rets = length (b # bs)
      \<and> (\<forall>c. apart_from c (b # bs) \<longrightarrow> ok c s \<longrightarrow> ok c s')"
    using ih chk(1,2,3) apart_from_cong [of bs2 bs "bkt b1" "bkt b1"]
    by (auto simp: res all_ok_Cons apart_from_Cons undisturbed_def)
  moreover have "(rets ! i = 0 \<longrightarrow> take (bkt_len (bs' ! i)) (bkt_buf (bs' ! i)) = take n x)
         \<and> (readable (bkt ((b # bs) ! i)) x \<longrightarrow> rets ! i = 0)"
    if "i < length (b # bs)" "xs ! i = Some x" "valid_copy vf finv magic no_auth x n" for i x n
    using that ih chk(5,6) h pre(1) by (cases i) (auto simp: res xs readable_def)
  ultimately show ?case by blast
qed

end

lemma first_valid_Some: "first_valid rets = Some i \<Longrightarrow> i < length rets \<and> rets ! i = 0 \<and> (\<forall>j < i. rets ! j \<noteq> 0)"
  by (induction rets arbitrary: i) (auto simp: nth_Cons less_Suc_eq_0_disj split: if_splits nat.splits)

lemma first_valid_None: "first_valid rets = None \<longleftrightarrow> 0 \<notin> set rets"
  by (induction rets) auto


context bucket_store
begin

subsection \<open>Restoring consistency\<close>

definition differs :: "bytes \<Rightarrow> nat \<Rightarrow> 'b storage_bucket \<Rightarrow> bool" where
  "differs buf len b \<longleftrightarrow> needs_refresh b \<or> bkt_len b \<noteq> len \<or> take len (bkt_buf b) \<noteq> take len buf"

lemma bucket_refresh_ok:
  assumes "ok (bkt b) s" and "fits (place (bkt b)) (take len buf)"
    and "bucket_refresh ops b buf len s = (ret, b', s')"
  shows "place (bkt b') = place (bkt b)" and "ok (bkt b') s'" and "undisturbed (place (bkt b)) s s'"
    and "differs buf len b \<Longrightarrow>
      stored (bkt b') s' (take len buf) \<or> fst (op_write ops (bkt b) s (take len buf)) \<noteq> 0"
proof -
  obtain r bk s1 where w: "op_write ops (bkt b) s (take len buf) = (r, bk, s1)" by (metis prod_cases3)
  have eq: "(bkt b', s') = (if differs buf len b then (bk, s1) else (bkt b, s))"
    using assms(3) w by (auto simp: bucket_refresh_def differs_def split: if_splits)
  note law = write_law [OF assms(1,2) w] and frame = write_frame [OF assms(1,2) w]
  show "place (bkt b') = place (bkt b)" "ok (bkt b') s'" using law eq assms(1) by (auto split: if_splits)
  show "undisturbed (place (bkt b)) s s'"
    using frame eq by (auto simp: undisturbed_def split: if_splits)
  show "stored (bkt b') s' (take len buf) \<or> fst (op_write ops (bkt b) s (take len buf)) \<noteq> 0"
    if "differs buf len b"
    using law eq w that by auto
qed

definition repaired :: "bytes \<Rightarrow> nat \<Rightarrow> 'b storage_bucket \<Rightarrow> 'b storage_bucket \<Rightarrow> 's \<Rightarrow> bool" where
  "repaired buf len b b' s' \<longleftrightarrow> (differs buf len b \<longrightarrow>
     stored (bkt b') s' (take len buf) \<or> (\<exists>t. fst (op_write ops (bkt b) t (take len buf)) \<noteq> 0))"

lemma repaired_undisturbed:
  assumes "repaired buf len b b' s" and "undisturbed p s s'" and "apart p (place (bkt b'))"
  shows "repaired buf len b b' s'"
  using assms by (auto simp: repaired_def undisturbed_def)

lemma refresh_others_ok:
  assumes "all_ok bs s" and "\<forall>p \<in> set (places bs). fits p (take len buf)"
    and "storage_refresh_others ops buf len used bs s = (bs', s')"
  shows "places bs' = places bs \<and> all_ok bs' s'
    \<and> (\<forall>c. apart_from c bs \<longrightarrow> (ok c s \<longrightarrow> ok c s') \<and> (\<forall>x. stored c s x \<longrightarrow> stored c s' x))
    \<and> (\<forall>i < length bs. if used = Some i then bs' ! i = bs ! i else repaired buf len (bs ! i) (bs' ! i) s')"
  using assms
proof (induction bs arbitrary: s used bs' s')
  case Nil
  then show ?case by simp
next
  case (Cons b bs)
  let ?step = "if used = Some 0 then (b, s) else case bucket_refresh ops b buf len s of (ret, b, s) \<Rightarrow>
      (b\<lparr>bkt_buf := [], bkt_len := 0\<rparr>, s)"
  let ?u = "case used of Some (Suc i) \<Rightarrow> Some i | _ \<Rightarrow> None"
  obtain b1 s1 where st: "?step = (b1, s1)" by fastforce
  obtain bs2 s2 where l: "storage_refresh_others ops buf len ?u bs s1 = (bs2, s2)" by fastforce
  have res: "bs' = b1 # bs2" "s' = s2" using Cons.prems(3) st l by simp_all
  have pre: "ok (bkt b) s" "all_ok bs s" "apart_from (bkt b) bs" "fits (place (bkt b)) (take len buf)"
    using Cons.prems(1,2) by (auto simp: all_ok_Cons)
  have b1: "place (bkt b1) = place (bkt b) \<and> ok (bkt b1) s1 \<and> undisturbed (place (bkt b)) s s1
      \<and> (if used = Some 0 then b1 = b else repaired buf len b b1 s1)"
  proof (cases "used = Some 0")
    case True
    then show ?thesis using st pre(1) by (auto simp: undisturbed_def)
  next
    case False
    obtain r b2 t where f: "bucket_refresh ops b buf len s = (r, b2, t)" by (metis prod_cases3)
    then show ?thesis using bucket_refresh_ok [OF pre(1,4) f] st False by (auto simp: repaired_def)
  qed
  have "all_ok bs s1" using undisturbed_all_ok [of _ s s1, OF _ _ pre(2)] b1 apart_from_places [OF pre(3)] by blast
  note ih = Cons.IH [OF this _ l]
  have ap: "apart_from (bkt b1) bs" using pre(3) b1 by (simp add: apart_from_def)
  have "places bs' = places (b # bs) \<and> all_ok bs' s'
      \<and> (\<forall>c. apart_from c (b # bs) \<longrightarrow> (ok c s \<longrightarrow> ok c s') \<and> (\<forall>x. stored c s x \<longrightarrow> stored c s' x))"
    using ih b1 ap Cons.prems(2) apart_from_cong [of bs2 bs "bkt b1" "bkt b1"]
    by (auto simp: res all_ok_Cons apart_from_Cons undisturbed_def)
  moreover have "if used = Some i then bs' ! i = (b # bs) ! i else repaired buf len ((b # bs) ! i) (bs' ! i) s'"
    if "i < length (b # bs)" for i
  proof (cases i)
    case 0
    then show ?thesis using b1 ih ap Cons.prems(2) by (auto simp: res repaired_def)
  next
    case (Suc j)
    have "(?u = Some j) = (used = Some (Suc j))" by (auto split: option.splits nat.splits)
    then show ?thesis using ih that Cons.prems(2) by (auto simp: res Suc)
  qed
  ultimately show ?case by blast
qed

subsection \<open>The whole load\<close>

lemma all_ok_update:
  assumes "all_ok bs s" and "i < length bs" and "place (bkt b') = place (bkt (bs ! i))" and "ok (bkt b') s'"
    and "undisturbed (place (bkt (bs ! i))) s s'"
  shows "all_ok (bs[i := b']) s'" and "places (bs[i := b']) = places bs"
proof -
  show pl: "places (bs[i := b']) = places bs"
    using assms(2,3) by (simp add: places_def map_update list_update_same_conv)
  have "apart (place (bkt (bs ! i))) (place (bkt (bs ! j)))" if "j < length bs" "j \<noteq> i" for j
    using assms(1,2) that apart_sym by (cases "i < j") (auto simp: all_ok_def sorted_wrt_iff_nth_less)
  then have "ok (bkt (bs[i := b'] ! j)) s'" if "j < length bs" for j
    using assms(1,2,4,5) that by (cases "j = i") (auto simp: all_ok_def undisturbed_def)
  then have "\<forall>b \<in> set (bs[i := b']). ok (bkt b) s'" by (metis in_set_conv_nth length_list_update)
  moreover have "sorted_wrt apart (places (bs[i := b']))"
    using assms(1) by (simp add: pl) (simp add: places_def all_ok_def sorted_wrt_map)
  ultimately show "all_ok (bs[i := b']) s'" by (simp add: all_ok_def places_def sorted_wrt_map)
qed

text \<open>The result of a load: the data come from the first bucket with a valid copy, a bucket
  that is known to hold a valid copy gives exactly that copy, and the load only fails when no such
  bucket could be read.\<close>

lemma state_storage_read_data:
  assumes "all_ok bs s" and "contents bs s xs" and "keeps_format vf finv" and "finv f"
    and "state_storage_read ops vf bs s f magic no_auth = (ret, data, bs', s', f')"
  shows "ret = 0 \<Longrightarrow> \<exists>i < length bs.
      first_valid (fst (storage_scan ops vf magic no_auth bs s f)) = Some i
      \<and> (\<forall>x n. xs ! i = Some x \<longrightarrow> valid_copy vf finv magic no_auth x n \<longrightarrow> data = take n x)"
    and "i < length bs \<Longrightarrow> xs ! i = Some x \<Longrightarrow> valid_copy vf finv magic no_auth x n \<Longrightarrow>
      readable (bkt (bs ! i)) x \<Longrightarrow> ret = 0"
proof -
  obtain rets bs1 s1 f1 where sc: "storage_scan ops vf magic no_auth bs s f = (rets, bs1, s1, f1)"
    by (metis prod_cases4)
  note ok = storage_scan_ok [OF assms(1-4) sc]
  have "if first_valid rets = None then ret \<noteq> 0
      else ret = 0 \<and> data = take (bkt_len (bs1 ! the (first_valid rets))) (bkt_buf (bs1 ! the (first_valid rets)))"
    using assms(5) sc by (auto simp: state_storage_read_def Let_def split: option.splits prod.splits if_splits)
  note res = this
  show "\<exists>i < length bs. first_valid (fst (storage_scan ops vf magic no_auth bs s f)) = Some i
      \<and> (\<forall>x n. xs ! i = Some x \<longrightarrow> valid_copy vf finv magic no_auth x n \<longrightarrow> data = take n x)" if "ret = 0"
  proof -
    from res that obtain i where i: "first_valid rets = Some i" by (auto split: if_splits)
    with first_valid_Some [OF i] res ok sc show ?thesis by (intro exI [of _ i]) auto
  qed
  show "ret = 0" if "i < length bs" "xs ! i = Some x" "valid_copy vf finv magic no_auth x n"
      "readable (bkt (bs ! i)) x"
  proof -
    from that ok have "rets ! i = 0" by blast
    moreover have "i < length rets" using that(1) ok by simp
    ultimately have "0 \<in> set rets" by (metis nth_mem)
    then show ?thesis using res first_valid_None [of rets] by (auto split: if_splits)
  qed
qed

text \<open>The state of the buckets after a load.\<close>

lemma state_storage_read_repairs:
  assumes "all_ok bs s" and "keeps_format vf finv" and "finv f"
    and "state_storage_read ops vf bs s f magic no_auth = (0, data, bs', s', f')"
    and "\<forall>p \<in> set (places bs). fits p data"
  obtains rets bs1 s1 u where "storage_scan ops vf magic no_auth bs s f = (rets, bs1, s1, f')"
    and "first_valid rets = Some u" and "u < length bs" and "places bs' = places bs" and "all_ok bs' s'"
    and "\<forall>i < length bs. repaired (bkt_buf (bs1 ! u)) (bkt_len (bs1 ! u)) (bs1 ! i) (bs' ! i) s'"
    and "data = take (bkt_len (bs1 ! u)) (bkt_buf (bs1 ! u))"
proof -
  obtain rets bs1 s1 f1 where sc: "storage_scan ops vf magic no_auth bs s f = (rets, bs1, s1, f1)"
    by (metis prod_cases4)
  have "contents bs s (replicate (length bs) None)" by (simp add: contents_def list_all2_conv_all_nth)
  note ok = storage_scan_ok [OF assms(1) this assms(2,3) sc]
  obtain u where u: "first_valid rets = Some u"
    using assms(4) sc by (auto simp: state_storage_read_def split: option.splits if_splits)
  let ?buf = "bkt_buf (bs1 ! u)" and ?len = "bkt_len (bs1 ! u)"
  have lt: "u < length bs" "length bs1 = length bs"
    using first_valid_Some [OF u] ok places_length [of bs1 bs] by auto
  obtain bs2 s2 where o: "storage_refresh_others ops ?buf ?len (Some u) bs1 s1 = (bs2, s2)" by fastforce
  obtain r b3 s3 where rf: "bucket_refresh ops (bs2 ! u) ?buf ?len s2 = (r, b3, s3)" by (metis prod_cases3)
  have res: "data = take ?len ?buf" "bs' = bs2[u := b3\<lparr>bkt_buf := [], bkt_len := 0\<rparr>]" "s' = s3" "f' = f1"
    using assms(4) sc u o rf by (auto simp: state_storage_read_def Let_def)
  have ok1: "all_ok bs1 s1" and fits: "\<forall>p \<in> set (places bs1). fits p (take ?len ?buf)"
    using ok assms(5) by (auto simp: res(1))
  have ok2: "places bs2 = places bs1" "all_ok bs2 s2"
      "bs2 ! u = bs1 ! u" "\<And>i. i < length bs \<Longrightarrow> i \<noteq> u \<Longrightarrow> repaired ?buf ?len (bs1 ! i) (bs2 ! i) s2"
    using refresh_others_ok [OF ok1 fits o] lt by (simp_all split: if_splits)
  have lt2: "u < length bs2" "length bs2 = length bs"
    using ok2(1) lt places_length [of bs2 bs1] by simp_all
  have "bs2 ! u \<in> set bs2" using lt2(1) by simp
  then have oku: "ok (bkt (bs2 ! u)) s2" "fits (place (bkt (bs2 ! u))) (take ?len ?buf)"
    using ok2(2) fits unfolding ok2(1) [symmetric] by (auto simp: all_ok_def places_def)
  note r3 = bucket_refresh_ok [OF oku rf]
  have "repaired ?buf ?len (bs1 ! i) (bs' ! i) s'" if i: "i < length bs" for i
  proof (cases "i = u")
    case True
    then show ?thesis using r3(4) lt2 unfolding repaired_def res ok2(3) by auto
  next
    case False
    have "apart (place (bkt (bs2 ! u))) (place (bkt (bs2 ! i)))"
      using ok2(2) i False lt2 apart_sym
      by (cases "u < i") (auto simp: all_ok_def sorted_wrt_iff_nth_less)
    with repaired_undisturbed [OF ok2(4) [OF i False] r3(3)] show ?thesis using False by (simp add: res)
  qed
  moreover have "all_ok bs' s'" "places bs' = places bs2"
    using all_ok_update [OF ok2(2) lt2(1) _ _ r3(3), of "b3\<lparr>bkt_buf := [], bkt_len := 0\<rparr>"] r3(1,2)
    by (simp_all add: res)
  moreover have "places bs2 = places bs" using ok2(1) ok by simp
  ultimately show ?thesis
    using that [OF sc [folded res(4)] u lt(1)] res(1) by simp
qed

end

section \<open>Direct buckets keep the contract\<close>

definition direct_place :: "'s bucket_direct \<Rightarrow> nat \<times> nat" where
  "direct_place b = (direct_offset b, direct_max_size b)"

definition direct_apart :: "nat \<times> nat \<Rightarrow> nat \<times> nat \<Rightarrow> bool" where
  "direct_apart p q \<longleftrightarrow> fst p + snd p \<le> fst q \<or> fst q + snd q \<le> fst p"

definition direct_fits :: "nat \<times> nat \<Rightarrow> bytes \<Rightarrow> bool" where
  "direct_fits p buf \<longleftrightarrow> buf \<noteq> [] \<and> length buf + 8 \<le> snd p"

context disk
begin

definition direct_stored :: "'s bucket_direct \<Rightarrow> 's \<Rightarrow> bytes \<Rightarrow> bool" where
  "direct_stored b s buf \<longleftrightarrow> buf \<noteq> [] \<and> direct_holds b s buf"

lemma direct_stored_outside:
  assumes "direct_stored c s x" and "same_outside off len (content s') (content s)"
    and "direct_apart (off, len) (direct_place c)"
  shows "direct_stored c s' x"
proof -
  have "8 + length x \<le> direct_max_size c" using assms(1) by (simp add: direct_stored_def direct_holds_def)
  then have "subbuf (direct_offset c) (8 + length x) (content s') = subbuf (direct_offset c) (8 + length x) (content s)"
    using assms(3) by (intro same_outside_subbuf [OF assms(2)]) (auto simp: direct_apart_def direct_place_def)
  then show ?thesis using assms(1) by (simp add: direct_stored_def direct_holds_def)
qed

lemma direct_bucket_store:
  "bucket_store (direct_ops cfg uninit) direct_ok direct_place direct_apart direct_fits direct_stored direct_stored"
proof
  fix b b' c :: "'s bucket_direct" and s s' ret buf x and data :: bytes
  { assume w: "direct_ok b s" "direct_fits (direct_place b) buf" "op_write (direct_ops cfg uninit) b s buf = (ret, b', s')"
    then have fit: "length buf + 8 \<le> direct_max_size b" "buf \<noteq> []"
      and w': "state_backend_bucket_direct_write cfg b s buf = (ret, b', s')"
      by (auto simp: direct_fits_def direct_place_def direct_ops_def)
    note ok = direct_write_ok [OF w(1) fit(1) w']
    then show "direct_place b' = direct_place b \<and> direct_ok b' s' \<and> (ret = 0 \<longrightarrow> direct_stored b' s' buf)"
      using fit by (auto simp: direct_place_def direct_same_def direct_stored_def)
    assume ap: "direct_apart (direct_place b) (direct_place c)"
    show "(direct_ok c s \<longrightarrow> direct_ok c s') \<and> (direct_stored c s x \<longrightarrow> direct_stored c s' x)
        \<and> (direct_stored c s x \<longrightarrow> direct_stored c s' x)"
      using ok(1) direct_stored_outside [OF _ ok(3)] ap by (auto simp: direct_ok_def direct_place_def) }
  { assume r: "direct_ok b s" "op_read (direct_ops cfg uninit) b s = (ret, data, b', s')"
    then have r': "state_backend_bucket_direct_read cfg uninit b s = (ret, data, b', s')"
      by (simp add: direct_ops_def)
    note fr = direct_read_frame [OF r(1) r'] and rd = direct_read_ok [OF r(1) _ _ r']
    show "direct_place b' = direct_place b \<and> direct_ok b' s'
        \<and> (direct_stored b s x \<and> (ret = 0 \<or> ret = - EUCLEAN) \<longrightarrow> prefix x data)"
      using fr rd direct_same_ok [OF r(1)] r' by (auto simp: direct_place_def direct_same_def direct_stored_def)
    assume "direct_apart (direct_place b) (direct_place c)"
    show "(direct_ok c s \<longrightarrow> direct_ok c s') \<and> (direct_stored c s x \<longrightarrow> direct_stored c s' x)
        \<and> (direct_stored c s x \<longrightarrow> direct_stored c s' x)"
      using fr by (auto simp: direct_ok_def direct_stored_def direct_holds_def) }
qed (auto simp: direct_apart_def)

end


section \<open>Circular buckets keep the contract\<close>

text \<open>A flash whose driver reports no uncorrectable errors, in a build without the extra checks
  of the eraseblock layer: no block is ever tortured.\<close>

locale quiet_flash = flash mtd cells inv for mtd :: "'s mtd_info" and cells inv +
  fixes cfg :: config
  assumes no_chk_io: "\<not> mtd_peb_chk_io cfg"
    and read_quiet: "fst (mtd_read mtd s from len) \<noteq> - EBADMSG"
    and write_quiet: "fst (mtd_write mtd s to buf) \<noteq> - EBADMSG"
begin

lemma peb_read_retry_quiet: "fst (peb_read_retry mtd n s addr len) \<noteq> - EBADMSG"
  using read_quiet [of s addr len] by (cases n) (auto simp: peb_read_retry.simps split: prod.splits if_splits)

lemma mtd_peb_read_quiet: "fst (mtd_peb_read mtd s pnum off len) \<noteq> - EBADMSG"
  using peb_read_retry_quiet by (simp add: mtd_peb_read_def)

lemma mtd_peb_write_quiet: "fst (mtd_peb_write cfg mtd s buf pnum off) \<noteq> - EBADMSG"
  using write_quiet [of s "pnum * erasesize mtd + off" buf] no_chk_io
  by (auto simp: mtd_peb_write_def Let_def split: prod.splits)

lemma state_mtd_peb_read_quiet:
  assumes "mtd_peb_read mtd s (eraseblock circ) off len = (ret, buf, s')"
  shows "state_mtd_peb_read cfg mtd circ s off len = (ret, buf, circ, s')"
  using assms mtd_peb_read_quiet [of s "eraseblock circ" off len] by (simp add: state_mtd_peb_read_def)

lemma state_mtd_peb_write_quiet:
  "state_mtd_peb_write cfg mtd circ s buf off = mtd_peb_write cfg mtd s buf (eraseblock circ) off"
  using mtd_peb_write_quiet [of s buf "eraseblock circ" off]
  by (auto simp: state_mtd_peb_write_def split: prod.splits)

text \<open>A write stays in its eraseblock, and a read changes nothing.\<close>

lemma circular_write_frame:
  assumes "inv s" and "state_backend_bucket_circular_write cfg mtd circ s buf = (ret, circ', s')"
  shows "peb_frame (eraseblock circ) s s'" and "eraseblock circ' = eraseblock circ"
    and "circ_writesize circ' = circ_writesize circ" and "max_size circ' = max_size circ"
proof -
  define wl where "wl = circular_written_length circ (length buf)"
  define circ1 where "circ1 = (if max_size circ \<le> write_area circ + unat wl then circ\<lparr>write_area := 0\<rparr> else circ)"
  obtain r s1 where p: "(if write_area circ1 = 0 then state_mtd_peb_erase cfg mtd circ1 s else (0, s)) = (r, s1)"
    by fastforce
  let ?c2 = "circ1\<lparr>write_area := write_area circ1 + unat wl\<rparr>"
  obtain r2 s2 where w: "mtd_peb_write cfg mtd s1 (circular_write_buf wl buf) (eraseblock circ) (write_area circ1) = (r2, s2)"
    by fastforce
  have eb: "eraseblock circ1 = eraseblock circ" "circ_writesize circ1 = circ_writesize circ"
      "max_size circ1 = max_size circ"
    by (simp_all add: circ1_def)
  have "(circ', s') = (circ, s) \<or> (circ', s') = (circ1, s1) \<or> (circ', s') = (?c2, s2)"
    using assms(2) p w unfolding state_backend_bucket_circular_write_def Let_def
    by (auto simp: wl_def [symmetric] circ1_def [symmetric] state_mtd_peb_write_quiet eb split: if_splits)
  moreover have f1: "peb_frame (eraseblock circ) s s1"
    using p mtd_peb_erase_ok(1) [OF assms(1)] peb_frame_refl [OF assms(1)]
    by (auto simp: state_mtd_peb_erase_def eb split: if_splits)
  moreover have "peb_frame (eraseblock circ) s s2"
    using peb_frame_trans [OF f1 mtd_peb_write_frame(1) [OF peb_frame_inv [OF f1] w]] .
  ultimately show "peb_frame (eraseblock circ) s s'" using peb_frame_refl [OF assms(1)] by auto
  show "eraseblock circ' = eraseblock circ" "circ_writesize circ' = circ_writesize circ"
      "max_size circ' = max_size circ"
    using \<open>(circ', s') = (circ, s) \<or> _\<close> eb by auto
qed

lemma circular_read_frame:
  assumes "circ_ok circ s" and "state_backend_bucket_circular_read cfg mtd circ s = (ret, data, circ', s')"
  shows "inv s' \<and> cells s' = cells s \<and> circ_ok circ' s'
    \<and> eraseblock circ' = eraseblock circ \<and> circ_writesize circ' = circ_writesize circ"
proof -
  have inv: "inv s" using assms(1) by (simp add: circ_ok_def)
  have rd: "\<exists>r b t. state_mtd_peb_read cfg mtd c s off len = (r, b, c, t) \<and> inv t \<and> cells t = cells s" for c off len
  proof -
    obtain r b t where "mtd_peb_read mtd s (eraseblock c) off len = (r, b, t)" by (metis prod_cases3)
    with mtd_peb_read_ok [OF inv this] state_mtd_peb_read_quiet [OF this] peb_frame_inv show ?thesis by blast
  qed
  define old where "old = (last_written_length circ = 0)"
  define bad where "bad = (\<not> old \<and> (write_area circ < unat (last_written_length circ)
      \<or> unat (last_written_length circ) mod circ_writesize circ \<noteq> 0))"
  define len where "len = (if old then min (write_area circ) (max_size circ - 8) else unat (last_written_length circ))"
  define c1 where "c1 = (if old \<or> bad then circ\<lparr>write_area := 0\<rparr> else circ)"
  obtain r b t where t: "state_mtd_peb_read cfg mtd c1 s (if old then 0 else write_area circ - len) len = (r, b, c1, t)"
    and same: "inv t" "cells t = cells s" using rd by metis
  have "(circ', s') = (circ, s) \<or> (circ', s') = (c1, s) \<or> (circ', s') = (c1, t)"
    using assms(2) t
    unfolding state_backend_bucket_circular_read_def Let_def old_def [symmetric] bad_def [symmetric]
      len_def [symmetric] c1_def [symmetric]
    by (simp split: if_splits)
  then have "(circ' = circ \<or> circ' = circ\<lparr>write_area := 0\<rparr>) \<and> inv s' \<and> cells s' = cells s"
    using same inv by (auto simp: c1_def split: if_splits)
  then show ?thesis using assms(1) by (auto simp: circ_ok_def circ_geometry_def)
qed

end

definition circ_place :: "bucket_circular \<Rightarrow> nat \<times> nat" where
  "circ_place circ = (eraseblock circ, circ_writesize circ)"

definition circ_apart :: "nat \<times> nat \<Rightarrow> nat \<times> nat \<Rightarrow> bool" where
  "circ_apart p q \<longleftrightarrow> fst p \<noteq> fst q"

definition circ_fits :: "nat \<times> nat \<Rightarrow> bytes \<Rightarrow> bool" where
  "circ_fits p buf \<longleftrightarrow> length buf + 8 + snd p \<le> 2 ^ 32"

context quiet_flash
begin

definition circ_stored :: "bucket_circular \<Rightarrow> 's \<Rightarrow> bytes \<Rightarrow> bool" where
  "circ_stored circ s buf \<longleftrightarrow> (\<exists>wl. circ_holds circ s wl buf)"

definition circ_ready :: "bucket_circular \<Rightarrow> 's \<Rightarrow> bytes \<Rightarrow> bool" where
  "circ_ready circ s buf \<longleftrightarrow> circ_holds circ s (last_written_length circ) buf"

lemma circ_other:
  assumes "inv s'" and "peb s' (eraseblock c) = peb s (eraseblock c)"
  shows "(circ_ok c s \<longrightarrow> circ_ok c s') \<and> (circ_stored c s x \<longrightarrow> circ_stored c s' x)
    \<and> (circ_ready c s x \<longrightarrow> circ_ready c s' x)"
  using assms by (auto simp: circ_stored_def circ_ready_def circ_holds_def circ_ok_def)

lemma circular_ready_read:
  assumes "circ_ready circ s x" and "state_backend_bucket_circular_read cfg mtd circ s = (ret, data, circ', s')"
    and "ret = 0 \<or> ret = - EUCLEAN"
  shows "prefix x data"
proof -
  let ?wl = "last_written_length circ"
  from assms(1) have h: "circ_holds circ s ?wl x" by (simp add: circ_ready_def)
  obtain r b t where rd: "mtd_peb_read mtd s (eraseblock circ) (write_area circ - unat ?wl) (unat ?wl) = (r, b, t)"
    by (metis prod_cases3)
  have "unat ?wl \<noteq> 0" "?wl \<noteq> 0" "unat ?wl \<le> write_area circ" "write_area circ \<noteq> 0" "circ_writesize circ dvd unat ?wl"
    using h by (auto simp: circ_holds_def)
  then have "r = ret"
    using assms(2,3) state_mtd_peb_read_quiet [OF rd]
    by (auto simp: state_backend_bucket_circular_read_def Let_def dvd_eq_mod_eq_0 split: if_splits)
  then show ?thesis using circular_read_holds [OF h refl rd] assms(2,3) by auto
qed

lemma circular_bucket_store:
  "bucket_store (circular_ops cfg mtd) circ_ok circ_place circ_apart circ_fits circ_stored circ_ready"
proof
  fix b b' c and s s' ret buf x and data :: bytes
  { assume w: "circ_ok b s" "circ_fits (circ_place b) buf" "op_write (circular_ops cfg mtd) b s buf = (ret, b', s')"
    then have fit: "length buf + 8 + circ_writesize b \<le> 2 ^ 32" and inv: "inv s"
      and w': "state_backend_bucket_circular_write cfg mtd b s buf = (ret, b', s')"
      by (auto simp: circ_fits_def circ_place_def circular_ops_def circ_ok_def)
    note fr = circular_write_frame [OF inv w']
    show "circ_place b' = circ_place b \<and> circ_ok b' s' \<and> (ret = 0 \<longrightarrow> circ_stored b' s' buf)"
      using fr circular_write_keeps [OF w(1) fit mtd_peb_write_quiet w'] circular_write_holds [OF w(1) fit] w'
      by (auto simp: circ_place_def circ_stored_def)
    assume ap: "circ_apart (circ_place b) (circ_place c)"
    show "(circ_ok c s \<longrightarrow> circ_ok c s') \<and> (circ_stored c s x \<longrightarrow> circ_stored c s' x)
        \<and> (circ_ready c s x \<longrightarrow> circ_ready c s' x)"
      using ap peb_frame_other [OF fr(1), of "eraseblock c"] peb_frame_inv [OF fr(1)]
      by (intro circ_other) (auto simp: circ_apart_def circ_place_def) }
  { assume r: "circ_ok b s" "op_read (circular_ops cfg mtd) b s = (ret, data, b', s')"
    then have r': "state_backend_bucket_circular_read cfg mtd b s = (ret, data, b', s')"
      by (simp add: circular_ops_def)
    note fr = circular_read_frame [OF r(1) r']
    have "prefix x data" if "circ_ready b s x" "ret = 0 \<or> ret = - EUCLEAN"
      using circular_ready_read [OF that(1) r' that(2)] by auto
    then show "circ_place b' = circ_place b \<and> circ_ok b' s'
        \<and> (circ_ready b s x \<and> (ret = 0 \<or> ret = - EUCLEAN) \<longrightarrow> prefix x data)"
      using fr by (auto simp: circ_place_def)
    assume "circ_apart (circ_place b) (circ_place c)"
    show "(circ_ok c s \<longrightarrow> circ_ok c s') \<and> (circ_stored c s x \<longrightarrow> circ_stored c s' x)
        \<and> (circ_ready c s x \<longrightarrow> circ_ready c s' x)"
      using fr by (intro circ_other) (auto simp: peb_of_def) }
qed (auto simp: circ_apart_def)

end


section \<open>Instances\<close>

text \<open>A medium without errors.\<close>

locale reliable_store = bucket_store +
  assumes write_reliable: "ok b s \<Longrightarrow> fits (place b) buf \<Longrightarrow> fst (op_write ops b s buf) = 0"
    and read_reliable: "ok b s \<Longrightarrow> holds b s x \<Longrightarrow> fst (op_read ops b s) \<in> {0, - EUCLEAN}"
begin

lemma write_loop_reliable:
  "all_ok bs s \<Longrightarrow> \<forall>p \<in> set (places bs). fits p buf \<Longrightarrow>
     fst (storage_write_loop ops buf bs s n) = n + length bs"
proof (induction bs arbitrary: s n)
  case (Cons b bs)
  obtain r bk s1 where w: "op_write ops (bkt b) s buf = (r, bk, s1)" by (metis prod_cases3)
  have pre: "ok (bkt b) s" "fits (place (bkt b)) buf" "all_ok bs s" "apart_from (bkt b) bs"
    using Cons.prems by (auto simp: all_ok_Cons)
  have "undisturbed (place (bkt b)) s s1" using write_frame [OF pre(1,2) w] by (simp add: undisturbed_def)
  then have "all_ok bs s1" using undisturbed_all_ok [OF _ _ pre(3)] apart_from_places [OF pre(4)] by blast
  moreover have "r = 0" using write_reliable [OF pre(1,2)] w by simp
  ultimately show ?case using Cons.IH [of s1 "n + 1"] Cons.prems(2) w by (auto split: prod.splits)
qed simp

lemma all_readable: "readable b x"
  using read_reliable by (simp add: readable_def)

lemma save_reaches_all:
  assumes "all_ok bs s" and "bs \<noteq> []" and "\<forall>p \<in> set (places bs). fits p buf"
  obtains bs' s' where "state_storage_write ops False bs s buf = (0, bs', s')" and "all_ok bs' s'"
    and "places bs' = places bs" and "\<forall>b \<in> set bs'. stored (bkt b) s' buf"
proof -
  obtain m bs1 s1 where l: "storage_write_loop ops buf bs s 0 = (m, bs1, s1)" by (metis prod_cases3)
  have m: "m = length bs" using write_loop_reliable [OF assms(1,3), of 0] l by simp
  show ?thesis
  proof (rule that [of bs1 s1])
    show "state_storage_write ops False bs s buf = (0, bs1, s1)"
      using l m assms(2) by (simp add: state_storage_write_def Suc_le_eq)
  qed (use write_loop_ok [OF assms(1,3) l] m in simp_all)
qed

lemma load_finds_copy:
  assumes "all_ok bs s" and "bs \<noteq> []" and "\<forall>b \<in> set bs. holds (bkt b) s x" and "keeps_format vf finv" and "finv f"
    and "valid_copy vf finv magic no_auth x n"
  obtains bs' s' f' where "state_storage_read ops vf bs s f magic no_auth = (0, take n x, bs', s', f')"
proof -
  obtain ret data bs' s' f' where r: "state_storage_read ops vf bs s f magic no_auth = (ret, data, bs', s', f')"
    by (metis prod_cases5)
  let ?xs = "replicate (length bs) (Some x)"
  have c: "contents bs s ?xs" using assms(3) by (simp add: contents_def list_all2_conv_all_nth)
  note rd = state_storage_read_data [OF assms(1) c assms(4,5) r]
  have ret: "ret = 0" using rd(2) [of 0, OF _ _ assms(6) all_readable] assms(2) by simp
  then obtain i where "i < length bs"
      "\<And>y k. ?xs ! i = Some y \<Longrightarrow> valid_copy vf finv magic no_auth y k \<Longrightarrow> data = take k y"
    using rd(1) by blast
  then have "data = take n x" using assms(6) by simp
  then show ?thesis using that r ret by simp
qed

end

interpretation mtdram_direct: bucket_store "direct_ops cfg uninit"
    "disk.direct_ok (mtd_cdev (mtdram_probe sz)) (\<lambda>mem. length mem = sz)" direct_place direct_apart direct_fits
    "disk.direct_stored (\<lambda>mem. mem)" "disk.direct_stored (\<lambda>mem. mem)"
  for cfg uninit sz
  by (rule mtdram_disk.direct_bucket_store)

text \<open>On the RAM device nothing fails.\<close>

abbreviation ram_open :: "nat \<Rightarrow> bytes vfile \<Rightarrow> bool" where
  "ram_open sz f \<equiv> disk.is_open (mtd_cdev (mtdram_probe sz)) f \<and> f_mode f = O_RDWR"

lemma ram_cdev_sz [simp]: "cdev_sz (mtd_cdev (mtdram_probe sz)) = sz"
  by (simp add: mtd_cdev_def mtdram_probe_def ram_mtd_def)

lemma ram_cdev_lseek: "cdev_lseek (mtd_cdev mtd) s pos = 0"
  by (simp add: cdev_lseek_def mtd_cdev_def)

lemma ram_write_full:
  assumes "ram_open sz f" and "length mem = sz" and "f_pos f + length buf \<le> sz"
  shows "fst (write_full f mem buf) = int (length buf)"
proof (cases "buf = []")
  case False
  have "f_cdev f = mtd_cdev (mtdram_probe sz)" "f_size f = sz" "\<not> f_stream f"
    using assms(1) by (auto simp: mtdram_disk.is_open_def)
  moreover have "\<not> sz \<le> f_pos f" using assms(3) False by (cases buf) auto
  ultimately show ?thesis
    using assms(2,3) conjunct2 [OF assms(1)] False
    by (simp add: write_full.simps fd_write_def vfs_write_def devfs_write_def cdev_write_def mtd_cdev_def
        mtd_op_write_def mtd_write_def mtdram_probe_def ram_mtd_def ram_write_def)
qed (simp add: write_full.simps)

lemma ram_read_full:
  assumes "ram_open sz f" and "length mem = sz" and "f_pos f + n \<le> sz"
  shows "fst (read_full f mem n) = int n"
proof (cases "n = 0")
  case False
  have "f_cdev f = mtd_cdev (mtdram_probe sz)" "f_size f = sz" "\<not> f_stream f"
    using assms(1) by (auto simp: mtdram_disk.is_open_def)
  then show ?thesis
    using assms(2,3) conjunct2 [OF assms(1)] False
    by (simp add: read_full.simps fd_read_def vfs_read_def devfs_read_def cdev_read_def mtd_cdev_def
        mtd_op_read_def mtd_read_def mtd_read_oob_def mtdram_probe_def ram_mtd_def ram_read_def)
qed (simp add: read_full.simps)

lemma ram_lseek:
  "ram_open sz f \<Longrightarrow> pos \<le> sz \<Longrightarrow> lseek_set f mem pos = Inr (f\<lparr>f_pos := pos\<rparr>)"
  by (auto simp: mtdram_disk.is_open_def lseek_set_def ram_cdev_lseek Let_def)

lemma ram_direct_write:
  assumes "disk.direct_ok (mtd_cdev (mtdram_probe sz)) (\<lambda>mem. length mem = sz) b mem" and "direct_fits (direct_place b) buf"
  shows "fst (state_backend_bucket_direct_write cfg b mem buf) = 0"
proof -
  let ?f = "(direct_fd b)\<lparr>f_pos := direct_offset b\<rparr>" and ?m = "direct_meta_bytes (of_nat (length buf))"
  have ok: "ram_open sz ?f" "length mem = sz" "8 + length buf \<le> direct_max_size b" "direct_offset b + direct_max_size b \<le> sz"
    using assms
    by (auto simp: mtdram_disk.direct_ok_def direct_fits_def direct_place_def
        mtdram_disk.is_open_def)
  obtain r1 f1 mem1 where w: "write_full ?f mem ?m = (r1, f1, mem1)" by (metis prod_cases3)
  have r1: "r1 = 8" using ram_write_full [OF ok(1,2), of ?m] ok(3,4) w by simp
  have w1: "length mem1 = sz \<and> f1 = ?f\<lparr>f_pos := direct_offset b + 8\<rparr>"
    using mtdram_disk.write_full_ok [OF _ _ _ _ w, of sz] ok r1 by simp
  have f1: "ram_open sz f1" using w1 ok(1) by (simp add: mtdram_disk.is_open_def)
  obtain r2 f2 mem2 where w2: "write_full f1 mem1 buf = (r2, f2, mem2)" by (metis prod_cases3)
  have "r2 = int (length buf)" using ram_write_full [OF f1, of mem1 buf] w1 ok(3,4) w2 by simp
  moreover have "f_cdev f2 = mtd_cdev (mtdram_probe sz)"
    using mtdram_disk.write_full_ok [OF _ _ _ _ w2, of sz] f1 w1 ok(3,4)
    by (auto simp: mtdram_disk.is_open_def)
  then have "fst (fd_flush f2 mem2) = 0"
    by (simp add: fd_flush_def cdev_flush_def mtd_cdev_def)
  moreover have "lseek_set (direct_fd b) mem (direct_offset b) = Inr ?f"
    using ok(1,3,4) by (intro ram_lseek) (auto simp: mtdram_disk.is_open_def)
  moreover have "length buf \<le> direct_head_room b" using ok(3) by (simp add: direct_head_room_def)
  ultimately show ?thesis
    using w r1 w2 by (simp add: state_backend_bucket_direct_write_def direct_write_data_def prod.case_eq_if Let_def)
qed

lemma ram_direct_read:
  assumes "disk.direct_ok (mtd_cdev (mtdram_probe sz)) (\<lambda>mem. length mem = sz) b mem"
    and "disk.direct_stored (\<lambda>mem. mem) b mem x"
  shows "fst (state_backend_bucket_direct_read cfg uninit b mem) = 0"
proof -
  let ?f = "(direct_fd b)\<lparr>f_pos := direct_offset b\<rparr>" and ?m = "direct_meta_bytes (of_nat (length x))"
  have ok: "ram_open sz ?f" "length mem = sz" "8 + length x \<le> direct_max_size b" "direct_offset b + direct_max_size b \<le> sz"
      "direct_max_size b < 2 ^ 32" "x \<noteq> []" "subbuf (direct_offset b) (8 + length x) mem = ?m @ x"
    using assms
    by (auto simp: mtdram_disk.direct_ok_def mtdram_disk.direct_stored_def mtdram_disk.direct_holds_def
        mtdram_disk.is_open_def)
  have m: "subbuf (direct_offset b) 8 mem = ?m"
    using arg_cong [OF ok(7), of "take 8"] by (simp add: subbuf_def)
  obtain r1 d f1 mem1 where r: "read_full ?f mem 8 = (r1, d, f1, mem1)" by (metis prod_cases4)
  have r1: "r1 = 8" using ram_read_full [OF ok(1,2), of 8] ok(3,4) r by simp
  have d1: "length mem1 = sz \<and> d = ?m \<and> f1 = ?f\<lparr>f_pos := direct_offset b + 8\<rparr>"
    using mtdram_disk.read_full_ok [OF _ _ _ _ r, of sz] ok r1 m by simp
  have f1: "ram_open sz f1" using d1 ok(1) by (simp add: mtdram_disk.is_open_def)
  have "fst (read_full f1 mem1 (length x)) = int (length x)"
    using ram_read_full [OF f1, of mem1 "length x"] d1 ok(3,4) by simp
  moreover have "lseek_set (direct_fd b) mem (direct_offset b) = Inr ?f"
    using ok(1,3,4) by (intro ram_lseek) (auto simp: mtdram_disk.is_open_def)
  moreover have "unat (of_nat (length x) :: u32) = length x" "of_le32 (subbuf 0 4 ?m) = direct_magic"
      "of_le32 (subbuf 4 4 ?m) = of_nat (length x)"
    using ok(3,5) by (simp_all add: unat_of_nat direct_meta_bytes_def codec_simps)
  ultimately show ?thesis
    using ok(3,6) r r1 d1
    by (simp add: state_backend_bucket_direct_read_def direct_read_data_def prod.case_eq_if Let_def)
qed

interpretation mtdram_reliable: reliable_store "direct_ops cfg uninit"
    "disk.direct_ok (mtd_cdev (mtdram_probe sz)) (\<lambda>mem. length mem = sz)" direct_place direct_apart direct_fits
    "disk.direct_stored (\<lambda>mem. mem)" "disk.direct_stored (\<lambda>mem. mem)"
  for cfg uninit sz
  by unfold_locales (simp_all add: direct_ops_def ram_direct_write ram_direct_read)

sublocale disk \<subseteq> direct: bucket_store "direct_ops cfg uninit" direct_ok direct_place direct_apart direct_fits
    direct_stored direct_stored
  for cfg uninit
  by (rule direct_bucket_store)

sublocale quiet_flash \<subseteq> circ: bucket_store "circular_ops cfg mtd" circ_ok circ_place circ_apart circ_fits
    circ_stored circ_ready
  by (rule circular_bucket_store)

interpretation quiet_ram: quiet_flash "ram_mtd sz eb ws bad" "\<lambda>mem. mem"
    "\<lambda>mem. length mem = mtd_size (ram_mtd sz eb ws bad)" "demo_config"
  for sz eb ws bad
  by unfold_locales
    (auto simp: demo_config_def mtd_read_def mtd_read_oob_def mtd_write_def ram_mtd_def ram_read_def ram_write_def)


section \<open>The buckets of a fresh start\<close>

lemma circular_scan_erased:
  assumes "8 \<le> ws" and "ws dvd area" and "area \<le> length B" and "erased (drop area B)"
    and "circular_scan ws B area = (a, len, wrong)"
  shows "ws dvd a \<and> a \<le> area \<and> erased (drop a B)"
  using assms(2-)
proof (induction area rule: less_induct)
  case (less area)
  show ?case
  proof (cases "ws \<le> area \<and> mtd_buf_all_ff (area - ws) (subbuf (area - ws) ws B)")
    case True
    have "subbuf (area - ws) ws B \<noteq> []" using True assms(1) less.prems(2) by (auto simp: subbuf_def)
    with True have "erased (subbuf (area - ws) ws B)" by (simp add: mtd_buf_all_ff_iff)
    moreover have "drop (area - ws) B = subbuf (area - ws) ws B @ drop area B"
      using True unfolding subbuf_def by (metis append_take_drop_id drop_drop le_add_diff_inverse)
    ultimately have e: "erased (drop (area - ws) B)" using less.prems(3) by (simp add: list_all_append)
    have "circular_scan ws B (area - ws) = (a, len, wrong)"
      using less.prems(4) True assms(1) by (simp add: circular_scan.simps [of ws B area])
    moreover have "ws dvd area - ws" using less.prems(1) by (simp add: dvd_diff_nat)
    ultimately show ?thesis using less.IH [of "area - ws"] e True assms(1) less.prems(2) by fastforce
  next
    case False
    then have "a = area"
      using less.prems(4) assms(1) by (auto simp: circular_scan.simps [of ws B area] Let_def split: if_splits)
    then show ?thesis using less.prems by simp
  qed
qed

context quiet_flash
begin

text \<open>A bucket that was created is fit for use, whatever was in its eraseblock.\<close>

lemma circular_create_ok:
  assumes "inv s" and "max 8 ws dvd erasesize mtd" and "eb * erasesize mtd + erasesize mtd \<le> mtd_size mtd"
    and "state_backend_bucket_circular_create cfg mtd s eb ws = (ret, circ, s')"
  shows "inv s' \<and> cells s' = cells s \<and> (ret = 0 \<longrightarrow> circ_ok circ s' \<and> circ_place circ = (eb, max 8 ws))"
proof -
  define c0 where "c0 = \<lparr>eraseblock = eb, circ_writesize = max 8 ws, max_size = erasesize mtd, write_area = 0,
      last_written_length = 0, wrong_magic = False\<rparr>"
  have c0': "\<lparr>eraseblock = eb, circ_writesize = (if ws < 8 then 8 else ws), max_size = erasesize mtd, write_area = 0,
      last_written_length = 0, wrong_magic = False\<rparr> = c0" by (auto simp: c0_def)
  have f: "eraseblock c0 = eb" "circ_writesize c0 = max 8 ws" "max_size c0 = erasesize mtd" by (simp_all add: c0_def)
  have g: "circ_geometry c0" using assms(2,3) by (simp add: circ_geometry_def f)
  obtain r b t where rd: "mtd_peb_read mtd s eb 0 (erasesize mtd) = (r, b, t)" by (metis prod_cases3)
  note ok = mtd_peb_read_ok [OF assms(1) rd]
  have t: "inv t" "cells t = cells s" using ok peb_frame_inv by auto
  obtain a l w where sc: "circular_scan (max 8 ws) b (erasesize mtd) = (a, l, w)" by (metis prod_cases3)
  have rd': "state_mtd_peb_read cfg mtd c0 s 0 (max_size c0) = (r, b, c0, t)"
    by (rule state_mtd_peb_read_quiet) (simp add: f rd)
  have res: "(circ, s') = (c0, s) \<and> ret \<noteq> 0 \<or> ret \<noteq> 0 \<and> (circ, s') = (c0, t)
      \<or> (r = 0 \<or> r = - EUCLEAN) \<and> (ret, circ, s') = (0, c0\<lparr>write_area := a, last_written_length := l,
           wrong_magic := wrong_magic c0 \<or> w\<rparr>, t)"
    using assms(4) rd' sc
    by (auto simp: state_backend_bucket_circular_create_def c0' state_backend_bucket_circular_init_def f split: if_splits)
  have "circ_ok (c0\<lparr>write_area := a, last_written_length := l, wrong_magic := w'\<rparr>) t" if "r = 0 \<or> r = - EUCLEAN" for w'
  proof -
    have b: "b = peb s eb" using ok(3) that by (simp add: peb_of_def)
    have len: "length b = erasesize mtd" using length_peb [OF assms(1) g] by (simp add: b f)
    have "max 8 ws dvd a \<and> a \<le> erasesize mtd \<and> erased (drop a b)"
      using sc assms(2) len by (intro circular_scan_erased [of "max 8 ws" "erasesize mtd" b]) auto
    then show ?thesis using g t by (simp add: circ_ok_def circ_geometry_def f b peb_of_def)
  qed
  then show ?thesis using res t assms(1) f by (auto simp: circ_place_def)
qed

lemma storage_mtd_buckets_ok:
  assumes "inv s" and "max 8 ws dvd erasesize mtd" and "0 < erasesize mtd" and "limit \<le> mtd_size mtd"
    and "erasesize mtd dvd offset" and "erasesize mtd dvd mtd_size mtd" and "n < 3"
    and "storage_mtd_buckets cfg mtd ws offset limit n s = (bs, s')"
  shows "inv s' \<and> cells s' = cells s \<and> circ.all_ok bs s' \<and> n + length bs \<le> 3
    \<and> (\<forall>b \<in> set bs. offset \<le> eraseblock (bkt b) * erasesize mtd \<and> eraseblock (bkt b) * erasesize mtd < limit)"
  using assms
proof (induction "limit - offset" arbitrary: offset n s bs s' rule: less_induct)
  case less
  show ?case
  proof (cases "limit \<le> offset")
    case True
    then have "bs = [] \<and> s' = s" using less.prems(8) by (simp add: storage_mtd_buckets.simps [of cfg mtd ws offset])
    then show ?thesis using less.prems(1,7) by (simp add: circ.all_ok_def)
  next
    case False
    let ?eb = "offset div erasesize mtd" and ?o = "offset + erasesize mtd"
    obtain k where k: "offset = k * erasesize mtd" using less.prems(5) by (metis dvd_div_mult_self)
    then have eb: "?eb = k" using less.prems(3) by simp
    obtain m where m: "mtd_size mtd = m * erasesize mtd" using less.prems(6) by (metis dvd_div_mult_self)
    have "k < m" using False less.prems(3,4) unfolding k m by (metis leD leI le_trans mult_le_mono1)
    then have "(k + 1) * erasesize mtd \<le> m * erasesize mtd" by (intro mult_le_mono1) simp
    then have inside: "?eb * erasesize mtd + erasesize mtd \<le> mtd_size mtd" unfolding eb m by (simp add: algebra_simps)
    obtain r b s1 where c: "state_backend_bucket_circular_create cfg mtd s ?eb ws = (r, b, s1)" by (metis prod_cases3)
    note ok = circular_create_ok [OF less.prems(1,2) inside c]
    have rec: "inv s2 \<and> cells s2 = cells s1 \<and> circ.all_ok bs2 s2 \<and> n2 + length bs2 \<le> 3
        \<and> (\<forall>b \<in> set bs2. ?o \<le> eraseblock (bkt b) * erasesize mtd \<and> eraseblock (bkt b) * erasesize mtd < limit)"
      if "storage_mtd_buckets cfg mtd ws ?o limit n2 s1 = (bs2, s2)" "n2 < 3" for n2 bs2 s2
      using less.hyps [OF _ _ less.prems(2-4) _ less.prems(6) that(2,1)] False less.prems(3,5) ok by simp
    show ?thesis
    proof (cases "r \<noteq> 0")
      case True
      then have "storage_mtd_buckets cfg mtd ws ?o limit n s1 = (bs, s')"
        using less.prems(3,8) False c by (simp add: storage_mtd_buckets.simps [of cfg mtd ws offset])
      from rec [OF this less.prems(7)] ok show ?thesis by auto
    next
      case r0: False
      have bo: "circ_ok b s1" "eraseblock b = k" using ok r0 eb by (auto simp: circ_place_def)
      show ?thesis
      proof (cases "2 \<le> n")
        case True
        then have "bs = [new_bucket b] \<and> s' = s1"
          using less.prems(3,8) False c r0 by (simp add: storage_mtd_buckets.simps [of cfg mtd ws offset])
        then show ?thesis
          using bo ok False True less.prems(7) k by (simp add: circ.all_ok_def new_bucket_def)
      next
        case n2: False
        obtain bs2 s2 where l: "storage_mtd_buckets cfg mtd ws ?o limit (n + 1) s1 = (bs2, s2)" by fastforce
        then have res: "bs = new_bucket b # bs2" "s' = s2"
          using less.prems(3,8) False c r0 n2 by (simp_all add: storage_mtd_buckets.simps [of cfg mtd ws offset])
        have ih: "inv s2 \<and> cells s2 = cells s1 \<and> circ.all_ok bs2 s2 \<and> n + 1 + length bs2 \<le> 3
            \<and> (\<forall>b \<in> set bs2. ?o \<le> eraseblock (bkt b) * erasesize mtd \<and> eraseblock (bkt b) * erasesize mtd < limit)"
          using n2 by (intro rec [OF l]) simp
        have "circ_ok b s2" using bo(1) ih by (simp add: circ_ok_def peb_of_def)
        moreover have "circ.apart_from b bs2"
          using ih bo(2) less.prems(3) k by (fastforce simp: circ.apart_from_def circ.places_def circ_apart_def circ_place_def)
        moreover have "\<forall>b \<in> set bs2. offset \<le> eraseblock (bkt b) * erasesize mtd" using ih by fastforce
        ultimately show ?thesis
          using ih ok False k bo(2) by (auto simp: res circ.all_ok_Cons new_bucket_def)
      qed
    qed
  qed
qed

end

context disk
begin

lemma file_buckets_ok:
  assumes "inv s" and "state_storage_file_buckets_init (Some cdev) offset max_sz stride False = (0, bs)"
    and "8 \<le> stride" and "3 * unat stride < 2 ^ 32" and "offset + 3 * unat stride \<le> cdev_sz cdev"
  shows "length bs = 3" and "direct.all_ok bs s"
    and "direct.places bs = map (\<lambda>n. (offset + n * unat stride, unat stride)) [0, 1, 2]"
proof -
  have "unat (3 * stride) = 3 * unat stride" "unat (2 * stride) = 2 * unat stride"
    using assms(4) by (simp_all add: unat_word_ariths take_bit_eq_mod)
  moreover have "8 \<le> unat stride" using assms(3) by (simp add: word_le_nat_alt)
  moreover note is_open_devfs_open [of O_RDWR]
  moreover have "[0..<3] = [0, 1, 2 :: nat]" by (simp add: upt_rec)
  ultimately show "length bs = 3" "direct.all_ok bs s"
      "direct.places bs = map (\<lambda>n. (offset + n * unat stride, unat stride)) [0, 1, 2]"
    using assms
    by (auto simp: state_storage_file_buckets_init_def direct.all_ok_def direct.places_def direct_ok_def direct_place_def
        direct_apart_def new_bucket_def state_backend_bucket_direct_create_def devfs_open_def split: if_splits)
qed

end

section \<open>Interrupted saves\<close>

context bucket_store
begin

lemma all_ok_places: "all_ok bs s \<longleftrightarrow> (\<forall>b \<in> set bs. ok (bkt b) s) \<and> sorted_wrt apart (places bs)"
  by (simp add: all_ok_def places_def sorted_wrt_map)

lemma places_append [simp]: "places (xs @ ys) = places xs @ places ys"
  by (simp add: places_def)

text \<open>The power fails while the bucket behind \<open>bs1\<close> is written: its place may hold anything.\<close>

lemma interrupted_buckets:
  assumes "all_ok (bs1 @ b # bs2) s" and "\<forall>c \<in> set bs2. stored (bkt c) s old" and "\<forall>p \<in> set (places bs1). fits p new"
    and "storage_write_loop ops new bs1 s 0 = (length bs1, bs1', s1)"
    and "undisturbed (place (bkt b)) s1 s2" and "ok (bkt b') s2" and "place (bkt b') = place (bkt b)"
  shows "all_ok (bs1' @ b' # bs2) s2" and "\<forall>c \<in> set bs1'. stored (bkt c) s2 new"
    and "\<forall>c \<in> set bs2. stored (bkt c) s2 old" and "length bs1' = length bs1"
proof -
  have ok: "all_ok bs1 s" and sorted: "sorted_wrt apart (places bs1 @ place (bkt b) # places bs2)"
    and ok2: "\<forall>c \<in> set bs2. ok (bkt c) s"
    using assms(1) by (auto simp: all_ok_places sorted_wrt_append)
  note w = write_loop_ok [OF ok assms(3,4)]
  show len: "length bs1' = length bs1" using w places_length by blast
  have b1: "apart (place (bkt b)) (place (bkt c))" if "c \<in> set bs1'" for c
  proof -
    have "place (bkt c) \<in> set (places bs1)" using that w by (metis image_eqI list.set_map places_def)
    then show ?thesis using sorted apart_sym by (auto simp: sorted_wrt_append)
  qed
  have b2: "apart (place (bkt b)) (place (bkt c)) \<and> apart_from (bkt c) bs1" if "c \<in> set bs2" for c
    using that sorted by (auto simp: sorted_wrt_append apart_from_def places_def)
  show new: "\<forall>c \<in> set bs1'. stored (bkt c) s2 new" using w b1 assms(5) by (simp add: undisturbed_def)
  show old: "\<forall>c \<in> set bs2. stored (bkt c) s2 old" using w b2 assms(2,5) by (simp add: undisturbed_def)
  have "\<forall>c \<in> set (bs1' @ b' # bs2). ok (bkt c) s2"
    using w b1 b2 ok2 assms(5,6) by (auto simp: undisturbed_def all_ok_def)
  moreover have "places (bs1' @ b' # bs2) = places (bs1 @ b # bs2)" using w assms(7) by simp
  ultimately show "all_ok (bs1' @ b' # bs2) s2" using assms(1) by (simp add: all_ok_places)
qed

lemma load_after_power_cut:
  assumes "holds = stored" and "all_ok (bs1 @ b # bs2) s" and "\<forall>c \<in> set bs2. stored (bkt c) s old"
    and "\<forall>p \<in> set (places bs1). fits p new" and "storage_write_loop ops new bs1 s 0 = (length bs1, bs1', s1)"
    and "undisturbed (place (bkt b)) s1 s2" and "ok (bkt b') s2" and "place (bkt b') = place (bkt b)"
    and "keeps_format vf finv" and "finv f"
    and "valid_copy vf finv magic no_auth old n" and "valid_copy vf finv magic no_auth new m"
    and "state_storage_read ops vf (bs1' @ b' # bs2) s2 f magic no_auth = (0, data, bs3, s3, f3)"
  shows "first_valid (fst (storage_scan ops vf magic no_auth (bs1' @ b' # bs2) s2 f)) \<noteq> Some (length bs1) \<Longrightarrow>
      data = take m new \<or> data = take n old"
    and "bs1' = b0 # rest \<Longrightarrow> readable (bkt b0) new \<Longrightarrow> data = take m new"
proof -
  let ?bs = "bs1' @ b' # bs2"
  let ?xs = "replicate (length bs1') (Some new) @ None # replicate (length bs2) (Some old)"
  note ib = interrupted_buckets [OF assms(2-8)]
  have c: "contents ?bs s2 ?xs"
    unfolding contents_def unfolding assms(1) using ib(2,3)
    by (intro list_all2_appendI list.rel_intros(2)) (auto simp: list_all2_conv_all_nth)
  obtain i where i: "i < length ?bs" "first_valid (fst (storage_scan ops vf magic no_auth ?bs s2 f)) = Some i"
      "\<And>x n. ?xs ! i = Some x \<Longrightarrow> valid_copy vf finv magic no_auth x n \<Longrightarrow> data = take n x"
    using state_storage_read_data(1) [OF ib(1) c assms(9,10,13)] by auto
  show "data = take m new \<or> data = take n old"
    if "first_valid (fst (storage_scan ops vf magic no_auth ?bs s2 f)) \<noteq> Some (length bs1)"
  proof -
    have "i < length bs1' \<or> length bs1' < i" using that i(2) ib(4) by auto
    then have "?xs ! i = Some new \<or> ?xs ! i = Some old" using i(1) by (auto simp: nth_append)
    then show ?thesis using i(3) assms(11,12) by auto
  qed
  show "data = take m new" if "bs1' = b0 # rest" "readable (bkt b0) new"
  proof -
    obtain rets bs4 s4 f4 where sc: "storage_scan ops vf magic no_auth ?bs s2 f = (rets, bs4, s4, f4)"
      by (metis prod_cases4)
    have x0: "?xs ! 0 = Some new" using that(1) by simp
    then have "rets ! 0 = 0 \<and> length rets = length ?bs"
      using storage_scan_ok [OF ib(1) c assms(9,10) sc] assms(12) that by fastforce
    then have "first_valid rets = Some 0" by (cases rets) auto
    then show ?thesis using i(2,3) x0 sc assms(12) by simp
  qed
qed

end
section \<open>Properties\<close>


text \<open>Three buckets of sixteen bytes on a RAM device.\<close>

definition demo_ops :: "(bytes bucket_direct, bytes) bucket_ops" where
  "demo_ops = direct_ops demo_config (\<lambda>_. 0)"

definition demo_bucket :: "nat \<Rightarrow> bytes bucket_direct storage_bucket" where
  "demo_bucket n = new_bucket (state_backend_bucket_direct_create (mtd_cdev (mtdram_probe 48)) (16 * n) 16 False)"

definition demo_copy_bytes :: "u8 \<Rightarrow> bytes" where
  "demo_copy_bytes v = direct_meta_bytes 2 @ [1, v] @ replicate 6 0"

definition demo_moved :: "nat \<Rightarrow> nat \<Rightarrow> bytes bucket_direct storage_bucket" where
  "demo_moved n p = (demo_bucket n)\<lparr>bkt := (bkt (demo_bucket n))\<lparr>direct_fd := (direct_fd (bkt (demo_bucket n)))\<lparr>f_pos := p\<rparr>\<rparr>\<rparr>"

lemmas demo_storage_eval = demo_ops_def demo_bucket_def demo_copy_bytes_def demo_moved_def direct_ops_def new_bucket_def
  direct_eval replicate_numeral

lemmas demo_store = mtdram_disk.direct_bucket_store [where sz = 48 and cfg = demo_config and uninit = "\<lambda>_. 0", folded demo_ops_def]

lemmas demo_geometry = demo_moved_def demo_bucket_def new_bucket_def direct_place_def direct_apart_def devfs_open_def
  state_backend_bucket_direct_create_def mtd_cdev_def mtdram_probe_def ram_mtd_def

lemma demo_all_ok:
  "length mem = 48 \<Longrightarrow> mtdram_direct.all_ok 48 [demo_bucket 0, demo_bucket 1, demo_bucket 2] mem"
  unfolding mtdram_direct.all_ok_def mtdram_disk.direct_ok_def mtdram_disk.is_open_def
  by (simp add: demo_geometry)

lemma demo_fits: "b \<in> {demo_bucket 0, demo_bucket 1, demo_bucket 2} \<Longrightarrow> direct_fits (direct_place (bkt b)) [1, v]"
  by (auto simp: demo_bucket_def new_bucket_def direct_place_def direct_fits_def state_backend_bucket_direct_create_def)

lemma demo_storage_write:
  "state_storage_write demo_ops False [demo_bucket 0, demo_bucket 1, demo_bucket 2] (replicate 48 0) [1, 5]
     = (0, [demo_moved 0 10, demo_moved 1 26, demo_moved 2 42], demo_copy_bytes 5 @ demo_copy_bytes 5 @ demo_copy_bytes 5)"
  by (simp add: demo_storage_eval state_storage_write_def)



text \<open>A format that marks valid copies by their first byte.\<close>

definition mark_verify :: "unit verify_fn" where
  "mark_verify f magic buf len no_auth = (if take 1 buf = [1] then 0 else - EINVAL, 2, f)"

lemma mark_verify_copy: "valid_copy mark_verify (\<lambda>_. True) magic no_auth [1, v] 2"
  "keeps_format mark_verify (\<lambda>_. True)"
  by (simp_all add: valid_copy_def mark_verify_def keeps_format_def)

lemmas demo_read_eval = demo_storage_eval state_storage_read_def bucket_check_def mark_verify_def bucket_refresh_def

abbreviation torn_medium :: bytes where
  "torn_medium \<equiv> demo_copy_bytes 9 @ replicate 16 0 @ demo_copy_bytes 5"

lemma demo_torn_read:
  "state_storage_read demo_ops mark_verify [demo_moved 0 10, demo_bucket 1, demo_bucket 2] torn_medium () 0 False
     = (0, [1, 9], [demo_moved 0 10, demo_moved 1 26, demo_moved 2 42],
        demo_copy_bytes 9 @ demo_copy_bytes 9 @ demo_copy_bytes 9, ())"
  by (simp add: demo_read_eval)

lemma demo_torn_scan:
  "fst (storage_scan demo_ops mark_verify 0 False [demo_moved 0 10, demo_bucket 1, demo_bucket 2] torn_medium ())
     = [0, - ENOMEDIUM, 0]"
  by (simp add: demo_read_eval)

lemma demo_stored:
  "disk.direct_stored (\<lambda>mem. mem) (bkt (demo_bucket 2)) (xs @ ys @ demo_copy_bytes 5) [1, 5]"
  if "length xs = 16" "length ys = 16"
  using that unfolding mtdram_disk.direct_stored_def mtdram_disk.direct_holds_def
  by (simp add: demo_geometry demo_copy_bytes_def subbuf_def direct_meta_bytes_def le32_def)

lemma demo_undisturbed:
  "bucket_store.undisturbed (disk.direct_ok (mtd_cdev (mtdram_probe 48)) (\<lambda>mem. length mem = 48)) direct_place direct_apart
     (disk.direct_stored (\<lambda>mem. mem)) (disk.direct_stored (\<lambda>mem. mem)) (direct_place (bkt (demo_bucket 1)))
     (demo_copy_bytes 9 @ demo_copy_bytes 5 @ demo_copy_bytes 5) torn_medium"
proof -
  have "same_outside 16 16 torn_medium (demo_copy_bytes 9 @ demo_copy_bytes 5 @ demo_copy_bytes 5)"
    by (simp add: same_outside_def demo_copy_bytes_def direct_meta_bytes_def le32_def)
  moreover have "direct_place (bkt (demo_bucket 1)) = (16, 16)" by (simp add: demo_geometry)
  moreover have "length torn_medium = 48" by (simp add: demo_copy_bytes_def)
  ultimately show ?thesis
    unfolding mtdram_direct.undisturbed_def
    using mtdram_disk.direct_stored_outside
    by (auto simp: mtdram_disk.direct_ok_def)
qed




text \<open>The buckets that are set up on a flash are usable at once, whatever the eraseblocks
  contain: at most three of them, in different eraseblocks of the given range; the flash is not
  changed; and the set-up fails when no bucket could be created.\<close>

theorem storage_mtd_buckets_fresh:
  assumes "quiet_flash mtd cells good cfg" and "good s" and "0 < erasesize mtd"
    and "max 8 (if circular then writesize mtd else erasesize mtd) dvd erasesize mtd"
    and "erasesize mtd dvd offset" and "erasesize mtd dvd mtd_size mtd"
    and "state_storage_mtd_buckets_init cfg mtd offset max_sz circular s = (ret, bs, s')"
  shows "(ret = 0 \<longleftrightarrow> bs \<noteq> []) \<and> length bs \<le> 3 \<and> cells s' = cells s
    \<and> bucket_store.all_ok (flash.circ_ok mtd cells good) circ_place circ_apart bs s'
    \<and> (\<forall>b \<in> set bs. offset \<le> eraseblock (bkt b) * erasesize mtd \<and> eraseblock (bkt b) * erasesize mtd < mtd_size mtd)"
proof -
  define limit where "limit = (if offset + max_sz = 0 \<or> mtd_size mtd < offset + max_sz then mtd_size mtd else offset + max_sz)"
  have limit: "limit \<le> mtd_size mtd" by (simp add: limit_def)
  let ?ws = "if circular then writesize mtd else erasesize mtd"
  obtain bs1 s1 where l: "storage_mtd_buckets cfg mtd ?ws offset limit 0 s = (bs1, s1)" by fastforce
  note ok = quiet_flash.storage_mtd_buckets_ok [OF assms(1,2,4,3) limit assms(5,6) _ l]
  have "(ret, bs, s') = (- EINVAL, [], s) \<or> (ret, bs, s') = (if bs1 = [] then - EIO else 0, bs1, s1)"
    using assms(7) l unfolding state_storage_mtd_buckets_init_def Let_def limit_def [symmetric]
    by (auto split: if_splits)
  then show ?thesis
    using ok limit bucket_store.all_ok_def [OF quiet_flash.circular_bucket_store [OF assms(1)]] by auto
qed

theorem storage_mtd_buckets_fresh_witness:
  "\<exists>bs. state_storage_mtd_buckets_init demo_config (ram_mtd 96 48 8 []) 0 0 True (replicate 96 0xff)
      = (0, bs, replicate 96 0xff)
    \<and> bucket_store.all_ok (flash.circ_ok (ram_mtd 96 48 8 []) (\<lambda>mem. mem) (\<lambda>mem. length mem = mtd_size (ram_mtd 96 48 8 [])))
        circ_place circ_apart bs (replicate 96 0xff)"
proof -
  obtain bs where i: "state_storage_mtd_buckets_init demo_config (ram_mtd 96 48 8 []) 0 0 True (replicate 96 0xff)
      = (0, bs, replicate 96 0xff)"
    by (simp add: state_storage_mtd_buckets_init_def storage_mtd_buckets.simps circ_eval
        state_backend_bucket_circular_create_def)
  show ?thesis
    using storage_mtd_buckets_fresh [OF quiet_ram.quiet_flash_axioms _ _ _ _ _ i] i by (simp add: ram_mtd_def)
qed

end
