(* ===== verification/Libc.thy ===== *)
theory Libc
  imports Prelude
begin

text \<open>
  The pieces of barebox's C library that the other components call: string comparison,
  searching and splitting (\<^verbatim>\<open>lib/string.c\<close>), number parsing (\<^verbatim>\<open>lib/kstrtox.c\<close>,
  \<^verbatim>\<open>lib/strtox.c\<close>), decimal printing (\<^verbatim>\<open>number\<close> in \<^verbatim>\<open>lib/vsprintf.c\<close>) and
  sorted insertion into a list (\<^verbatim>\<open>include/linux/list.h\<close>).

  A C string is a \<open>string\<close> without its terminating NUL; a predicate \<open>c_string\<close>
  says that it contains no NUL itself. A pointer into a string is the rest of the string.
\<close>

definition c_string :: "string \<Rightarrow> bool" where
  "c_string s \<longleftrightarrow> CHR 0x00 \<notin> set s"

section \<open>Comparison\<close>

definition char_res :: "char \<Rightarrow> char \<Rightarrow> int" where
  "char_res a b = sint (of_char a - of_char b :: u8)"

fun strcmp :: "string \<Rightarrow> string \<Rightarrow> int" where
  "strcmp [] [] = char_res CHR 0x00 CHR 0x00"
| "strcmp [] (d # ds) = char_res CHR 0x00 d"
| "strcmp (c # cs) [] = char_res c CHR 0x00"
| "strcmp (c # cs) (d # ds) = (if char_res c d \<noteq> 0 then char_res c d else strcmp cs ds)"

lemma char_res_eq_0: "char_res a b = 0 \<longleftrightarrow> a = b"
proof -
  have "char_res a b = 0 \<longleftrightarrow> (of_char a :: u8) = of_char b"
    by (simp add: char_res_def signed_eq_0_iff)
  also have "\<dots> \<longleftrightarrow> a = b"
  proof
    assume "(of_char a :: u8) = of_char b"
    then have "unat (of_char a :: u8) = unat (of_char b :: u8)" by simp
    moreover have "unat (of_char c :: u8) = of_char c" for c
    proof -
      have "(of_char c :: u8) = of_nat (of_char c)" by (simp only: of_nat_of_char)
      moreover have "(of_char c :: nat) < 256" by simp
      ultimately show ?thesis by (simp add: unat_of_nat)
    qed
    ultimately have "(of_char a :: nat) = of_char b" by simp
    then show "a = b" by simp
  qed simp
  finally show ?thesis .
qed

text \<open>For C strings, a zero result means equality, so \<^verbatim>\<open>!strcmp(a, b)\<close> is written
  \<open>a = b\<close> elsewhere.\<close>

lemma strcmp_eq_0: "c_string a \<Longrightarrow> c_string b \<Longrightarrow> strcmp a b = 0 \<longleftrightarrow> a = b"
  by (induction a b rule: strcmp.induct) (auto simp: c_string_def char_res_eq_0)

section \<open>Sorted insertion\<close>

fun list_add_sort :: "'a \<Rightarrow> 'a list \<Rightarrow> ('a \<Rightarrow> 'a \<Rightarrow> int) \<Rightarrow> 'a list" where
  "list_add_sort new [] compare = [new]"
| "list_add_sort new (pos # rest) compare =
     (if compare pos new < 0 then pos # list_add_sort new rest compare
      else new # pos # rest)"

lemma mset_list_add_sort [simp]: "mset (list_add_sort x xs cmp) = add_mset x (mset xs)"
  by (induction xs) auto

lemma set_list_add_sort [simp]: "set (list_add_sort x xs cmp) = insert x (set xs)"
  by (induction xs) auto

lemma length_list_add_sort [simp]: "length (list_add_sort x xs cmp) = Suc (length xs)"
  by (induction xs) auto

lemma list_add_sort_split:
  "\<exists>ys zs. xs = ys @ zs \<and> list_add_sort x xs cmp = ys @ x # zs
     \<and> (\<forall>y \<in> set ys. cmp y x < 0) \<and> (zs = [] \<or> \<not> cmp (hd zs) x < 0)"
proof (induction xs)
  case (Cons y xs)
  show ?case
  proof (cases "cmp y x < 0")
    case True
    from Cons obtain ys zs where "xs = ys @ zs" "list_add_sort x xs cmp = ys @ x # zs"
      "\<forall>y \<in> set ys. cmp y x < 0" "zs = [] \<or> \<not> cmp (hd zs) x < 0" by blast
    with True show ?thesis by (intro exI [of _ "y # ys"] exI [of _ zs]) auto
  next
    case False
    then show ?thesis by (intro exI [of _ "[]"] exI [of _ "y # xs"]) auto
  qed
qed simp

text \<open>Insertion keeps a list sorted by a key when the comparison orders by that key.\<close>

lemma sorted_list_add_sort:
  fixes key :: "'a \<Rightarrow> 'b::linorder"
  assumes "sorted_wrt (\<lambda>a b. key a \<le> key b) xs"
    and "\<And>a b. cmp a b < 0 \<Longrightarrow> key a \<le> key b" and "\<And>a b. \<not> cmp a b < 0 \<Longrightarrow> key b \<le> key a"
  shows "sorted_wrt (\<lambda>a b. key a \<le> key b) (list_add_sort x xs cmp)"
  using assms(1) by (induction xs) (auto intro: assms(2,3) order_trans dest: assms(3))

section \<open>Searching and splitting\<close>

definition strchr :: "string \<Rightarrow> char \<Rightarrow> nat option" where
  "strchr s c = (if c \<in> set s then Some (length (takeWhile (\<lambda>x. x \<noteq> c) s)) else None)"

definition strsep :: "string option \<Rightarrow> char \<Rightarrow> string option \<times> string option" where
  "strsep sp ct =
     (case sp of
        None \<Rightarrow> (None, None)
      | Some s \<Rightarrow>
          (case strchr s ct of
             None \<Rightarrow> (Some s, None)
           | Some i \<Rightarrow> (Some (take i s), Some (drop (Suc i) s))))"

definition parse_assignment :: "string \<Rightarrow> (string \<times> string) option" where
  "parse_assignment s =
     (case strchr s (CHR ''='') of
        None \<Rightarrow> None
      | Some i \<Rightarrow> Some (take i s, drop (Suc i) s))"

lemma strchr_append: "c \<notin> set xs \<Longrightarrow> strchr (xs @ c # ys) c = Some (length xs)"
  by (simp add: strchr_def takeWhile_append)

lemma strchr_None [simp]: "c \<notin> set s \<Longrightarrow> strchr s c = None"
  by (simp add: strchr_def)

lemma strchr_Some_length: "strchr s c = Some i \<Longrightarrow> i < length s"
proof -
  assume "strchr s c = Some i"
  then have "c \<in> set s" and i: "i = length (takeWhile (\<lambda>x. x \<noteq> c) s)"
    by (auto simp: strchr_def split: if_splits)
  then show "i < length s"
    by (metis (mono_tags, lifting) length_takeWhile_le le_neq_implies_less
        takeWhile_eq_all_conv takeWhile_eq_take take_all_iff order_refl)
qed

lemma parse_assignment_join:
  "CHR ''='' \<notin> set name \<Longrightarrow> parse_assignment (name @ ''='' @ val) = Some (name, val)"
  by (simp add: parse_assignment_def strchr_append)

section \<open>Printing unsigned and signed decimals\<close>

definition digit_char :: "nat \<Rightarrow> char" where
  "digit_char d = char_of (48 + d)"

fun number_tmp :: "nat \<Rightarrow> nat list" where
  "number_tmp num = (if num < 10 then [num] else (num mod 10) # number_tmp (num div 10))"

declare number_tmp.simps [simp del]

definition number :: "nat \<Rightarrow> string" where
  "number num = map digit_char (rev (number_tmp num))"

definition fmt_u :: "u32 \<Rightarrow> string" where
  "fmt_u w = number (unat w)"

definition fmt_d :: "u32 \<Rightarrow> string" where
  "fmt_d w = (if sint w < 0 then ''-'' @ number (nat (- sint w)) else number (nat (sint w)))"

section \<open>Parsing numbers\<close>

definition digit_val :: "char \<Rightarrow> nat option" where
  "digit_val ch =
     (let c = of_char ch :: nat; lc = c OR 0x20
      in if 48 \<le> c \<and> c \<le> 57 then Some (c - 48)
         else if 97 \<le> lc \<and> lc \<le> 102 then Some (lc - 97 + 10)
         else None)"

definition isxdigit :: "char \<Rightarrow> bool" where
  "isxdigit ch = (digit_val ch \<noteq> None)"

definition tolower_is_x :: "char \<Rightarrow> bool" where
  "tolower_is_x ch = ((of_char ch OR 0x20 :: nat) = 120)"

definition parse_integer_fixup_radix :: "string \<Rightarrow> nat \<Rightarrow> string \<times> nat" where
  "parse_integer_fixup_radix s base =
     (let base =
        (if base = 0 then
           (case s of
              c0 # rest \<Rightarrow>
                if c0 = CHR ''0'' then
                  (case rest of
                     c1 # c2 # _ \<Rightarrow> if tolower_is_x c1 \<and> isxdigit c2 then 16 else 8
                   | _ \<Rightarrow> 8)
                else 10
            | [] \<Rightarrow> 10)
         else base)
      in (case s of
            c0 # c1 # rest \<Rightarrow>
              if base = 16 \<and> c0 = CHR ''0'' \<and> tolower_is_x c1 then (rest, base) else (s, base)
          | _ \<Rightarrow> (s, base)))"

fun parse_integer :: "string \<Rightarrow> nat \<Rightarrow> u64 \<Rightarrow> nat \<Rightarrow> bool \<Rightarrow> u64 \<times> nat \<times> bool" where
  "parse_integer [] base res rv ovf = (res, rv, ovf)"
| "parse_integer (ch # s) base res rv ovf =
     (case digit_val ch of
        None \<Rightarrow> (res, rv, ovf)
      | Some val \<Rightarrow>
          if base \<le> val then (res, rv, ovf)
          else parse_integer s base (res * of_nat base + of_nat val) (Suc rv)
             (ovf \<or> (res AND push_bit 60 (- 1) \<noteq> 0 \<and> (2 ^ 64 - 1 - val) div base < unat res)))"

definition simple_strtoull :: "string \<Rightarrow> nat \<Rightarrow> u64 \<times> string" where
  "simple_strtoull cp base =
     (case parse_integer_fixup_radix cp base of (s, base) \<Rightarrow>
        (case parse_integer s base 0 0 False of (result, rv, _) \<Rightarrow> (result, drop rv s)))"

definition kstrtoull :: "string \<Rightarrow> nat \<Rightarrow> int + u64" where
  "kstrtoull s base =
     (let s = (case s of c # rest \<Rightarrow> if c = CHR ''+'' then rest else s | [] \<Rightarrow> s)
      in case parse_integer_fixup_radix s base of (s, base) \<Rightarrow>
        (case parse_integer s base 0 0 False of (res, rv, ovf) \<Rightarrow>
           if ovf then Inl (- ERANGE)
           else if rv = 0 then Inl (- EINVAL)
           else (let s = drop rv s;
                     s = (case s of c # rest \<Rightarrow> if c = CHR 0x0A then rest else s | [] \<Rightarrow> s)
                 in if s \<noteq> [] then Inl (- EINVAL) else Inr res)))"

definition simple_strtoul :: "string \<Rightarrow> nat \<Rightarrow> u64" where
  "simple_strtoul cp base = fst (simple_strtoull cp base)"

subsection \<open>Digits\<close>

lemma digit_char_0: "digit_char 0 = CHR ''0''"
  by (simp add: digit_char_def char_of_def bit_0)

lemma of_char_digit: "d < 10 \<Longrightarrow> (of_char (digit_char d) :: nat) = 48 + d"
  by (simp add: digit_char_def)

lemma digit_val_digit [simp]: "d < 10 \<Longrightarrow> digit_val (digit_char d) = Some d"
  by (simp add: digit_val_def of_char_digit)

lemma digit_char_nonzero: "0 < d \<Longrightarrow> d < 10 \<Longrightarrow> digit_char d \<noteq> CHR ''0''"
proof
  assume "0 < d" "d < 10" "digit_char d = CHR ''0''"
  then have "(of_char (digit_char d) :: nat) = 48" by simp
  with \<open>0 < d\<close> \<open>d < 10\<close> show False by (simp add: of_char_digit)
qed

lemma number_tmp_digits: "\<forall>d \<in> set (number_tmp n). d < 10"
  by (induction n rule: number_tmp.induct) (subst number_tmp.simps, auto)

lemma number_tmp_nonempty [simp]: "number_tmp n \<noteq> []"
  by (subst number_tmp.simps) simp

lemma last_number_tmp: "0 < n \<Longrightarrow> 0 < last (number_tmp n)"
  by (induction n rule: number_tmp.induct) (subst number_tmp.simps, auto)

lemma number_tmp_value: "foldr (\<lambda>d r. r * 10 + d) (number_tmp n) 0 = n"
  by (induction n rule: number_tmp.induct) (subst number_tmp.simps, auto)

lemma parse_integer_digits:
  "\<forall>d \<in> set ds. d < 10 \<Longrightarrow>
     fst (parse_integer (map digit_char ds) 10 res rv ovf)
       = foldl (\<lambda>r d. r * 10 + of_nat d) res ds"
  by (induction ds arbitrary: res rv ovf) auto

lemma of_nat_foldl_digits:
  "foldl (\<lambda>r d. r * 10 + of_nat d) (of_nat r) ds
     = (of_nat (foldl (\<lambda>r d. r * 10 + d) r ds) :: 'a::len word)"
proof (induction ds arbitrary: r)
  case (Cons d ds)
  have "of_nat r * 10 + of_nat d = (of_nat (r * 10 + d) :: 'a word)" by simp
  with Cons [of "r * 10 + d"] show ?case by (simp del: of_nat_add of_nat_mult)
qed simp

lemma fixup_radix_number:
  "parse_integer_fixup_radix (number n) 0 = (number n, if n = 0 then 8 else 10)"
proof (cases "n = 0")
  case True
  then show ?thesis
    by (simp add: number_def number_tmp.simps [of 0] parse_integer_fixup_radix_def
        digit_char_0 Let_def)
next
  case False
  obtain d ds where split: "rev (number_tmp n) = d # ds"
    by (cases "rev (number_tmp n)") auto
  then have "d = last (number_tmp n)" by (metis last_rev list.sel(1) hd_rev rev_rev_ident)
  with False have "0 < d" using last_number_tmp by simp
  moreover have "d < 10" using number_tmp_digits [of n] split by (metis list.set_intros(1) set_rev)
  ultimately have "digit_char d \<noteq> CHR ''0''" by (rule digit_char_nonzero)
  with False split show ?thesis
    by (auto simp: number_def parse_integer_fixup_radix_def Let_def split: list.splits)
qed

text \<open>Printing a number in decimal and parsing it with automatic radix gives it back.\<close>

lemma simple_strtoul_number: "simple_strtoul (number n) 0 = of_nat n"
proof (cases "n = 0")
  case True
  then show ?thesis
    by (simp add: simple_strtoul_def simple_strtoull_def fixup_radix_number)
      (simp add: number_def number_tmp.simps [of 0])
next
  case False
  have dig: "\<forall>d \<in> set (rev (number_tmp n)). d < 10" using number_tmp_digits by simp
  have "foldl (\<lambda>r d. r * 10 + of_nat d) 0 (rev (number_tmp n)) = (of_nat n :: u64)"
    using of_nat_foldl_digits [of 0 "rev (number_tmp n)", where 'a = 64]
    by (simp add: foldl_conv_foldr number_tmp_value)
  then have "fst (parse_integer (number n) 10 0 0 False) = of_nat n"
    using parse_integer_digits [OF dig] by (simp add: number_def)
  with False show ?thesis
    by (simp add: simple_strtoul_def simple_strtoull_def fixup_radix_number
        prod.case_eq_if)
qed

end
