(* ===== verification/State_Vars.thy ===== *)
theory State_Vars
  imports Libc
begin

text \<open>
  The variables of a state instance (\<^verbatim>\<open>common/state/state.h\<close> and
  \<^verbatim>\<open>common/state/state_variables.c\<close>): their types, the raw bytes through which the storage
  format sees them, the sorted variable list and the check for overlapping variables that
  \<^verbatim>\<open>state_from_node\<close> makes.

  In the source \<^verbatim>\<open>raw\<close> is a pointer to the storage of the value; on a little-endian
  machine, which the model describes, the raw byte of an 8 bit variable is the low byte of
  its 32 bit value. \<open>sv_raw\<close> and \<open>sv_set_raw\<close> read and write through that pointer.
\<close>

section \<open>Variables\<close>

datatype state_variable_type =
    STATE_VARIABLE_TYPE_UINT8
  | STATE_VARIABLE_TYPE_UINT32
  | STATE_VARIABLE_TYPE_ENUM32
  | STATE_VARIABLE_TYPE_MAC
  | STATE_VARIABLE_TYPE_STRING

datatype sv_storage =
    State_uint32 (su32_value: u32) (su32_default: u32)
  | State_enum32 (se32_value: u32) (se32_default: u32) (se32_names: "string list")
  | State_mac (mac_value: bytes) (mac_default: bytes)
  | State_string (str_value: "string option") (str_default: "string option") (str_raw: bytes)

record state_variable =
  sv_type :: state_variable_type
  sv_name :: string
  sv_start :: u32
  sv_size :: u32
  sv_storage :: sv_storage

definition sv_raw :: "state_variable \<Rightarrow> bytes" where
  "sv_raw sv =
     (case sv_storage sv of
        State_uint32 v d \<Rightarrow>
          (if sv_type sv = STATE_VARIABLE_TYPE_UINT8 then [ucast v] else le32 v)
      | State_enum32 v d names \<Rightarrow> le32 v
      | State_mac v d \<Rightarrow> v
      | State_string v d raw \<Rightarrow> raw)"

definition sv_set_raw :: "state_variable \<Rightarrow> bytes \<Rightarrow> state_variable" where
  "sv_set_raw sv bs = sv\<lparr>sv_storage :=
     (case sv_storage sv of
        State_uint32 v d \<Rightarrow>
          (if sv_type sv = STATE_VARIABLE_TYPE_UINT8
           then State_uint32 ((v AND NOT (mask 8)) OR ucast (hd bs)) d
           else State_uint32 (of_le32 bs) d)
      | State_enum32 v d names \<Rightarrow> State_enum32 (of_le32 bs) d names
      | State_mac v d \<Rightarrow> State_mac bs d
      | State_string v d raw \<Rightarrow> State_string v d bs)\<rparr>"

text \<open>What the constructors \<^verbatim>\<open>state_*_create\<close> establish for each type.\<close>

definition sv_ok :: "state_variable \<Rightarrow> bool" where
  "sv_ok sv =
     (case sv_type sv of
        STATE_VARIABLE_TYPE_UINT8 \<Rightarrow>
          sv_size sv = 1 \<and> is_State_uint32 (sv_storage sv) \<and> su32_value (sv_storage sv) \<le> 0xff
      | STATE_VARIABLE_TYPE_UINT32 \<Rightarrow> sv_size sv = 4 \<and> is_State_uint32 (sv_storage sv)
      | STATE_VARIABLE_TYPE_ENUM32 \<Rightarrow> sv_size sv = 4 \<and> is_State_enum32 (sv_storage sv)
      | STATE_VARIABLE_TYPE_MAC \<Rightarrow>
          sv_size sv = 6 \<and> is_State_mac (sv_storage sv) \<and> length (mac_value (sv_storage sv)) = 6
      | STATE_VARIABLE_TYPE_STRING \<Rightarrow>
          sv_size sv \<le> 4096 \<and> is_State_string (sv_storage sv)
          \<and> length (str_raw (sv_storage sv)) = unat (sv_size sv))"

section \<open>Setters and getters\<close>

definition state_string_copy_to_raw :: "u32 \<Rightarrow> string \<Rightarrow> int + bytes" where
  "state_string_copy_to_raw sz src =
     (let len = length src
      in if unat sz < len then Inl (- EILSEQ)
         else Inr (map of_char src @ replicate (unat sz - len) 0))"

text \<open>The callback of an 8 bit variable, after the parameter code stored \<open>value\<close>.\<close>

definition state_uint8_set :: "u32 \<Rightarrow> int" where
  "state_uint8_set value = (if 255 < value then - ERANGE else 0)"

definition state_string_set :: "state_variable \<Rightarrow> int \<times> state_variable" where
  "state_string_set sv =
     (case sv_storage sv of
        State_string (Some v) d raw \<Rightarrow>
          (case state_string_copy_to_raw (sv_size sv) v of
             Inl ret \<Rightarrow> (ret, sv)
           | Inr raw' \<Rightarrow> (0, sv\<lparr>sv_storage := State_string (Some v) d raw'\<rparr>))
      | _ \<Rightarrow> (0, sv))"

definition xstrndup :: "bytes \<Rightarrow> string" where
  "xstrndup raw = map (\<lambda>b. char_of (unat b)) (takeWhile (\<lambda>b. b \<noteq> 0) raw)"

definition state_string_get :: "state_variable \<Rightarrow> state_variable" where
  "state_string_get sv =
     (case sv_storage sv of
        State_string v d raw \<Rightarrow>
          sv\<lparr>sv_storage := State_string
             (Some (if raw \<noteq> [] \<and> hd raw \<noteq> 0 then xstrndup raw else [])) d raw\<rparr>
      | _ \<Rightarrow> sv)"

section \<open>The variable list\<close>

definition state_var_compare :: "state_variable \<Rightarrow> state_variable \<Rightarrow> int" where
  "state_var_compare va vb = (if sv_start va < sv_start vb then - 1 else 1)"

definition state_add_var :: "state_variable list \<Rightarrow> state_variable \<Rightarrow> state_variable list" where
  "state_add_var vars var = list_add_sort var vars state_var_compare"

fun state_find_var :: "state_variable list \<Rightarrow> string \<Rightarrow> int + state_variable" where
  "state_find_var [] name = Inl (- ENOENT)"
| "state_find_var (sv # vars) name =
     (if sv_name sv = name then Inr sv else state_find_var vars name)"

definition state_data_size :: "state_variable list \<Rightarrow> u32" where
  "state_data_size vars =
     (if vars = [] then 0 else sv_start (last vars) + sv_size (last vars))"

text \<open>The overlap check at the end of \<^verbatim>\<open>state_from_node\<close>: every variable against its
  predecessor in the list.\<close>

fun state_check_overlap :: "state_variable list \<Rightarrow> int \<Rightarrow> int" where
  "state_check_overlap (last_sv # sv # vars) ret =
     (if sv_start last_sv + sv_size last_sv - 1 < sv_start sv
      then state_check_overlap (sv # vars) ret
      else state_check_overlap (sv # vars) (or ret (- EINVAL)))"
| "state_check_overlap _ ret = ret"

section \<open>Layout\<close>

abbreviation sv_end :: "state_variable \<Rightarrow> nat" where
  "sv_end sv \<equiv> unat (sv_start sv) + unat (sv_size sv)"

text \<open>Variables are in order, do not overlap and end below the 32 bit limit.\<close>

definition layout_ok :: "state_variable list \<Rightarrow> bool" where
  "layout_ok vars \<longleftrightarrow> (\<forall>sv \<in> set vars. sv_ok sv \<and> sv_end sv < 2 ^ 32)
     \<and> sorted_wrt (\<lambda>a b. sv_end a \<le> unat (sv_start b)) vars"

lemma length_sv_raw: "sv_ok sv \<Longrightarrow> length (sv_raw sv) = unat (sv_size sv)"
  by (cases "sv_storage sv")
    (auto simp: sv_ok_def sv_raw_def split: state_variable_type.splits)

lemma sv_set_raw_fields [simp]:
  "sv_type (sv_set_raw sv bs) = sv_type sv" "sv_name (sv_set_raw sv bs) = sv_name sv"
  "sv_start (sv_set_raw sv bs) = sv_start sv" "sv_size (sv_set_raw sv bs) = sv_size sv"
  by (simp_all add: sv_set_raw_def)

lemma ucast_low_byte: "ucast (((v :: u32) AND NOT (mask 8)) OR ucast b) = (b :: u8)"
  by (rule bit_word_eqI) (auto simp: bit_simps)

lemma low_byte_only: "v \<le> 0xff \<Longrightarrow> (v :: u32) AND NOT (mask 8) = 0"
proof -
  assume "v \<le> 0xff"
  then have "unat v < 2 ^ 8" by (simp add: word_le_nat_alt)
  then have "unat (take_bit 8 v) = unat v"
    by (simp only: unsigned_take_bit_eq take_bit_nat_eq_self)
  then have "take_bit 8 v = v" by (simp only: unsigned_word_eqI)
  then have "v AND NOT (mask 8) = (v AND mask 8) AND NOT (mask 8)"
    by (simp add: take_bit_eq_mask)
  then show ?thesis by (simp add: and.assoc)
qed

lemma ucast_u8_le: "(ucast (b :: u8) :: u32) \<le> 0xff"
proof -
  have "unat (ucast b :: u32) \<le> unat b"
    by (simp add: unsigned_ucast_eq take_bit_nat_less_eq_self)
  then show ?thesis using unsigned_less [of b, where 'a = nat] by (simp add: word_le_nat_alt)
qed

text \<open>Reading back through the raw pointer gives what was stored, and storing keeps the
  variable well formed.\<close>

lemma sv_raw_set_raw:
  assumes "sv_ok sv" and "length bs = unat (sv_size sv)"
  shows "sv_raw (sv_set_raw sv bs) = bs"
  using assms
  by (cases "sv_storage sv")
    (auto simp: sv_ok_def sv_raw_def sv_set_raw_def le32_of_le32 ucast_low_byte length_Suc_conv
      split: state_variable_type.splits)

lemma sv_ok_set_raw:
  assumes "sv_ok sv" and "length bs = unat (sv_size sv)"
  shows "sv_ok (sv_set_raw sv bs)"
  using assms
  by (cases "sv_storage sv")
    (auto simp: sv_ok_def sv_set_raw_def low_byte_only ucast_u8_le
      split: state_variable_type.splits)

lemma sorted_state_add_var:
  "sorted_wrt (\<lambda>a b. sv_start a \<le> sv_start b) vars \<Longrightarrow>
     sorted_wrt (\<lambda>a b. sv_start a \<le> sv_start b) (state_add_var vars sv)"
  unfolding state_add_var_def
  by (rule sorted_list_add_sort) (auto simp: state_var_compare_def split: if_splits)

lemma state_check_overlap_or: "state_check_overlap vars (- EINVAL) = - EINVAL"
  by (induction vars "- EINVAL" rule: state_check_overlap.induct) auto

lemma unat_end_minus_1:
  assumes "sv_end sv < 2 ^ 32" and "0 < sv_size sv"
  shows "unat (sv_start sv + sv_size sv - 1) = sv_end sv - 1"
proof -
  have "unat (sv_start sv + sv_size sv) = sv_end sv"
    using assms(1) by (simp add: unat_word_ariths)
  moreover have "1 \<le> sv_start sv + sv_size sv"
    using assms calculation by (simp add: word_le_nat_alt word_less_nat_alt)
  ultimately show ?thesis by (simp add: unat_sub)
qed

text \<open>The overlap check accepts exactly what the storage format needs.\<close>

lemma layout_ok_check_overlap:
  assumes "state_check_overlap vars 0 = 0"
    and "\<forall>sv \<in> set vars. sv_ok sv \<and> sv_end sv < 2 ^ 32 \<and> 0 < sv_size sv"
  shows "layout_ok vars"
proof -
  have "successively (\<lambda>a b. sv_end a \<le> unat (sv_start b)) vars"
    using assms
  proof (induction vars rule: induct_list012)
    case (3 a b vars)
    have step: "sv_start a + sv_size a - 1 < sv_start b"
    proof (rule ccontr)
      assume "\<not> sv_start a + sv_size a - 1 < sv_start b"
      with "3.prems"(1) show False by (simp add: state_check_overlap_or)
    qed
    then have "sv_end a \<le> unat (sv_start b)"
      using "3.prems"(2) by (auto simp: word_less_nat_alt unat_end_minus_1)
    moreover have "successively (\<lambda>a b. sv_end a \<le> unat (sv_start b)) (b # vars)"
      using "3.prems" step by (intro "3.IH"(2)) auto
    ultimately show ?case by simp
  qed auto
  moreover have "transp (\<lambda>a b. sv_end a \<le> unat (sv_start b))"
    by (auto intro: transpI)
  ultimately show ?thesis
    using assms(2) by (auto simp: layout_ok_def successively_conv_sorted_wrt)
qed

lemma layout_ok_Cons:
  "layout_ok (sv # vars) \<longleftrightarrow> sv_ok sv \<and> sv_end sv < 2 ^ 32
     \<and> (\<forall>v \<in> set vars. sv_end sv \<le> unat (sv_start v)) \<and> layout_ok vars"
  by (auto simp: layout_ok_def)

lemma state_data_size_bound:
  assumes "layout_ok vars" and "sv \<in> set vars"
  shows "sv_end sv \<le> unat (state_data_size vars)"
proof -
  from assms(2) have ne: "vars \<noteq> []" by auto
  have "sv_end sv \<le> sv_end (last vars)"
  proof (cases "sv = last vars")
    case False
    from ne obtain ys where vars: "vars = ys @ [last vars]" by (metis append_butlast_last_id)
    with assms(2) False have "sv \<in> set ys" by (metis in_set_conv_decomp set_ConsD Un_iff set_append empty_iff empty_set)
    moreover have "sorted_wrt (\<lambda>a b. sv_end a \<le> unat (sv_start b)) (ys @ [last vars])"
      using assms(1) vars unfolding layout_ok_def by metis
    ultimately have "sv_end sv \<le> unat (sv_start (last vars))"
      by (simp add: sorted_wrt_append)
    then show ?thesis by simp
  qed simp
  moreover have "unat (state_data_size vars) = sv_end (last vars)"
    using assms(1) ne by (simp add: state_data_size_def layout_ok_def unat_word_ariths)
  ultimately show ?thesis by simp
qed

end
