(* ===== verification/Crypto.thy ===== *)
theory Crypto
  imports Libc
begin

text \<open>
  The digest registry and the generic verification of \<^verbatim>\<open>crypto/digest.c\<close>, the inline
  wrappers of \<^verbatim>\<open>include/digest.h\<close>, the constant time comparison of
  \<^verbatim>\<open>crypto/memneq.c\<close> and the secret store of \<^verbatim>\<open>security/keystore.c\<close>.

  A digest algorithm is a driver (software or hardware) that registers itself; it is a
  record of the values its callbacks return, and the digest it computes is the function
  \<open>a_final\<close> of the key and of the bytes hashed since the last initialisation. The
  facts that users of a digest need of such a driver are the predicate
  \<open>digest_algo_ok\<close>.
\<close>

section \<open>Comparison and checksums under fuzzing builds\<close>

fun crypto_memneq_acc :: "u8 \<Rightarrow> bytes \<Rightarrow> bytes \<Rightarrow> u8" where
  "crypto_memneq_acc neq (x # xs) (y # ys) = crypto_memneq_acc (neq OR (x XOR y)) xs ys"
| "crypto_memneq_acc neq _ _ = neq"

definition crypto_memneq :: "bytes \<Rightarrow> bytes \<Rightarrow> bool" where
  "crypto_memneq a b = (crypto_memneq_acc 0 a b \<noteq> 0)"

definition fuzz_insecure_checksum_accepted :: "config \<Rightarrow> u32 \<Rightarrow> u32 \<Rightarrow> bool" where
  "fuzz_insecure_checksum_accepted cfg expected actual =
     (fuzz_insecure_partial_digest_enabled cfg \<and> (expected XOR actual) AND 1 = 0)"

definition fuzz_insecure_digest_accepted :: "config \<Rightarrow> bytes \<Rightarrow> bytes \<Rightarrow> bool" where
  "fuzz_insecure_digest_accepted cfg expected actual =
     (fuzz_insecure_partial_digest_enabled cfg \<and> expected \<noteq> []
      \<and> (last expected XOR last actual) AND 1 = 0)"

lemma or_eq_0_iff: "x OR y = 0 \<longleftrightarrow> x = 0 \<and> y = (0 :: 'a::len word)"
  by (auto simp: bit_eq_iff bit_or_iff)

lemma xor_eq_0_iff: "x XOR y = 0 \<longleftrightarrow> x = (y :: 'a::len word)"
proof
  assume "x XOR y = 0"
  then have "(x XOR y) XOR y = y" by simp
  then show "x = y" by (simp add: xor.assoc)
qed simp

lemma crypto_memneq_acc_eq_0:
  "length a = length b \<Longrightarrow> crypto_memneq_acc neq a b = 0 \<longleftrightarrow> neq = 0 \<and> a = b"
  by (induction neq a b rule: crypto_memneq_acc.induct) (auto simp: or_eq_0_iff xor_eq_0_iff)

lemma crypto_memneq_iff: "length a = length b \<Longrightarrow> crypto_memneq a b \<longleftrightarrow> a \<noteq> b"
  by (simp add: crypto_memneq_def crypto_memneq_acc_eq_0)

section \<open>Digests\<close>

record digest_algo =
  a_name :: string
  a_driver_name :: string
  a_priority :: int
  a_length :: nat
  a_alloc :: int
  a_set_key :: "(bytes \<Rightarrow> int) option"
  a_init :: int
  a_update :: "bytes \<Rightarrow> int"
  a_final :: "bytes \<Rightarrow> bytes \<Rightarrow> int \<times> bytes"

record digest =
  d_algo :: digest_algo
  d_key :: bytes
  d_msg :: bytes

definition digest_algo_register :: "digest_algo list \<Rightarrow> digest_algo \<Rightarrow> digest_algo list" where
  "digest_algo_register digests d = digests @ [d]"

fun algo_by_name_loop ::
  "digest_algo list \<Rightarrow> string \<Rightarrow> int \<Rightarrow> digest_algo option \<Rightarrow> digest_algo option
     \<Rightarrow> digest_algo option" where
  "algo_by_name_loop [] name priority d_by_name d_by_driver =
     (case d_by_name of Some d \<Rightarrow> Some d | None \<Rightarrow> d_by_driver)"
| "algo_by_name_loop (tmp # rest) name priority d_by_name d_by_driver =
     (let d_by_driver = (if a_driver_name tmp = name then Some tmp else d_by_driver)
      in if a_name tmp \<noteq> name then algo_by_name_loop rest name priority d_by_name d_by_driver
         else if a_priority tmp \<le> priority
         then algo_by_name_loop rest name priority d_by_name d_by_driver
         else algo_by_name_loop rest name (a_priority tmp) (Some tmp) d_by_driver)"

definition digest_algo_get_by_name :: "digest_algo list \<Rightarrow> string \<Rightarrow> digest_algo option" where
  "digest_algo_get_by_name digests name = algo_by_name_loop digests name (- 1) None None"

definition digest_alloc :: "digest_algo list \<Rightarrow> string \<Rightarrow> digest option" where
  "digest_alloc digests name =
     (case digest_algo_get_by_name digests name of
        None \<Rightarrow> None
      | Some algo \<Rightarrow>
          if a_alloc algo \<noteq> 0 then None
          else Some \<lparr>d_algo = algo, d_key = [], d_msg = []\<rparr>)"

definition digest_length :: "digest \<Rightarrow> nat" where
  "digest_length d = a_length (d_algo d)"

definition digest_set_key :: "digest \<Rightarrow> bytes \<Rightarrow> int \<times> digest" where
  "digest_set_key d key =
     (case a_set_key (d_algo d) of
        None \<Rightarrow> (- ENOTSUPP, d)
      | Some set_key \<Rightarrow> (set_key key, d\<lparr>d_key := key\<rparr>))"

definition digest_init :: "digest \<Rightarrow> int \<times> digest" where
  "digest_init d = (a_init (d_algo d), d\<lparr>d_msg := []\<rparr>)"

definition digest_update :: "digest \<Rightarrow> bytes \<Rightarrow> int \<times> digest" where
  "digest_update d data = (a_update (d_algo d) data, d\<lparr>d_msg := d_msg d @ data\<rparr>)"

definition digest_final :: "digest \<Rightarrow> int \<times> bytes" where
  "digest_final d = a_final (d_algo d) (d_key d) (d_msg d)"

definition digest_generic_verify :: "config \<Rightarrow> digest \<Rightarrow> bytes \<Rightarrow> int" where
  "digest_generic_verify cfg d md =
     (case digest_final d of (ret, tmp) \<Rightarrow>
        if ret \<noteq> 0 then ret
        else if crypto_memneq md tmp \<and> \<not> fuzz_insecure_digest_accepted cfg md tmp
        then - EINVAL else 0)"

text \<open>What a keyed digest driver is documented to do: every callback succeeds and the
  digest has the length the driver announces.\<close>

definition digest_algo_ok :: "digest_algo \<Rightarrow> bool" where
  "digest_algo_ok a \<longleftrightarrow> a_alloc a = 0 \<and> a_init a = 0 \<and> (\<forall>data. a_update a data = 0)
     \<and> (\<exists>sk. a_set_key a = Some sk \<and> (\<forall>key. sk key = 0))
     \<and> (\<forall>key msg. fst (a_final a key msg) = 0 \<and> length (snd (a_final a key msg)) = a_length a)"

lemma digest_generic_verify_iff:
  assumes "digest_algo_ok (d_algo d)" and "length md = digest_length d"
    and "\<not> fuzz_insecure_partial_digest_enabled cfg"
  shows "digest_generic_verify cfg d md =
    (if md = snd (a_final (d_algo d) (d_key d) (d_msg d)) then 0 else - EINVAL)"
  using assms
  by (auto simp: digest_generic_verify_def digest_final_def digest_algo_ok_def digest_length_def
      fuzz_insecure_digest_accepted_def crypto_memneq_iff prod.case_eq_if)

lemma algo_by_name_loop_Some:
  assumes "a_name x = name"
  shows "\<exists>a. algo_by_name_loop ds name (a_priority x) (Some x) drv = Some a
    \<and> a \<in> insert x (set ds) \<and> a_name a = name
    \<and> (\<forall>d \<in> insert x (set ds). a_name d = name \<longrightarrow> a_priority d \<le> a_priority a)"
  using assms
proof (induction ds arbitrary: x drv)
  case (Cons y ds)
  let ?drv = "if a_driver_name y = name then Some y else drv"
  show ?case
  proof (cases "a_name y = name \<and> a_priority x < a_priority y")
    case True
    with Cons.IH [of y ?drv] show ?thesis by (fastforce simp: Let_def)
  next
    case False
    with Cons.prems Cons.IH [of x ?drv] show ?thesis by (fastforce simp: Let_def)
  qed
qed simp

text \<open>Of the algorithms registered under a name, the one of highest priority is used.\<close>

lemma digest_algo_get_by_name_best:
  assumes "d \<in> set digests" and "a_name d = name" and "0 \<le> a_priority d"
  shows "\<exists>a. digest_algo_get_by_name digests name = Some a \<and> a \<in> set digests
    \<and> a_name a = name \<and> a_priority d \<le> a_priority a"
proof -
  have "\<exists>a. algo_by_name_loop digests name (- 1) None drv = Some a \<and> a \<in> set digests
      \<and> a_name a = name \<and> a_priority d \<le> a_priority a" for drv
    using assms
  proof (induction digests arbitrary: drv)
    case (Cons y ds)
    let ?drv = "if a_driver_name y = name then Some y else drv"
    show ?case
    proof (cases "a_name y = name \<and> - 1 < a_priority y")
      case True
      with Cons.prems algo_by_name_loop_Some [of y name ds ?drv] show ?thesis
        by (fastforce simp: Let_def)
    next
      case False
      with Cons.prems Cons.IH [of ?drv] show ?thesis by (fastforce simp: Let_def)
    qed
  qed simp
  then show ?thesis by (simp add: digest_algo_get_by_name_def)
qed

section \<open>The secret store\<close>

type_synonym keystore = "(string \<times> bytes) list"

definition keystore_compare :: "string \<times> bytes \<Rightarrow> string \<times> bytes \<Rightarrow> int" where
  "keystore_compare a b = strcmp (fst a) (fst b)"

fun get_key :: "keystore \<Rightarrow> string \<Rightarrow> bytes option" where
  "get_key [] name = None"
| "get_key (key # ks) name = (if name = fst key then Some (snd key) else get_key ks name)"

definition keystore_get_secret :: "keystore \<Rightarrow> string \<Rightarrow> int + bytes" where
  "keystore_get_secret ks name =
     (case get_key ks name of None \<Rightarrow> Inl (- ENOENT) | Some secret \<Rightarrow> Inr secret)"

definition keystore_set_secret :: "keystore \<Rightarrow> string \<Rightarrow> bytes \<Rightarrow> int \<times> keystore" where
  "keystore_set_secret ks name secret =
     (if get_key ks name \<noteq> None then (- EBUSY, ks)
      else (0, list_add_sort (name, secret) ks keystore_compare))"

fun keystore_forget_secret :: "keystore \<Rightarrow> string \<Rightarrow> keystore" where
  "keystore_forget_secret [] name = []"
| "keystore_forget_secret (key # ks) name =
     (if name = fst key then ks else key # keystore_forget_secret ks name)"

lemma get_key_map_of: "get_key ks = map_of ks"
proof
  fix name
  show "get_key ks name = map_of ks name" by (induction ks) auto
qed

lemma keystore_get_set:
  assumes "keystore_set_secret ks name secret = (0, ks')"
  shows "get_key ks' = (get_key ks)(name \<mapsto> secret)"
proof -
  from assms have new: "get_key ks name = None"
    and ks': "ks' = list_add_sort (name, secret) ks keystore_compare"
    by (auto simp: keystore_set_secret_def split: if_splits)
  from list_add_sort_split [of ks "(name, secret)" keystore_compare]
  obtain ys zs where "ks = ys @ zs" and "ks' = ys @ (name, secret) # zs"
    using ks' by auto
  with new show ?thesis by (auto simp: get_key_map_of map_add_def fun_eq_iff split: option.splits)
qed

record crypto =
  digests :: "digest_algo list"
  keystore_list :: keystore

end
