(* ===== verification/Crc.thy ===== *)
theory Crc
  imports Prelude
begin

text \<open>
  The checksums of \<^verbatim>\<open>crypto/crc32.c\<close> and \<^verbatim>\<open>crypto/crc-itu-t.c\<close>: the
  table-driven routines that the state framework and RATP call, the position independent
  bitwise routine, and the facts the clients rely on (the routines agree, checksums can be
  computed piecewise, a damaged run of up to four bytes is always noticed).

  The C code fills its tables on first use and then keeps them; the tables are constants
  here, since filling them twice stores the same values.
\<close>

section \<open>CRC-32\<close>

subsection \<open>The table-driven routine\<close>

definition crc32_poly_terms :: "nat list" where
  "crc32_poly_terms = [0, 1, 2, 4, 5, 7, 8, 10, 11, 12, 16, 22, 23, 26]"

definition crc32_poly :: u32 where
  "crc32_poly = foldl (\<lambda>poly n. poly OR push_bit (31 - n) 1) 0 crc32_poly_terms"

definition crc32_bit :: "u32 \<Rightarrow> u32" where
  "crc32_bit c = (if c AND 1 \<noteq> 0 then crc32_poly XOR drop_bit 1 c else drop_bit 1 c)"

definition make_crc_table :: "u32 list" where
  "make_crc_table = map (\<lambda>n. (crc32_bit ^^ 8) (of_nat n)) [0..<256]"

definition DO1 :: "u32 \<Rightarrow> u8 \<Rightarrow> u32" where
  "DO1 crc b = make_crc_table ! unat ((crc XOR ucast b) AND 0xff) XOR drop_bit 8 crc"

function crc32_no_comp :: "u32 \<Rightarrow> bytes \<Rightarrow> u32" where
  "crc32_no_comp crc buf =
     (if 8 \<le> length buf then crc32_no_comp (foldl DO1 crc (take 8 buf)) (drop 8 buf)
      else foldl DO1 crc buf)"
  by pat_completeness auto
termination
  by (relation "measure (\<lambda>(crc, buf). length buf)") auto

declare crc32_no_comp.simps [simp del]

definition crc32 :: "u32 \<Rightarrow> bytes \<Rightarrow> u32" where
  "crc32 crc buf = NOT (crc32_no_comp (NOT crc) buf)"

subsection \<open>The bitwise routine\<close>

definition pi_crc32_bit :: "u32 \<Rightarrow> u32" where
  "pi_crc32_bit crc = (let mask = - (crc AND 1) in drop_bit 1 crc XOR (0xEDB88320 AND mask))"

definition pi_crc32_byte :: "u32 \<Rightarrow> u8 \<Rightarrow> u32" where
  "pi_crc32_byte crc b = (pi_crc32_bit ^^ 8) (crc XOR ucast b)"

definition pi_crc32 :: "u32 \<Rightarrow> bytes \<Rightarrow> u32" where
  "pi_crc32 crc buf = NOT (foldl pi_crc32_byte (NOT crc) buf)"

subsection \<open>One bit of the register\<close>

lemma crc32_poly_eq: "crc32_poly = 0xEDB88320"
  by (simp add: crc32_poly_def crc32_poly_terms_def)

lemma and_1_neq_0: "(c AND 1 \<noteq> (0 :: u32)) \<longleftrightarrow> bit c 0"
  by (simp add: bit_0 and_one_eq odd_iff_mod_2_eq_one)

lemma xor_right_cancel: "x XOR p = y XOR p \<longleftrightarrow> x = (y :: 'a::len word)"
proof
  assume "x XOR p = y XOR p"
  then have "(x XOR p) XOR p = (y XOR p) XOR p" by simp
  then show "x = y" by (simp add: xor.assoc)
qed simp

lemma pi_crc32_bit_eq: "pi_crc32_bit c = crc32_bit c"
  by (cases "bit c 0")
    (auto simp: pi_crc32_bit_def crc32_bit_def crc32_poly_eq and_1_neq_0 bit_0 and_one_eq
      odd_iff_mod_2_eq_one xor.commute)

lemma crc32_bit_alt: "crc32_bit c = drop_bit 1 c XOR (if bit c 0 then crc32_poly else 0)"
  by (simp add: crc32_bit_def and_1_neq_0 xor.commute)

lemma crc32_bit_xor: "crc32_bit (x XOR y) = crc32_bit x XOR crc32_bit y"
  by (auto simp: crc32_bit_alt bit_xor_iff drop_bit_xor xor.assoc xor.left_commute xor.commute)

lemma crc32_bits_xor: "(crc32_bit ^^ n) (x XOR y) = (crc32_bit ^^ n) x XOR (crc32_bit ^^ n) y"
  by (induction n) (simp_all add: crc32_bit_xor)

lemma crc32_bit_31: "bit (crc32_bit c) 31 \<longleftrightarrow> bit c 0"
  by (auto simp: crc32_bit_alt crc32_poly_eq bit_xor_iff bit_drop_bit_eq
      dest: bit_imp_le_length)

lemma crc32_bit_inject: "crc32_bit x = crc32_bit y \<longleftrightarrow> x = y"
proof
  assume eq: "crc32_bit x = crc32_bit y"
  then have b0: "bit x 0 = bit y 0" by (metis crc32_bit_31)
  with eq have dr: "drop_bit 1 x = drop_bit 1 y"
    by (auto simp: crc32_bit_alt xor_right_cancel split: if_splits)
  show "x = y"
  proof (rule bit_word_eqI)
    fix n
    show "bit x n = bit y n"
    proof (cases n)
      case 0
      with b0 show ?thesis by simp
    next
      case (Suc m)
      then show ?thesis
        using arg_cong [OF dr, of "\<lambda>w. bit w m"] by (simp add: bit_drop_bit_eq)
    qed
  qed
qed simp

lemma crc32_bits_inject: "(crc32_bit ^^ n) x = (crc32_bit ^^ n) y \<longleftrightarrow> x = y"
  by (induction n) (simp_all add: crc32_bit_inject)

lemma crc32_bits_shift:
  assumes "\<And>i. i < n \<Longrightarrow> \<not> bit c i"
  shows "(crc32_bit ^^ n) c = drop_bit n c"
  using assms
proof (induction n)
  case (Suc n)
  then have "(crc32_bit ^^ n) c = drop_bit n c" and "\<not> bit c n" by auto
  then have "(crc32_bit ^^ Suc n) c = drop_bit 1 (drop_bit n c)"
    using crc32_bit_alt [of "drop_bit n c"] by (simp add: bit_drop_bit_eq)
  then show ?case by (simp add: drop_bit_drop_bit)
qed simp

subsection \<open>The routines agree\<close>

lemma make_crc_table_nth: "n < 256 \<Longrightarrow> make_crc_table ! n = (crc32_bit ^^ 8) (of_nat n)"
  by (simp add: make_crc_table_def)

lemma unat_and_ff: "unat (w AND 0xff :: u32) < 256"
proof -
  have "unat (w AND 0xff) \<le> unat (0xff :: u32)"
    by (rule word_and_le1 [THEN word_le_nat_alt [THEN iffD1]])
  then show ?thesis by simp
qed

lemma DO1_eq: "DO1 crc b = (crc32_bit ^^ 8) (crc XOR ucast b)"
proof -
  let ?w = "crc XOR ucast b"
  have low: "make_crc_table ! unat (?w AND 0xff) = (crc32_bit ^^ 8) (?w AND 0xff)"
    by (simp add: make_crc_table_nth unat_and_ff)
  have split: "?w = (?w AND 0xff) XOR (?w AND NOT 0xff)"
    by (rule bit_word_eqI) (auto simp: bit_simps)
  have "(crc32_bit ^^ 8) (?w AND NOT 0xff) = drop_bit 8 (?w AND NOT 0xff)"
    by (rule crc32_bits_shift) (auto simp: bit_simps ff_mask)
  also have "\<dots> = drop_bit 8 crc"
    by (rule bit_word_eqI) (auto simp: bit_simps ff_mask dest: bit_imp_le_length)
  finally have "(crc32_bit ^^ 8) ?w = (crc32_bit ^^ 8) (?w AND 0xff) XOR drop_bit 8 crc"
    by (subst split) (simp only: crc32_bits_xor)
  with low show ?thesis by (simp add: DO1_def)
qed

lemma crc32_no_comp_foldl: "crc32_no_comp crc buf = foldl DO1 crc buf"
proof (induction crc buf rule: crc32_no_comp.induct)
  case (1 crc buf)
  then show ?case
    by (subst crc32_no_comp.simps) (auto simp flip: foldl_append)
qed

lemma pi_crc32_byte_eq: "pi_crc32_byte = DO1"
proof -
  have "pi_crc32_bit = crc32_bit" by (rule ext) (rule pi_crc32_bit_eq)
  then show ?thesis by (intro ext) (simp add: pi_crc32_byte_def DO1_eq)
qed

lemma crc32_pi_crc32: "crc32 crc buf = pi_crc32 crc buf"
  by (simp add: crc32_def pi_crc32_def crc32_no_comp_foldl pi_crc32_byte_eq)

lemma crc32_append: "crc32 crc (xs @ ys) = crc32 (crc32 crc xs) ys"
  by (simp add: crc32_def crc32_no_comp_foldl)

subsection \<open>Damaged bytes\<close>

text \<open>
  Up to four bytes fit into the register at once: shifting them in one after the other
  is the same as xoring the register with the little-endian word of the bytes and then
  running the register for eight bits per byte. Since every run of the register is
  injective, two different runs of at most four bytes never give the same checksum,
  whatever stands before and after them.
\<close>

fun le_word :: "bytes \<Rightarrow> u32" where
  "le_word [] = 0"
| "le_word (b # bs) = ucast b XOR push_bit 8 (le_word bs)"

lemma crc32_bits_push:
  assumes "\<And>i. 24 \<le> i \<Longrightarrow> \<not> bit w i"
  shows "(crc32_bit ^^ 8) (push_bit 8 w) = w"
proof -
  have "(crc32_bit ^^ 8) (push_bit 8 w) = drop_bit 8 (push_bit 8 w)"
    by (rule crc32_bits_shift) (simp add: bit_push_bit_iff)
  also have "\<dots> = w"
  proof (rule bit_word_eqI)
    fix n
    show "bit (drop_bit 8 (push_bit 8 w)) n = bit w n"
      using assms [of n] by (cases "24 \<le> n") (auto simp: bit_simps)
  qed
  finally show ?thesis .
qed

lemma bit_le_word: "bit (le_word bs) i \<Longrightarrow> i < 8 * length bs"
proof (induction bs arbitrary: i)
  case (Cons b bs)
  from Cons.prems consider "bit b i" | "8 \<le> i" "bit (le_word bs) (i - 8)"
    by (auto simp: bit_xor_iff bit_ucast_iff bit_push_bit_iff)
  then show ?case
  proof cases
    case 1
    then show ?thesis by (auto dest: bit_imp_le_length)
  next
    case 2
    then show ?thesis using Cons.IH [of "i - 8"] by simp
  qed
qed simp

lemma foldl_DO1_le_word:
  "length bs \<le> 4 \<Longrightarrow> foldl DO1 crc bs = (crc32_bit ^^ (8 * length bs)) (crc XOR le_word bs)"
proof (induction bs arbitrary: crc)
  case (Cons b bs)
  have "\<not> bit (le_word bs) i" if "24 \<le> i" for i
    using bit_le_word [of bs i] that Cons.prems by auto
  then have push: "(crc32_bit ^^ 8) (push_bit 8 (le_word bs)) = le_word bs"
    by (rule crc32_bits_push)
  have "foldl DO1 crc (b # bs)
      = (crc32_bit ^^ (8 * length bs)) ((crc32_bit ^^ 8) (crc XOR ucast b) XOR le_word bs)"
    using Cons.IH [of "DO1 crc b"] Cons.prems by (simp add: DO1_eq [of crc b])
  also have "(crc32_bit ^^ 8) (crc XOR ucast b) XOR le_word bs
      = (crc32_bit ^^ 8) (crc XOR le_word (b # bs))"
    by (subst push [symmetric]) (simp add: xor.assoc flip: crc32_bits_xor)
  also have "(crc32_bit ^^ (8 * length bs)) \<dots>
      = (crc32_bit ^^ (8 * length (b # bs))) (crc XOR le_word (b # bs))"
  proof -
    have "8 * length (b # bs) = 8 * length bs + 8" by simp
    then show ?thesis by (simp only: funpow_add o_apply)
  qed
  finally show ?case .
qed simp

lemma le_word_inject:
  "length bs \<le> 4 \<Longrightarrow> length cs = length bs \<Longrightarrow> le_word bs = le_word cs \<longleftrightarrow> bs = cs"
proof (induction bs arbitrary: cs)
  case (Cons b bs)
  then obtain c cs' where cs: "cs = c # cs'" and len: "length cs' = length bs"
    by (cases cs) auto
  have high: "\<not> bit (le_word xs) i" if "24 \<le> i" "length xs = length bs" for xs i
    using bit_le_word [of xs i] that Cons.prems(1) by auto
  show ?case
  proof
    assume eq: "le_word (b # bs) = le_word cs"
    have b: "bit (ucast b XOR push_bit 8 (le_word bs)) i
        = bit (ucast c XOR push_bit 8 (le_word cs')) i" for i
      using eq cs by simp
    have "bit b i = bit c i" if "i < 8" for i
      using b [of i] that by (simp add: bit_simps)
    then have "b = c" by (auto intro: bit_word_eqI)
    moreover have "le_word bs = le_word cs'"
    proof (rule bit_word_eqI)
      fix i
      show "bit (le_word bs) i = bit (le_word cs') i"
        using b [of "i + 8"] high [of i bs] high [of i cs'] len \<open>b = c\<close>
        by (cases "24 \<le> i") (auto simp: bit_simps dest: bit_imp_le_length)
    qed
    ultimately show "b # bs = cs"
      using Cons.IH [of cs'] Cons.prems(1) cs len by simp
  qed simp
qed simp

lemma DO1_inject: "DO1 x b = DO1 y b \<longleftrightarrow> x = y"
  by (simp add: DO1_eq crc32_bits_inject xor_right_cancel)

lemma foldl_DO1_inject: "foldl DO1 x bs = foldl DO1 y bs \<longleftrightarrow> x = y"
  by (induction bs arbitrary: x y) (simp_all add: DO1_inject)

lemma crc32_burst_inject:
  assumes "length bs \<le> 4" and "length cs = length bs"
  shows "crc32 crc (xs @ bs @ ys) = crc32 crc (xs @ cs @ ys) \<longleftrightarrow> bs = cs"
proof -
  have "crc32 crc (xs @ bs @ ys) = crc32 crc (xs @ cs @ ys)
      \<longleftrightarrow> foldl DO1 (foldl DO1 (NOT crc) xs) bs = foldl DO1 (foldl DO1 (NOT crc) xs) cs"
    by (simp add: crc32_def crc32_no_comp_foldl foldl_DO1_inject)
  also have "\<dots> \<longleftrightarrow> le_word bs = le_word cs"
    using assms by (simp add: foldl_DO1_le_word crc32_bits_inject xor.commute
        xor_right_cancel [of _ "foldl DO1 (NOT crc) xs"])
  finally show ?thesis using assms by (simp add: le_word_inject)
qed

subsection \<open>Evaluation\<close>

text \<open>Rules by which the simplifier computes the checksum of a literal buffer.\<close>

lemma crc32_bits_8:
  "(crc32_bit ^^ 8) c = crc32_bit (crc32_bit (crc32_bit (crc32_bit
     (crc32_bit (crc32_bit (crc32_bit (crc32_bit c)))))))"
  by (simp add: numeral_eq_Suc)

lemma crc32_foldl: "crc32 crc buf = NOT (foldl DO1 (NOT crc) buf)"
  by (simp add: crc32_def crc32_no_comp_foldl)

lemmas crc32_eval = crc32_foldl DO1_eq crc32_bits_8 crc32_bit_def crc32_poly_eq

section \<open>CRC-ITU-T\<close>

definition crc_itu_t_bit :: "u16 \<Rightarrow> u16" where
  "crc_itu_t_bit crc =
     (if crc AND 0x8000 \<noteq> 0 then push_bit 1 crc XOR 0x1021 else push_bit 1 crc)"

definition crc_itu_t_byte :: "u16 \<Rightarrow> u8 \<Rightarrow> u16" where
  "crc_itu_t_byte crc data = (crc_itu_t_bit ^^ 8) (crc XOR push_bit 8 (ucast data))"

definition crc_itu_t_table :: "u16 list" where
  "crc_itu_t_table = map (\<lambda>n. crc_itu_t_byte 0 (of_nat n)) [0..<256]"

fun crc_itu_t :: "u16 \<Rightarrow> bytes \<Rightarrow> u16" where
  "crc_itu_t crc [] = crc"
| "crc_itu_t crc (b # buffer) =
     crc_itu_t (push_bit 8 crc
       XOR crc_itu_t_table ! unat ((drop_bit 8 crc XOR ucast b) AND 0xff)) buffer"

lemma and_8000_neq_0: "(c AND 0x8000 \<noteq> (0 :: u16)) \<longleftrightarrow> bit c 15"
  using and_exp_eq_0_iff_not_bit [of c 15] by auto

lemma crc_itu_t_bit_alt:
  "crc_itu_t_bit c = push_bit 1 c XOR (if bit c 15 then 0x1021 else 0)"
  by (simp add: crc_itu_t_bit_def and_8000_neq_0)

lemma crc_itu_t_bit_xor: "crc_itu_t_bit (x XOR y) = crc_itu_t_bit x XOR crc_itu_t_bit y"
  by (auto simp: crc_itu_t_bit_alt bit_xor_iff push_bit_xor xor.assoc xor.left_commute
      xor.commute)

lemma crc_itu_t_bits_xor:
  "(crc_itu_t_bit ^^ n) (x XOR y) = (crc_itu_t_bit ^^ n) x XOR (crc_itu_t_bit ^^ n) y"
  by (induction n) (simp_all add: crc_itu_t_bit_xor)

lemma crc_itu_t_bits_shift:
  assumes "\<And>i. 16 \<le> i + n \<Longrightarrow> \<not> bit c i"
  shows "(crc_itu_t_bit ^^ n) c = push_bit n c"
  using assms
proof (induction n)
  case (Suc n)
  then have IH: "(crc_itu_t_bit ^^ n) c = push_bit n c" by auto
  have "\<not> bit (push_bit n c) 15"
    using Suc.prems [of "15 - n"] by (auto simp: bit_push_bit_iff)
  with IH have "(crc_itu_t_bit ^^ Suc n) c = push_bit 1 (push_bit n c)"
    using crc_itu_t_bit_alt [of "push_bit n c"] by simp
  then show ?case by (simp add: push_bit_push_bit)
qed simp

lemma crc_itu_t_table_step:
  "push_bit 8 crc XOR crc_itu_t_table ! unat ((drop_bit 8 crc XOR ucast b) AND 0xff)
     = crc_itu_t_byte crc b"
proof -
  let ?i = "(drop_bit 8 crc XOR ucast b) AND 0xff"
  have "unat ?i \<le> unat (0xff :: u16)"
    by (rule word_and_le1 [THEN word_le_nat_alt [THEN iffD1]])
  then have "crc_itu_t_table ! unat ?i = crc_itu_t_byte 0 (of_nat (unat ?i))"
    by (simp add: crc_itu_t_table_def)
  also have "\<dots> = (crc_itu_t_bit ^^ 8) (push_bit 8 ?i)"
    unfolding crc_itu_t_byte_def
    by (rule arg_cong [where f = "crc_itu_t_bit ^^ 8"], rule bit_word_eqI)
      (auto simp: bit_simps ff_mask)
  finally have tab: "crc_itu_t_table ! unat ?i = (crc_itu_t_bit ^^ 8) (push_bit 8 ?i)" .
  have split: "crc XOR push_bit 8 (ucast b) = push_bit 8 ?i XOR (crc AND 0xff)"
    by (rule bit_word_eqI) (auto simp: bit_simps ff_mask)
  have "(crc_itu_t_bit ^^ 8) (crc AND 0xff) = push_bit 8 (crc AND 0xff)"
    by (rule crc_itu_t_bits_shift) (auto simp: bit_simps ff_mask)
  also have "\<dots> = push_bit 8 crc"
    by (rule bit_word_eqI) (auto simp: bit_simps ff_mask)
  finally show ?thesis
    unfolding crc_itu_t_byte_def split crc_itu_t_bits_xor tab by (simp only: xor.commute)
qed

lemma crc_itu_t_foldl: "crc_itu_t crc bs = foldl crc_itu_t_byte crc bs"
  by (induction bs arbitrary: crc) (simp_all add: crc_itu_t_table_step)

lemma crc_itu_t_bits_8:
  "(crc_itu_t_bit ^^ 8) c = crc_itu_t_bit (crc_itu_t_bit (crc_itu_t_bit (crc_itu_t_bit
     (crc_itu_t_bit (crc_itu_t_bit (crc_itu_t_bit (crc_itu_t_bit c)))))))"
  by (simp add: numeral_eq_Suc)

lemmas crc_itu_t_eval = crc_itu_t_foldl crc_itu_t_byte_def crc_itu_t_bits_8 crc_itu_t_bit_def

section \<open>Properties\<close>

text \<open>C12. The table-driven \<^verbatim>\<open>crc32\<close> (unrolled eight bytes at a time, with a table built from
  the exponents of the polynomial) and the position independent bitwise \<^verbatim>\<open>__pi_crc32\<close>
  return the same checksum for every seed and every buffer.
\<close>

theorem crc32_eq_pi_crc32: "crc32 crc buf = pi_crc32 crc buf"
  by (rule crc32_pi_crc32)

text \<open>C11. Damage confined to four consecutive bytes is always detected by \<^verbatim>\<open>crc32\<close>: two
  buffers of the same length that differ, and differ only within a window of at most four
  bytes, have different checksums.
\<close>

theorem crc32_detects_burst:
  assumes "length bs \<le> 4" and "length cs = length bs" and "bs \<noteq> cs"
  shows "crc32 crc (xs @ bs @ ys) \<noteq> crc32 crc (xs @ cs @ ys)"
  using assms by (simp add: crc32_burst_inject)

theorem crc32_detects_burst_witness:
  "crc32 0 ([1, 2] @ [3, 4] @ [5]) \<noteq> crc32 0 ([1, 2] @ [4, 3] @ [5])"
  by (rule crc32_detects_burst) simp_all

end
