(* ===== verification/Raw_Format.thy ===== *)
theory Raw_Format
  imports State_Vars Crypto Crc "HOL-Library.Monad_Syntax"
begin

text \<open>
  The raw storage format of a state instance
  (\<^verbatim>\<open>common/state/backend_format_raw.c\<close>): a sixteen byte header with magic, data length
  and two checksums, the data area in which every variable has its fixed place, and an
  optional keyed digest over header and data.

  \<open>None\<close> as the result of packing or unpacking is a copy outside the buffer.
\<close>

section \<open>Header\<close>

record backend_raw_header =
  h_magic :: u32
  h_reserved :: u16
  h_data_len :: u16
  h_data_crc :: u32
  h_header_crc :: u32

abbreviation (input) format_raw_min_length :: nat where "format_raw_min_length \<equiv> 16"

definition raw_header_bytes :: "backend_raw_header \<Rightarrow> bytes" where
  "raw_header_bytes h = le32 (h_magic h) @ le16 (h_reserved h) @ le16 (h_data_len h)
     @ le32 (h_data_crc h) @ le32 (h_header_crc h)"

definition raw_header_of :: "bytes \<Rightarrow> backend_raw_header" where
  "raw_header_of buf =
     \<lparr>h_magic = of_le32 (subbuf 0 4 buf), h_reserved = of_le16 (subbuf 4 2 buf),
      h_data_len = of_le16 (subbuf 6 2 buf), h_data_crc = of_le32 (subbuf 8 4 buf),
      h_header_crc = of_le32 (subbuf 12 4 buf)\<rparr>"

section \<open>The format object\<close>

record state_backend_format_raw =
  fr_digest :: "digest option"
  fr_digest_length :: nat
  fr_secret_name :: string
  fr_algo :: "string option"

definition backend_raw_digest_init ::
  "crypto \<Rightarrow> state_backend_format_raw \<Rightarrow> int \<times> state_backend_format_raw" where
  "backend_raw_digest_init cr raw =
     (let raw' = (case fr_digest raw of
          Some _ \<Rightarrow> raw
        | None \<Rightarrow>
            (case digest_alloc (digests cr) (the (fr_algo raw)) of
               None \<Rightarrow> raw
             | Some d \<Rightarrow> raw\<lparr>fr_digest := Some d, fr_digest_length := digest_length d\<rparr>))
      in case fr_digest raw' of
           None \<Rightarrow> (- ENODEV, raw')
         | Some d \<Rightarrow>
             (case keystore_get_secret (keystore_list cr) (fr_secret_name raw') of
                Inl ret \<Rightarrow> (ret, raw')
              | Inr key \<Rightarrow>
                  (case digest_set_key d key of (ret, d) \<Rightarrow>
                     if ret \<noteq> 0 then (ret, raw'\<lparr>fr_digest := Some d\<rparr>)
                     else (case digest_init d of (ret, d) \<Rightarrow> (ret, raw'\<lparr>fr_digest := Some d\<rparr>)))))"

section \<open>Verification\<close>

definition backend_format_raw_verify ::
  "config \<Rightarrow> crypto \<Rightarrow> state_backend_format_raw \<Rightarrow> u32 \<Rightarrow> bytes \<Rightarrow> nat \<Rightarrow> bool
     \<Rightarrow> int \<times> nat \<times> state_backend_format_raw" where
  "backend_format_raw_verify cfg cr raw magic buf len no_auth =
     (if len < format_raw_min_length then (- EINVAL, len, raw)
      else let header = raw_header_of buf; crc = crc32 0 (subbuf 0 12 buf)
      in if crc \<noteq> h_header_crc header
           \<and> \<not> fuzz_insecure_checksum_accepted cfg crc (h_header_crc header)
         then (if h_header_crc header \<noteq> 0 then - EINVAL else - ENOMEDIUM, len, raw)
      else if magic \<noteq> 0 \<and> magic \<noteq> h_magic header then (- EINVAL, len, raw)
      else let auth = (fr_algo raw \<noteq> None \<and> \<not> no_auth)
      in case (if auth then backend_raw_digest_init cr raw else (0, raw)) of (ret, raw) \<Rightarrow>
         if ret \<noteq> 0 then (ret, len, raw)
      else let d_len = (if auth then digest_length (the (fr_digest raw)) else 0);
               data_len = unat (h_data_len header)
      in if len < data_len + d_len + format_raw_min_length then (- EINVAL, len, raw)
      else let crc = crc32 0 (subbuf 16 data_len buf)
      in if crc \<noteq> h_data_crc header
           \<and> \<not> fuzz_insecure_checksum_accepted cfg crc (h_data_crc header)
         then (- EINVAL, len, raw)
      else let len = data_len + 16
      in if \<not> auth then (0, len, raw)
      else case digest_update (the (fr_digest raw)) (subbuf 0 (16 + data_len) buf) of (ret, d) \<Rightarrow>
         let raw = raw\<lparr>fr_digest := Some d\<rparr>
      in if ret \<noteq> 0 then (ret, len, raw)
      else let ret = digest_generic_verify cfg d (subbuf (16 + data_len) d_len buf)
      in if ret < 0 then (ret, len, raw) else (0, len, raw))"

section \<open>Unpacking\<close>

fun raw_unpack_vars ::
  "bytes \<Rightarrow> u16 \<Rightarrow> state_variable list \<Rightarrow> int \<Rightarrow> (int \<times> state_variable list) option" where
  "raw_unpack_vars data data_len [] ret = Some (ret, [])"
| "raw_unpack_vars data data_len (sv # vars) ret =
     (if ucast data_len < sv_start sv + sv_size sv then
        do { (ret, vars) \<leftarrow> raw_unpack_vars data data_len vars (- ENOSPC);
             Some (ret, sv # vars) }
      else
        do { bs \<leftarrow> memcpy_from data (unat (sv_start sv)) (unat (sv_size sv));
             (ret, vars) \<leftarrow> raw_unpack_vars data data_len vars ret;
             Some (ret, sv_set_raw sv bs # vars) })"

definition backend_format_raw_unpack ::
  "state_variable list \<Rightarrow> bytes \<Rightarrow> (int \<times> state_variable list) option" where
  "backend_format_raw_unpack vars buf =
     raw_unpack_vars (drop 16 buf) (h_data_len (raw_header_of buf)) vars 0"

section \<open>Packing\<close>

fun raw_pack_vars :: "bytes \<Rightarrow> state_variable list \<Rightarrow> bytes option" where
  "raw_pack_vars buf [] = Some buf"
| "raw_pack_vars buf (sv # vars) =
     do { buf \<leftarrow> memcpy_to buf (16 + unat (sv_start sv)) (sv_raw sv);
          raw_pack_vars buf vars }"

definition raw_pack_header :: "u32 \<Rightarrow> u32 \<Rightarrow> bytes \<Rightarrow> backend_raw_header" where
  "raw_pack_header magic size_data data =
     (let h = \<lparr>h_magic = magic, h_reserved = 0, h_data_len = ucast size_data,
               h_data_crc = crc32 0 data, h_header_crc = 0\<rparr>
      in h\<lparr>h_header_crc := crc32 0 (take 12 (raw_header_bytes h))\<rparr>)"

definition backend_format_raw_pack ::
  "crypto \<Rightarrow> state_backend_format_raw \<Rightarrow> u32 \<Rightarrow> state_variable list
     \<Rightarrow> (int \<times> bytes \<times> state_backend_format_raw) option" where
  "backend_format_raw_pack cr raw magic vars =
     (case (if fr_algo raw \<noteq> None then backend_raw_digest_init cr raw else (0, raw)) of (ret, raw) \<Rightarrow>
        if ret \<noteq> 0 then Some (ret, [], raw)
        else
          let size_data = state_data_size vars;
              size_full = size_data + 16 + of_nat (fr_digest_length raw)
          in do {
            buf \<leftarrow> raw_pack_vars (replicate (unat size_full) 0) vars;
            data \<leftarrow> memcpy_from buf 16 (unat size_data);
            buf \<leftarrow> memcpy_to buf 0 (raw_header_bytes (raw_pack_header magic size_data data));
            if fr_algo raw = None then Some (0, buf, raw)
            else case digest_update (the (fr_digest raw)) (subbuf 0 (16 + unat size_data) buf) of
              (ret, d) \<Rightarrow>
                let raw = raw\<lparr>fr_digest := Some d\<rparr>
                in if ret \<noteq> 0 then Some (ret, [], raw)
                   else case digest_final d of (ret, md) \<Rightarrow>
                     if ret < 0 then Some (ret, [], raw)
                     else do { buf \<leftarrow> memcpy_to buf (16 + unat size_data) md;
                               Some (0, buf, raw) } })"

section \<open>Header lemmas\<close>

lemma length_raw_header_bytes [simp, codec_simps]: "length (raw_header_bytes h) = 16"
  by (simp add: raw_header_bytes_def)

lemma raw_header_of_bytes [codec_simps]: "raw_header_of (raw_header_bytes h @ rest) = h"
  by (cases h) (simp add: raw_header_of_def raw_header_bytes_def codec_simps)

lemma raw_header_crc_indep [simp]:
  "take 12 (raw_header_bytes (h\<lparr>h_header_crc := c\<rparr>)) = take 12 (raw_header_bytes h)"
  by (simp add: raw_header_bytes_def)

section \<open>Placement of the variables\<close>

lemma raw_pack_vars_correct:
  assumes "layout_ok vars" and "\<forall>sv \<in> set vars. 16 + sv_end sv \<le> length buf"
  shows "\<exists>buf'. raw_pack_vars buf vars = Some buf' \<and> length buf' = length buf
    \<and> (\<forall>sv \<in> set vars. subbuf (16 + unat (sv_start sv)) (unat (sv_size sv)) buf' = sv_raw sv)
    \<and> (\<forall>off len. (\<forall>sv \<in> set vars. off + len \<le> 16 + unat (sv_start sv))
          \<longrightarrow> subbuf off len buf' = subbuf off len buf)"
  using assms
proof (induction vars arbitrary: buf)
  case (Cons sv vars)
  from Cons.prems(1) have ok: "sv_ok sv" and rest: "layout_ok vars"
    and above: "\<forall>v \<in> set vars. sv_end sv \<le> unat (sv_start v)"
    by (auto simp: layout_ok_Cons)
  from ok have len: "length (sv_raw sv) = unat (sv_size sv)" by (rule length_sv_raw)
  with Cons.prems(2) obtain buf1 where
    buf1: "memcpy_to buf (16 + unat (sv_start sv)) (sv_raw sv) = Some buf1"
    using memcpy_to_Some [of "16 + unat (sv_start sv)" "sv_raw sv" buf] by auto
  then have len1: "length buf1 = length buf" by (rule memcpy_to_length)
  with Cons.IH [OF rest, of buf1] Cons.prems(2) obtain buf2 where
    buf2: "raw_pack_vars buf1 vars = Some buf2" "length buf2 = length buf1"
      "\<forall>v \<in> set vars. subbuf (16 + unat (sv_start v)) (unat (sv_size v)) buf2 = sv_raw v"
    and frame: "\<And>off len. (\<forall>v \<in> set vars. off + len \<le> 16 + unat (sv_start v))
          \<Longrightarrow> subbuf off len buf2 = subbuf off len buf1"
    by auto
  have here: "subbuf (16 + unat (sv_start sv)) (unat (sv_size sv)) buf2 = sv_raw sv"
    using frame [of "16 + unat (sv_start sv)" "unat (sv_size sv)"] above
      memcpy_to_same [OF buf1] len by (simp add: add.assoc)
  have below: "subbuf off l buf2 = subbuf off l buf"
    if "\<forall>v \<in> set (sv # vars). off + l \<le> 16 + unat (sv_start v)" for off l
    using frame [of off l] memcpy_to_below [OF buf1, of off l] that by auto
  show ?case
    using buf1 buf2 len1 here below by auto
qed simp


section \<open>The stored image\<close>

text \<open>The digest a correctly configured format computes, and what it needs for it: a
  registered driver that works and a secret in the keystore.\<close>

definition raw_hmac :: "crypto \<Rightarrow> state_backend_format_raw \<Rightarrow> bytes \<Rightarrow> bytes" where
  "raw_hmac cr raw msg =
     (case fr_algo raw of
        None \<Rightarrow> []
      | Some name \<Rightarrow>
          snd (a_final (the (digest_algo_get_by_name (digests cr) name))
                 (the (get_key (keystore_list cr) (fr_secret_name raw))) msg))"

definition raw_auth_ok :: "crypto \<Rightarrow> state_backend_format_raw \<Rightarrow> bool" where
  "raw_auth_ok cr raw \<longleftrightarrow>
     (case fr_algo raw of
        None \<Rightarrow> fr_digest_length raw = 0
      | Some name \<Rightarrow>
          (\<exists>a key. digest_algo_get_by_name (digests cr) name = Some a \<and> digest_algo_ok a
             \<and> get_key (keystore_list cr) (fr_secret_name raw) = Some key
             \<and> (\<forall>d. fr_digest raw = Some d \<longrightarrow> d_algo d = a \<and> fr_digest_length raw = a_length a)))"

definition raw_same_key :: "state_backend_format_raw \<Rightarrow> state_backend_format_raw \<Rightarrow> bool" where
  "raw_same_key a b \<longleftrightarrow> fr_algo a = fr_algo b \<and> fr_secret_name a = fr_secret_name b"

definition raw_image :: "crypto \<Rightarrow> state_backend_format_raw \<Rightarrow> u32 \<Rightarrow> bytes \<Rightarrow> bytes" where
  "raw_image cr raw magic data =
     (let hdr = raw_header_bytes (raw_pack_header magic (of_nat (length data)) data)
      in hdr @ data @ raw_hmac cr raw (hdr @ data))"

lemma raw_hmac_cong: "raw_same_key a b \<Longrightarrow> raw_hmac cr a = raw_hmac cr b"
  by (rule ext) (simp add: raw_hmac_def raw_same_key_def split: option.split)

lemma raw_image_cong: "raw_same_key a b \<Longrightarrow> raw_image cr a = raw_image cr b"
  by (intro ext) (simp add: raw_image_def raw_hmac_cong [of a b])

lemma raw_digest_init_ok:
  assumes "raw_auth_ok cr raw" and "fr_algo raw = Some name"
  obtains a key where
    "backend_raw_digest_init cr raw =
       (0, raw\<lparr>fr_digest := Some \<lparr>d_algo = a, d_key = key, d_msg = []\<rparr>,
              fr_digest_length := a_length a\<rparr>)"
    and "digest_algo_ok a"
    and "\<And>msg. raw_hmac cr raw msg = snd (a_final a key msg)"
    and "digest_algo_get_by_name (digests cr) name = Some a"
    and "get_key (keystore_list cr) (fr_secret_name raw) = Some key"
proof -
  from assms obtain a key where a: "digest_algo_get_by_name (digests cr) name = Some a"
      "digest_algo_ok a" "get_key (keystore_list cr) (fr_secret_name raw) = Some key"
    and d: "\<And>d. fr_digest raw = Some d \<Longrightarrow> d_algo d = a \<and> fr_digest_length raw = a_length a"
    by (auto simp: raw_auth_ok_def)
  from a(2) obtain sk where ok: "a_alloc a = 0" "a_init a = 0" "a_set_key a = Some sk"
      "\<And>key. sk key = 0"
    by (auto simp: digest_algo_ok_def)
  have key: "keystore_get_secret (keystore_list cr) (fr_secret_name raw) = Inr key"
    using a(3) by (simp add: keystore_get_secret_def)
  have set: "digest_set_key dg key = (0, dg\<lparr>d_key := key\<rparr>)"
    and init: "d_key dg = key \<Longrightarrow> digest_init dg = (0, \<lparr>d_algo = a, d_key = key, d_msg = []\<rparr>)"
    if "d_algo dg = a" for dg
    using that ok by (simp_all add: digest_set_key_def digest_init_def digest.equality)
  have "backend_raw_digest_init cr raw =
      (0, raw\<lparr>fr_digest := Some \<lparr>d_algo = a, d_key = key, d_msg = []\<rparr>,
             fr_digest_length := a_length a\<rparr>)"
  proof (cases "fr_digest raw")
    case None
    then show ?thesis
      using assms(2) a(1) ok(1) key
      by (simp add: backend_raw_digest_init_def digest_alloc_def digest_length_def set init)
  next
    case (Some dg)
    then show ?thesis
      using d [OF Some] key
      by (simp add: backend_raw_digest_init_def set init)
  qed
  then show ?thesis
    using that a assms(2) by (simp add: raw_hmac_def)
qed

lemma length_raw_hmac:
  assumes "digest_algo_ok a" and "\<And>msg. raw_hmac cr raw msg = snd (a_final a key msg)"
  shows "length (raw_hmac cr raw msg) = a_length a"
  using assms by (simp add: digest_algo_ok_def)

lemma raw_pack_size:
  assumes "unat sz + 16 + d < 2 ^ 32"
  shows "unat (sz + 16 + of_nat d :: u32) = 16 + unat sz + d"
  using assms by (simp add: unat_word_ariths unat_of_nat)

lemma raw_digest_run:
  assumes "digest_algo_ok a"
  shows "digest_update \<lparr>d_algo = a, d_key = key, d_msg = []\<rparr> msg
      = (0, \<lparr>d_algo = a, d_key = key, d_msg = msg\<rparr>)"
    and "digest_final \<lparr>d_algo = a, d_key = key, d_msg = msg\<rparr> = (0, snd (a_final a key msg))"
  using assms by (simp_all add: digest_update_def digest_final_def digest_algo_ok_def prod_eq_iff)

lemma raw_pack_data:
  assumes "layout_ok vars" and "length buf = 16 + unat (state_data_size vars) + d_len"
  obtains buf' where "raw_pack_vars buf vars = Some buf'" and "length buf' = length buf"
    and "\<forall>sv \<in> set vars. subbuf (unat (sv_start sv)) (unat (sv_size sv))
             (subbuf 16 (unat (state_data_size vars)) buf') = sv_raw sv"
proof -
  have bound: "sv_end sv \<le> unat (state_data_size vars)" if "sv \<in> set vars" for sv
    using assms(1) that by (rule state_data_size_bound)
  then have "\<forall>sv \<in> set vars. 16 + sv_end sv \<le> length buf"
    using assms(2) by (simp add: add.assoc trans_le_add1)
  from raw_pack_vars_correct [OF assms(1) this] obtain buf' where
    buf': "raw_pack_vars buf vars = Some buf'" "length buf' = length buf"
    and at: "\<forall>sv \<in> set vars. subbuf (16 + unat (sv_start sv)) (unat (sv_size sv)) buf' = sv_raw sv"
    by blast
  have "\<forall>sv \<in> set vars. subbuf (unat (sv_start sv)) (unat (sv_size sv))
             (subbuf 16 (unat (state_data_size vars)) buf') = sv_raw sv"
    using at bound by (simp add: subbuf_slice)
  with buf' show ?thesis by (rule that)
qed

lemma split_image:
  assumes "length buf = 16 + n + d" and "length hdr = 16"
  shows "memcpy_to buf 0 hdr = Some (hdr @ subbuf 16 n buf @ drop (16 + n) buf)"
proof -
  have "drop 16 buf = subbuf 16 n buf @ drop (16 + n) buf"
    by (simp add: subbuf_def add.commute flip: drop_drop)
  then show ?thesis using assms by (simp add: memcpy_to_def)
qed

text \<open>The buffer of the packer once the variables are in it, and how header and digest
  are put around the data.\<close>

lemma raw_pack_buffer:
  assumes "layout_ok vars" and "unat (state_data_size vars) + 16 + d < 2 ^ 32"
  obtains buf data pad where
    "raw_pack_vars (replicate (unat (state_data_size vars + 16 + of_nat d :: u32)) 0) vars = Some buf"
    and "memcpy_from buf 16 (unat (state_data_size vars)) = Some data"
    and "length data = unat (state_data_size vars)" and "length pad = d"
    and "\<And>hdr. length hdr = 16 \<Longrightarrow> memcpy_to buf 0 hdr = Some (hdr @ data @ pad)"
    and "\<forall>sv \<in> set vars. subbuf (unat (sv_start sv)) (unat (sv_size sv)) data = sv_raw sv"
proof -
  let ?n = "unat (state_data_size vars)"
  let ?z = "replicate (16 + ?n + d) (0 :: u8)"
  obtain buf where buf: "raw_pack_vars ?z vars = Some buf" "length buf = length ?z"
      "\<forall>sv \<in> set vars. subbuf (unat (sv_start sv)) (unat (sv_size sv)) (subbuf 16 ?n buf) = sv_raw sv"
    by (rule raw_pack_data [OF assms(1), of ?z d]) simp_all
  then have len: "length buf = 16 + ?n + d" by simp
  show ?thesis
  proof (rule that)
    show "raw_pack_vars (replicate (unat (state_data_size vars + 16 + of_nat d :: u32)) 0) vars
        = Some buf"
      using buf(1) by (simp only: raw_pack_size [OF assms(2)])
    show "memcpy_from buf 16 ?n = Some (subbuf 16 ?n buf)" using len by (simp add: memcpy_from_def)
    show "length (drop (16 + ?n) buf) = d" using len by simp
    show "memcpy_to buf 0 hdr = Some (hdr @ subbuf 16 ?n buf @ drop (16 + ?n) buf)"
      if "length hdr = 16" for hdr using len that by (rule split_image)
  qed (use buf len in simp_all)
qed

text \<open>Packing builds the image: every variable lies in the data area, the header
  describes that area, and the digest is the one over header and data.\<close>

lemma backend_format_raw_pack_image:
  assumes "layout_ok vars" and "raw_auth_ok cr raw"
    and "unat (state_data_size vars) + 16 + length (raw_hmac cr raw []) < 2 ^ 32"
  obtains data raw' where "length data = unat (state_data_size vars)"
    and "\<forall>sv \<in> set vars. subbuf (unat (sv_start sv)) (unat (sv_size sv)) data = sv_raw sv"
    and "backend_format_raw_pack cr raw magic vars = Some (0, raw_image cr raw magic data, raw')"
    and "raw_same_key raw raw'"
proof (cases "fr_algo raw")
  case None
  from None assms have len: "fr_digest_length raw = 0" "unat (state_data_size vars) + 16 + 0 < 2 ^ 32"
    by (simp_all add: raw_auth_ok_def)
  from raw_pack_buffer [OF assms(1) len(2)] obtain buf data pad where
    b: "raw_pack_vars (replicate (unat (state_data_size vars + 16 + of_nat 0 :: u32)) 0) vars = Some buf"
      "memcpy_from buf 16 (unat (state_data_size vars)) = Some data"
      "length data = unat (state_data_size vars)" "length pad = 0"
      "\<And>hdr. length hdr = 16 \<Longrightarrow> memcpy_to buf 0 hdr = Some (hdr @ data @ pad)"
    and at: "\<forall>sv \<in> set vars. subbuf (unat (sv_start sv)) (unat (sv_size sv)) data = sv_raw sv"
    by metis
  have "backend_format_raw_pack cr raw magic vars = Some (0, raw_image cr raw magic data, raw)"
    using None b len(1) by (simp add: backend_format_raw_pack_def raw_image_def raw_hmac_def Let_def)
  with b(3) at show ?thesis by (rule that) (simp add: raw_same_key_def)
next
  case (Some name)
  from raw_digest_init_ok [OF assms(2) Some] obtain a key where
    init: "backend_raw_digest_init cr raw =
       (0, raw\<lparr>fr_digest := Some \<lparr>d_algo = a, d_key = key, d_msg = []\<rparr>,
              fr_digest_length := a_length a\<rparr>)"
    and ok: "digest_algo_ok a" and hmac: "\<And>msg. raw_hmac cr raw msg = snd (a_final a key msg)"
    by metis
  have len: "unat (state_data_size vars) + 16 + a_length a < 2 ^ 32"
    using assms(3) length_raw_hmac [OF ok hmac] by simp
  from raw_pack_buffer [OF assms(1) len] obtain buf data pad where
    b: "raw_pack_vars (replicate (unat (state_data_size vars + 16 + of_nat (a_length a) :: u32)) 0) vars
        = Some buf"
      "memcpy_from buf 16 (unat (state_data_size vars)) = Some data"
      "length data = unat (state_data_size vars)" "length pad = a_length a"
      "\<And>hdr. length hdr = 16 \<Longrightarrow> memcpy_to buf 0 hdr = Some (hdr @ data @ pad)"
    and at: "\<forall>sv \<in> set vars. subbuf (unat (sv_start sv)) (unat (sv_size sv)) data = sv_raw sv"
    by metis
  have md: "length (snd (a_final a key m)) = a_length a" for m using ok by (simp add: digest_algo_ok_def)
  have "\<exists>raw'. backend_format_raw_pack cr raw magic vars = Some (0, raw_image cr raw magic data, raw')
      \<and> raw_same_key raw raw'"
    using Some b md
    by (simp add: backend_format_raw_pack_def init raw_digest_run [OF ok] raw_image_def hmac
        raw_same_key_def Let_def memcpy_to_def [of "_ @ _"] subbuf_def)
  with b(3) at that show ?thesis by blast
qed

section \<open>Verification accepts exactly the valid buffers\<close>

definition raw_valid ::
  "crypto \<Rightarrow> state_backend_format_raw \<Rightarrow> u32 \<Rightarrow> bytes \<Rightarrow> nat \<Rightarrow> bool \<Rightarrow> bool" where
  "raw_valid cr raw magic buf len no_auth \<longleftrightarrow>
     (let h = raw_header_of buf; n = unat (h_data_len h);
          hmac = (if no_auth then [] else raw_hmac cr raw (subbuf 0 (16 + n) buf))
      in 16 + n + length hmac \<le> len
       \<and> crc32 0 (subbuf 0 12 buf) = h_header_crc h
       \<and> (magic = 0 \<or> magic = h_magic h)
       \<and> crc32 0 (subbuf 16 n buf) = h_data_crc h
       \<and> subbuf (16 + n) (length hmac) buf = hmac)"

lemma raw_verify_no_auth:
  assumes "\<not> fuzz_insecure_partial_digest_enabled cfg" and "fr_algo raw = None \<or> no_auth"
  shows "fst (backend_format_raw_verify cfg cr raw magic buf len no_auth) = 0
    \<longleftrightarrow> raw_valid cr raw magic buf len no_auth"
proof -
  have "\<not> (fr_algo raw \<noteq> None \<and> \<not> no_auth)" and "(if no_auth then [] else raw_hmac cr raw m) = []" for m
    using assms(2) by (auto simp: raw_hmac_def)
  then show ?thesis
    using assms(1)
    by (auto simp: backend_format_raw_verify_def raw_valid_def Let_def
        fuzz_insecure_checksum_accepted_def)
qed

lemma raw_verify_auth:
  assumes "\<not> fuzz_insecure_partial_digest_enabled cfg" and "fr_algo raw = Some name"
    and "raw_auth_ok cr raw" and "len \<le> length buf"
  shows "fst (backend_format_raw_verify cfg cr raw magic buf len False) = 0
    \<longleftrightarrow> raw_valid cr raw magic buf len False"
proof -
  from raw_digest_init_ok [OF assms(3,2)] obtain a key where
    init: "backend_raw_digest_init cr raw =
       (0, raw\<lparr>fr_digest := Some \<lparr>d_algo = a, d_key = key, d_msg = []\<rparr>,
              fr_digest_length := a_length a\<rparr>)"
    and ok: "digest_algo_ok a" and hmac: "\<And>msg. raw_hmac cr raw msg = snd (a_final a key msg)"
    by metis
  have md: "length (snd (a_final a key m)) = a_length a" for m using ok by (simp add: digest_algo_ok_def)
  have ver: "digest_generic_verify cfg \<lparr>d_algo = a, d_key = key, d_msg = m\<rparr> (subbuf off (a_length a) buf)
      = (if subbuf off (a_length a) buf = snd (a_final a key m) then 0 else - EINVAL)"
    if "off + a_length a \<le> length buf" for m off
    using that ok assms(1) by (subst digest_generic_verify_iff) (simp_all add: digest_length_def)
  show ?thesis
    using assms(1,2,4)
    by (auto simp: backend_format_raw_verify_def raw_valid_def Let_def init hmac md ver
        raw_digest_run [OF ok] digest_length_def fuzz_insecure_checksum_accepted_def)
qed

lemma raw_verify_len:
  assumes "fst (backend_format_raw_verify cfg cr raw magic buf len no_auth) = 0"
  shows "fst (snd (backend_format_raw_verify cfg cr raw magic buf len no_auth))
    = 16 + unat (h_data_len (raw_header_of buf))"
  using assms
  by (auto simp: backend_format_raw_verify_def Let_def prod.case_eq_if split: if_splits)

section \<open>Images verify\<close>

lemma raw_header_of_image:
  "raw_header_of (raw_image cr raw m data @ pad) = raw_pack_header m (of_nat (length data)) data"
  by (simp add: raw_image_def Let_def raw_header_of_bytes)

lemma raw_pack_header_fields [simp]:
  "h_magic (raw_pack_header m sz data) = m"
  "h_data_len (raw_pack_header m sz data) = ucast sz"
  "h_data_crc (raw_pack_header m sz data) = crc32 0 data"
  "h_header_crc (raw_pack_header m sz data) = crc32 0 (take 12 (raw_header_bytes (raw_pack_header m sz data)))"
  by (simp_all add: raw_pack_header_def Let_def raw_header_bytes_def)

lemma unat_data_len: "n < 65536 \<Longrightarrow> unat (ucast (of_nat n :: u32) :: u16) = n"
  by (simp add: unsigned_ucast_eq unat_of_nat take_bit_nat_eq_self)

lemma length_raw_image:
  "length (raw_image cr raw m data) = 16 + length data + length (raw_hmac cr raw
     (raw_header_bytes (raw_pack_header m (of_nat (length data)) data) @ data))"
  by (simp add: raw_image_def Let_def)

lemma raw_image_valid:
  assumes "length data < 65536" and "magic = 0 \<or> magic = m"
  shows "raw_valid cr raw magic (raw_image cr raw m data @ pad)
    (length (raw_image cr raw m data @ pad)) no_auth"
proof -
  define hdr where "hdr = raw_header_bytes (raw_pack_header m (of_nat (length data)) data)"
  have img: "raw_image cr raw m data @ pad = hdr @ data @ raw_hmac cr raw (hdr @ data) @ pad"
    by (simp add: raw_image_def hdr_def Let_def)
  have hdr: "length hdr = 16" by (simp add: hdr_def)
  let ?b = "raw_image cr raw m data @ pad" and ?n = "length data"
  have parts: "subbuf 0 12 ?b = take 12 hdr" "subbuf 16 ?n ?b = data"
    "subbuf 0 (16 + ?n) ?b = hdr @ data"
    "subbuf (16 + ?n) (length (raw_hmac cr raw (hdr @ data))) ?b = raw_hmac cr raw (hdr @ data)"
    unfolding img using hdr by (simp_all add: subbuf_def)
  have len: "length ?b = 16 + ?n + length (raw_hmac cr raw (hdr @ data)) + length pad"
    by (simp add: length_raw_image hdr_def)
  have h: "h_header_crc (raw_header_of ?b) = crc32 0 (take 12 hdr)" "h_magic (raw_header_of ?b) = m"
    "h_data_crc (raw_header_of ?b) = crc32 0 data" "unat (h_data_len (raw_header_of ?b)) = ?n"
    using assms(1) by (simp_all add: raw_header_of_image unat_data_len hdr_def)
  show ?thesis
    unfolding raw_valid_def Let_def h parts len using assms(2) parts(4) by simp
qed

section \<open>Unpacking\<close>

definition same_layout :: "state_variable list \<Rightarrow> state_variable list \<Rightarrow> bool" where
  "same_layout = list_all2 (\<lambda>a b. sv_type a = sv_type b \<and> sv_name a = sv_name b
     \<and> sv_start a = sv_start b \<and> sv_size a = sv_size b)"

lemma raw_unpack_fits:
  assumes "sv_end sv \<le> unat (dl :: u16)"
  shows "\<not> ucast dl < sv_start sv + sv_size sv"
proof -
  have "unat (ucast dl :: u32) = unat dl"
    by (simp add: unsigned_ucast_eq take_bit_nat_eq_self unsigned_less [THEN order_less_le_trans])
  moreover have "unat (sv_start sv + sv_size sv) = sv_end sv"
    using assms unsigned_less [of dl, where 'a = nat] by (simp add: unat_word_ariths)
  ultimately show ?thesis using assms by (simp add: word_less_nat_alt)
qed

lemma raw_unpack_vars_all:
  assumes "\<forall>sv \<in> set vars. sv_end sv \<le> unat dl" and "unat dl \<le> length data"
  shows "raw_unpack_vars data dl vars ret
    = Some (ret, map (\<lambda>sv. sv_set_raw sv (subbuf (unat (sv_start sv)) (unat (sv_size sv)) data)) vars)"
  using assms
proof (induction vars)
  case (Cons sv vars)
  then show ?case
    using raw_unpack_fits [of sv dl] by (auto simp: memcpy_from_def)
qed simp

text \<open>Whatever the header says, unpacking stays in the verified part of the buffer as long as
  no variable crosses the 32 bit limit.\<close>

lemma raw_unpack_vars_in_bounds:
  assumes "unat dl \<le> length data" and "\<forall>sv \<in> set vars. sv_end sv < 2 ^ 32"
  shows "\<exists>ret' vars'. raw_unpack_vars data dl vars ret = Some (ret', vars')"
  using assms
proof (induction vars arbitrary: ret)
  case (Cons sv vars)
  have "sv_end sv \<le> unat dl" if "\<not> ucast dl < sv_start sv + sv_size sv"
  proof -
    have "unat (sv_start sv + sv_size sv) = sv_end sv"
      using Cons.prems(2) by (simp add: unat_word_ariths)
    with that show ?thesis
      by (simp add: word_less_nat_alt unsigned_ucast_eq)
        (metis not_less order.trans take_bit_nat_less_eq_self)
  qed
  moreover obtain r1 v1 r2 v2 where "raw_unpack_vars data dl vars (- ENOSPC) = Some (r1, v1)"
      "raw_unpack_vars data dl vars ret = Some (r2, v2)"
    using Cons.IH Cons.prems by (metis list.set_intros(2))
  ultimately show ?case
    using Cons.prems(1) by (cases "ucast dl < sv_start sv + sv_size sv") (auto simp: memcpy_from_def)
qed simp

lemma raw_unpack_image:
  assumes "length data < 65536" and "\<forall>sv \<in> set vars. sv_end sv \<le> length data"
  shows "backend_format_raw_unpack vars (raw_image cr raw m data @ pad)
    = Some (0, map (\<lambda>sv. sv_set_raw sv (subbuf (unat (sv_start sv)) (unat (sv_size sv)) data)) vars)"
proof -
  define rest where "rest = raw_hmac cr raw
      (raw_header_bytes (raw_pack_header m (of_nat (length data)) data) @ data) @ pad"
  have "drop 16 (raw_image cr raw m data @ pad) = data @ rest"
    by (simp add: raw_image_def Let_def rest_def)
  moreover have "unat (h_data_len (raw_header_of (raw_image cr raw m data @ pad))) = length data"
    using assms(1) by (simp add: raw_header_of_image unat_data_len)
  ultimately have "backend_format_raw_unpack vars (raw_image cr raw m data @ pad)
      = Some (0, map (\<lambda>sv. sv_set_raw sv (subbuf (unat (sv_start sv)) (unat (sv_size sv)) (data @ rest))) vars)"
    using assms(2) by (simp add: backend_format_raw_unpack_def raw_unpack_vars_all)
  then show ?thesis using assms(2) by (simp add: subbuf_append_left)
qed

lemma same_layout_unpacked:
  assumes "same_layout vars vars2" and "\<forall>sv \<in> set vars2. sv_ok sv" and "layout_ok vars"
    and "\<forall>sv \<in> set vars. subbuf (unat (sv_start sv)) (unat (sv_size sv)) data = sv_raw sv"
  shows "map sv_raw (map (\<lambda>sv. sv_set_raw sv (subbuf (unat (sv_start sv)) (unat (sv_size sv)) data)) vars2)
    = map sv_raw vars"
  using assms unfolding same_layout_def
proof (induction rule: list_all2_induct)
  case (Cons a vs b ws)
  then show ?case
    by (simp add: layout_ok_Cons) (metis length_sv_raw sv_raw_set_raw)
qed simp

lemma raw_verify_bounds:
  assumes "fst (backend_format_raw_verify cfg cr raw magic buf len no_auth) = 0"
  shows "16 + unat (h_data_len (raw_header_of buf)) \<le> len"
  using assms
  by (auto simp: backend_format_raw_verify_def Let_def prod.case_eq_if split: if_splits)

lemma raw_header_of_take: "16 \<le> n \<Longrightarrow> raw_header_of (take n buf) = raw_header_of buf"
  by (simp add: raw_header_of_def subbuf_def drop_take)

section \<open>A concrete instance\<close>

text \<open>A digest driver that satisfies the assumptions on drivers, with a one byte digest, and
  two variables; used to instantiate the theorems below.\<close>

definition xor_hmac :: digest_algo where
  "xor_hmac = \<lparr>a_name = ''hmac(xor)'', a_driver_name = ''hmac(xor)-generic'', a_priority = 0,
     a_length = 1, a_alloc = 0, a_set_key = Some (\<lambda>_. 0), a_init = 0, a_update = \<lambda>_. 0,
     a_final = \<lambda>key msg. (0, [foldr (XOR) (key @ msg) 0])\<rparr>"

definition xor_crypto :: crypto where
  "xor_crypto = \<lparr>digests = [xor_hmac], keystore_list = [(''state'', [0x2a])]\<rparr>"

definition xor_raw :: state_backend_format_raw where
  "xor_raw = \<lparr>fr_digest = None, fr_digest_length = 0, fr_secret_name = ''state'',
     fr_algo = Some ''hmac(xor)''\<rparr>"

definition demo_vars :: "u32 \<Rightarrow> state_variable list" where
  "demo_vars v =
     [\<lparr>sv_type = STATE_VARIABLE_TYPE_UINT32, sv_name = ''attempts'', sv_start = 0, sv_size = 4,
       sv_storage = State_uint32 v 3\<rparr>,
      \<lparr>sv_type = STATE_VARIABLE_TYPE_UINT8, sv_name = ''slot'', sv_start = 4, sv_size = 1,
       sv_storage = State_uint32 1 0\<rparr>]"

lemmas demo_defs = xor_hmac_def xor_crypto_def xor_raw_def demo_config_def demo_vars_def

lemma xor_algo: "digest_algo_get_by_name (digests xor_crypto) ''hmac(xor)'' = Some xor_hmac"
  by (simp add: demo_defs digest_algo_get_by_name_def)

lemma xor_auth_ok: "raw_auth_ok xor_crypto xor_raw"
  using xor_algo by (simp add: raw_auth_ok_def digest_algo_ok_def demo_defs)

lemma demo_layout: "layout_ok (demo_vars v)" "\<forall>sv \<in> set (demo_vars v). sv_ok sv"
    "state_data_size (demo_vars v) = 5"
  by (simp_all add: layout_ok_def sv_ok_def demo_vars_def state_data_size_def)

lemma demo_same_layout: "same_layout (demo_vars v) (demo_vars w)"
  by (simp add: same_layout_def demo_vars_def)

section \<open>Properties\<close>

text \<open>C8. What is packed is read back: for variables laid out without overlap in less
  than 65536 bytes, packing succeeds inside its buffer, the result (with whatever follows it
  on the medium) passes the verification of every format object with the same algorithm and
  secret, also without authentication, the reported length is that of header and data, and
  unpacking that part restores the raw value of every variable without an error.\<close>

theorem raw_pack_verify_unpack:
  assumes "layout_ok vars" and "unat (state_data_size vars) < 65536"
    and "raw_auth_ok cr raw" and "length (raw_hmac cr raw []) < 2 ^ 31"
    and "raw_auth_ok cr raw2" and "raw_same_key raw raw2"
    and "same_layout vars vars2" and "\<forall>sv \<in> set vars2. sv_ok sv"
    and "\<not> fuzz_insecure_partial_digest_enabled cfg"
  shows "\<exists>buf raw' vars'. backend_format_raw_pack cr raw magic vars = Some (0, buf, raw')
    \<and> fst (backend_format_raw_verify cfg cr raw2 magic (buf @ pad) (length (buf @ pad)) no_auth) = 0
    \<and> fst (snd (backend_format_raw_verify cfg cr raw2 magic (buf @ pad) (length (buf @ pad)) no_auth))
        = 16 + unat (state_data_size vars)
    \<and> backend_format_raw_unpack vars2 (take (16 + unat (state_data_size vars)) (buf @ pad)) = Some (0, vars')
    \<and> map sv_raw vars' = map sv_raw vars"
proof -
  have "unat (state_data_size vars) + 16 + length (raw_hmac cr raw []) < 2 ^ 32"
    using assms(2,4) by simp
  from backend_format_raw_pack_image [OF assms(1,3) this] obtain data raw' where
    data: "length data = unat (state_data_size vars)"
      "\<forall>sv \<in> set vars. subbuf (unat (sv_start sv)) (unat (sv_size sv)) data = sv_raw sv"
    and pack: "backend_format_raw_pack cr raw magic vars = Some (0, raw_image cr raw magic data, raw')"
    by metis
  have img: "raw_image cr raw magic data = raw_image cr raw2 magic data"
    using raw_image_cong [OF assms(6), of cr] by simp
  let ?b = "raw_image cr raw2 magic data @ pad"
  have valid: "raw_valid cr raw2 magic ?b (length ?b) no_auth"
    using assms(2) data(1) by (intro raw_image_valid) simp_all
  have ver: "fst (backend_format_raw_verify cfg cr raw2 magic ?b (length ?b) no_auth) = 0"
    using raw_verify_no_auth [OF assms(9)] raw_verify_auth [OF assms(9) _ assms(5)] valid
    by (cases "fr_algo raw2"; cases no_auth) auto
  have dl: "unat (h_data_len (raw_header_of ?b)) = unat (state_data_size vars)"
    using assms(2) unat_data_len [of "length data"] data(1) by (simp add: raw_header_of_image)
  have ends: "\<forall>sv \<in> set vars2. sv_end sv \<le> length data"
    using assms(7) state_data_size_bound [OF assms(1)] data(1)
    by (fastforce simp: same_layout_def list_all2_conv_all_nth in_set_conv_nth)
  have cut: "take (16 + unat (state_data_size vars)) ?b
      = raw_image cr (raw2\<lparr>fr_algo := None\<rparr>) magic data @ []"
    using data(1) by (simp add: raw_image_def Let_def raw_hmac_def)
  show ?thesis
    using pack ver raw_verify_len [OF ver] dl
      raw_unpack_image [of data vars2 cr "raw2\<lparr>fr_algo := None\<rparr>" magic "[]"] ends assms(2) data(1)
      same_layout_unpacked [OF assms(7,8,1) data(2)]
    by (simp add: img cut del: map_map take_append length_append)
qed

theorem raw_pack_verify_unpack_witness:
  "\<exists>buf raw' vars'. backend_format_raw_pack xor_crypto xor_raw 0x2b (demo_vars 7) = Some (0, buf, raw')
    \<and> fst (backend_format_raw_verify demo_config xor_crypto xor_raw 0x2b (buf @ [0xff])
        (length (buf @ [0xff])) False) = 0
    \<and> fst (snd (backend_format_raw_verify demo_config xor_crypto xor_raw 0x2b (buf @ [0xff])
        (length (buf @ [0xff])) False)) = 16 + unat (state_data_size (demo_vars 7))
    \<and> backend_format_raw_unpack (demo_vars 3) (take (16 + unat (state_data_size (demo_vars 7))) (buf @ [0xff]))
        = Some (0, vars')
    \<and> map sv_raw vars' = map sv_raw (demo_vars 7)"
proof (rule raw_pack_verify_unpack)
  show "length (raw_hmac xor_crypto xor_raw []) < 2 ^ 31"
    using xor_algo by (simp add: raw_hmac_def demo_defs)
qed (simp_all add: demo_layout demo_same_layout xor_auth_ok raw_same_key_def demo_config_def)

text \<open>C9. Verification returns success exactly for the valid buffers: the length covers header,
  data and digest, both checksums and the magic are right and, with authentication, the bytes
  behind the data are the digest of header and data under the secret.\<close>

theorem raw_verify_iff_valid:
  assumes "\<not> fuzz_insecure_partial_digest_enabled cfg" and "raw_auth_ok cr raw" and "len \<le> length buf"
  shows "fst (backend_format_raw_verify cfg cr raw magic buf len no_auth) = 0
    \<longleftrightarrow> raw_valid cr raw magic buf len no_auth"
  using raw_verify_no_auth [OF assms(1)] raw_verify_auth [OF assms(1) _ assms(2,3)]
  by (cases "fr_algo raw"; cases no_auth) auto

theorem raw_verify_iff_valid_witness:
  "fst (backend_format_raw_verify demo_config xor_crypto xor_raw 0x2b
     (raw_image xor_crypto xor_raw 0x2b [1, 2, 3] @ [])
     (length (raw_image xor_crypto xor_raw 0x2b [1, 2, 3] @ [])) False) = 0"
proof (subst raw_verify_iff_valid)
  show "raw_valid xor_crypto xor_raw 0x2b (raw_image xor_crypto xor_raw 0x2b [1, 2, 3] @ [])
      (length (raw_image xor_crypto xor_raw 0x2b [1, 2, 3] @ [])) False"
    by (rule raw_image_valid) simp_all
qed (simp_all add: demo_config_def xor_auth_ok)

text \<open>C10. A buffer that verification accepts, in whatever build and with whatever contents, is
  unpacked without reading behind the length that verification reports, and that length lies in
  the buffer, as long as no variable crosses the 32 bit limit.\<close>

theorem raw_verified_unpack_in_bounds:
  assumes "backend_format_raw_verify cfg cr raw magic buf len no_auth = (0, len', raw')"
    and "len \<le> length buf" and "\<forall>sv \<in> set vars. sv_end sv < 2 ^ 32"
  shows "len' \<le> len \<and> (\<exists>ret vars'. backend_format_raw_unpack vars (take len' buf) = Some (ret, vars'))"
proof -
  have "16 + unat (h_data_len (raw_header_of buf)) \<le> len"
    using raw_verify_bounds [of cfg cr raw magic buf len no_auth] assms(1) by simp
  moreover have "len' = 16 + unat (h_data_len (raw_header_of buf))"
    using raw_verify_len [of cfg cr raw magic buf len no_auth] assms(1) by simp
  ultimately show ?thesis
    using raw_unpack_vars_in_bounds [OF _ assms(3), of "h_data_len (raw_header_of buf)" "drop 16 (take len' buf)" 0]
      assms(2) by (simp add: backend_format_raw_unpack_def raw_header_of_take)
qed

theorem raw_verified_unpack_in_bounds_witness:
  "\<exists>ret vars'. backend_format_raw_unpack (demo_vars 3)
     (take 17 [0x2b, 0, 0, 0, 0, 0, 0x1, 0, 0x2e, 0x7a, 0x66, 0x4c, 0x2d, 0x9e, 0x6c, 0x8c, 0x7]) = Some (ret, vars')"
proof -
  have "backend_format_raw_verify demo_config xor_crypto xor_raw 0x2b
     [0x2b, 0, 0, 0, 0, 0, 0x1, 0, 0x2e, 0x7a, 0x66, 0x4c, 0x2d, 0x9e, 0x6c, 0x8c, 0x7] 17 True
    = (0, 17, xor_raw)"
    by (simp add: backend_format_raw_verify_def raw_header_of_def subbuf_def of_le16_def of_le32_def
        crc32_eval)
  from raw_verified_unpack_in_bounds [OF this, of "demo_vars 3"] show ?thesis
    by (simp add: demo_vars_def)
qed

end
