(* ===== verification/State.thy ===== *)
theory State
  imports Storage Raw_Format
begin

text \<open>
  State instances (\<^verbatim>\<open>common/state/state.c\<close>): the variables, the format and the storage put
  together. Saving packs the variables and writes them to the buckets unless nothing has changed;
  loading reads the first valid copy and unpacks it into the variables.

  The storage is any bucket type, the format the raw one. \<open>None\<close> is a copy outside a buffer, as in
  the format.
\<close>

section \<open>The instance\<close>

record 'b state =
  st_name :: string
  of_path :: string
  st_magic :: u32
  keep_prev_content :: bool
  variables :: "state_variable list"
  dirty :: bool
  init_from_defaults :: bool
  save_on_shutdown :: bool
  st_format :: state_backend_format_raw
  st_readonly :: bool
  st_buckets :: "'b storage_bucket list"

definition state_new :: "string \<Rightarrow> state_backend_format_raw \<Rightarrow> 'b state" where
  "state_new name fmt =
     \<lparr>st_name = name, of_path = [], st_magic = 0, keep_prev_content = False, variables = [], dirty = True,
      init_from_defaults = False, save_on_shutdown = True, st_format = fmt, st_readonly = False, st_buckets = []\<rparr>"

definition state_backend_set_readonly :: "'b state \<Rightarrow> 'b state" where
  "state_backend_set_readonly st = st\<lparr>st_readonly := True\<rparr>"

section \<open>Saving and loading\<close>

definition has_foreign_content :: "('b, 's) bucket_ops \<Rightarrow> 'b storage_bucket list \<Rightarrow> bool" where
  "has_foreign_content ops bs = fold (\<lambda>b has_content. has_content \<or> op_wrong_magic ops (bkt b)) bs False"

definition state_save ::
  "crypto \<Rightarrow> ('b, 's) bucket_ops \<Rightarrow> 'b state \<Rightarrow> 's \<Rightarrow> (int \<times> 'b state \<times> 's) option" where
  "state_save cr ops st s =
     (if \<not> dirty st then Some (0, st, s)
      else do {
        (ret, buf, fmt) \<leftarrow> backend_format_raw_pack cr (st_format st) (st_magic st) (variables st);
        let st = st\<lparr>st_format := fmt\<rparr> in
        if ret \<noteq> 0 then Some (ret, st, s)
        else if keep_prev_content st \<and> has_foreign_content ops (st_buckets st) then Some (- EPERM, st, s)
        else case state_storage_write ops (st_readonly st) (st_buckets st) s buf of (ret, bs, s) \<Rightarrow>
          let st = st\<lparr>st_buckets := bs\<rparr>
          in Some (ret, if ret \<noteq> 0 then st else st\<lparr>dirty := False\<rparr>, s) })"

definition state_do_load ::
  "config \<Rightarrow> crypto \<Rightarrow> ('b, 's) bucket_ops \<Rightarrow> 'b state \<Rightarrow> 's \<Rightarrow> bool \<Rightarrow> (int \<times> 'b state \<times> 's) option" where
  "state_do_load cfg cr ops st s no_auth =
     (case state_storage_read ops (backend_format_raw_verify cfg cr) (st_buckets st) s (st_format st)
             (st_magic st) no_auth of
        (ret, buf, bs, s, fmt) \<Rightarrow>
          let st = st\<lparr>st_buckets := bs, st_format := fmt\<rparr>
          in if ret \<noteq> 0 then Some (ret, st\<lparr>dirty := True\<rparr>, s)
             else do {
               (ret, vars) \<leftarrow> backend_format_raw_unpack (variables st) buf;
               let st = st\<lparr>variables := vars\<rparr> in
               Some (ret, if ret \<noteq> 0 then st\<lparr>dirty := True\<rparr>
                          else st\<lparr>init_from_defaults := False, dirty := False\<rparr>, s) })"

definition state_load where "state_load cfg cr ops st s = state_do_load cfg cr ops st s False"

definition state_load_no_auth where "state_load_no_auth cfg cr ops st s = state_do_load cfg cr ops st s True"

section \<open>The registered instances\<close>

fun state_by_name :: "'b state list \<Rightarrow> string \<Rightarrow> 'b state option" where
  "state_by_name [] name = None"
| "state_by_name (st # sts) name = (if name = st_name st then Some st else state_by_name sts name)"

fun state_by_path :: "'b state list \<Rightarrow> string \<Rightarrow> 'b state option" where
  "state_by_path [] full_name = None"
| "state_by_path (st # sts) full_name = (if of_path st = full_name then Some st else state_by_path sts full_name)"

definition state_read_mac :: "state_variable list \<Rightarrow> string \<Rightarrow> int + bytes" where
  "state_read_mac vars name =
     (case state_find_var vars name of
        Inl err \<Rightarrow> Inl err
      | Inr sv \<Rightarrow> if sv_type sv \<noteq> STATE_VARIABLE_TYPE_MAC then Inl (- EINVAL) else Inr (take 6 (sv_raw sv)))"

fun state_shutdown ::
  "crypto \<Rightarrow> ('b, 's) bucket_ops \<Rightarrow> 'b state list \<Rightarrow> 's \<Rightarrow> ('b state list \<times> 's) option" where
  "state_shutdown cr ops [] s = Some ([], s)"
| "state_shutdown cr ops (st # sts) s =
     do {
       (st, s) \<leftarrow> (if save_on_shutdown st then map_option (\<lambda>(ret, st, s). (st, s)) (state_save cr ops st s)
                   else Some (st, s));
       (sts, s) \<leftarrow> state_shutdown cr ops sts s;
       Some (st # sts, s) }"

section \<open>Setting up an instance\<close>

text \<open>The format a node asks for; \<open>algo\<close> is the property of that name, if the node has it.\<close>

definition backend_format_raw_create ::
  "bool \<Rightarrow> string option \<Rightarrow> string \<Rightarrow> int + state_backend_format_raw" where
  "backend_format_raw_create state_crypto algo secret_name =
     (let raw = \<lparr>fr_digest = None, fr_digest_length = 0, fr_secret_name = [], fr_algo = None\<rparr>
      in case algo of
           None \<Rightarrow> Inr (raw\<lparr>fr_secret_name := secret_name\<rparr>)
         | Some algo \<Rightarrow>
             if \<not> state_crypto then Inl (- EINVAL)
             else Inr (raw\<lparr>fr_algo := Some algo, fr_secret_name := secret_name\<rparr>))"

section \<open>The raw format as a format of the storage\<close>

definition raw_keyed :: "crypto \<Rightarrow> state_backend_format_raw \<Rightarrow> state_backend_format_raw \<Rightarrow> bool" where
  "raw_keyed cr raw f \<longleftrightarrow> raw_auth_ok cr f \<and> raw_same_key raw f"

lemma raw_keeps_format: "keeps_format (backend_format_raw_verify cfg cr) (raw_keyed cr raw)"
proof -
  have both: "raw_keyed cr raw (snd (snd x)) \<Longrightarrow> raw_keyed cr raw (snd (snd y))
      \<Longrightarrow> raw_keyed cr raw (snd (snd (if c then x else y)))" for x y :: "int \<times> nat \<times> state_backend_format_raw" and c
    by simp
  have "raw_keyed cr raw (snd (snd (backend_format_raw_verify cfg cr f magic buf len no_auth)))"
    if f: "raw_keyed cr raw f" for f magic buf len no_auth
  proof (cases "fr_algo f \<noteq> None \<and> \<not> no_auth")
    case False
    show ?thesis
      unfolding backend_format_raw_verify_def Let_def split_conv if_not_P [OF False] if_P [OF False]
      by (intro both; simp only: snd_conv f)
  next
    case True
    then obtain name where name: "fr_algo f = Some name" by auto
    have ok: "raw_auth_ok cr f" using f by (simp add: raw_keyed_def)
    obtain a key where
      init: "backend_raw_digest_init cr f = (0, f\<lparr>fr_digest := Some \<lparr>d_algo = a, d_key = key, d_msg = []\<rparr>,
          fr_digest_length := a_length a\<rparr>)"
      and a: "digest_algo_ok a" "\<And>msg. raw_hmac cr f msg = snd (a_final a key msg)"
        "digest_algo_get_by_name (digests cr) name = Some a"
        "get_key (keystore_list cr) (fr_secret_name f) = Some key"
      by (fact raw_digest_init_ok [OF ok name])
    have keep: "raw_keyed cr raw f'" if "fr_algo f' = fr_algo f" "fr_secret_name f' = fr_secret_name f"
        "\<And>d. fr_digest f' = Some d \<Longrightarrow> d_algo d = a \<and> fr_digest_length f' = a_length a" for f'
    proof -
      have "raw_same_key raw f'" using f that(1,2) by (simp add: raw_keyed_def raw_same_key_def)
      moreover have "raw_auth_ok cr f'"
        unfolding raw_auth_ok_def that(1,2) name option.case
        by (intro exI [of _ a] exI [of _ key] conjI allI impI a(1,3,4)) (simp_all only: that(3))
      ultimately show ?thesis by (simp add: raw_keyed_def)
    qed
    define f1 where "f1 = f\<lparr>fr_digest := Some \<lparr>d_algo = a, d_key = key, d_msg = []\<rparr>, fr_digest_length := a_length a\<rparr>"
    define u where "u m = fst (digest_update (the (fr_digest f1)) m)" for m
    define d where "d m = snd (digest_update (the (fr_digest f1)) m)" for m
    have upd: "digest_update (the (fr_digest f1)) m = (u m, d m)" for m by (simp add: u_def d_def)
    have f1: "raw_keyed cr raw f1" by (rule keep) (auto simp: f1_def)
    have f2: "raw_keyed cr raw (f1\<lparr>fr_digest := Some (d m)\<rparr>)" for m
      by (rule keep) (auto simp: f1_def d_def digest_update_def)
    show ?thesis
      unfolding backend_format_raw_verify_def Let_def if_P [OF True] init [folded f1_def] split_conv upd
      by (intro both; simp only: snd_conv f f1 f2)
  qed
  then show ?thesis by (simp add: keeps_format_def)
qed

lemma raw_valid_copy:
  assumes "length data < 65536" and "magic = 0 \<or> magic = m" and "\<not> fuzz_insecure_partial_digest_enabled cfg"
  shows "valid_copy (backend_format_raw_verify cfg cr) (raw_keyed cr raw) magic no_auth
    (raw_image cr raw m data) (16 + length data)"
proof -
  have "\<exists>f'. backend_format_raw_verify cfg cr f magic (raw_image cr raw m data @ pad)
      (length (raw_image cr raw m data @ pad)) no_auth = (0, 16 + length data, f')" if f: "raw_keyed cr raw f" for f pad
  proof -
    let ?b = "raw_image cr raw m data @ pad"
    have img: "raw_image cr raw m data = raw_image cr f m data"
      using f raw_image_cong [of raw f cr] by (simp add: raw_keyed_def)
    have ok: "raw_auth_ok cr f" using f by (simp add: raw_keyed_def)
    have valid: "raw_valid cr f magic ?b (length ?b) no_auth"
      unfolding img using assms(1,2) by (rule raw_image_valid)
    have ver: "fst (backend_format_raw_verify cfg cr f magic ?b (length ?b) no_auth) = 0"
      using raw_verify_no_auth [OF assms(3)] raw_verify_auth [OF assms(3) _ ok] valid
      by (cases "fr_algo f"; cases no_auth) auto
    have "unat (h_data_len (raw_header_of ?b)) = length data"
      using assms(1) by (simp add: raw_header_of_image unat_data_len)
    with raw_verify_len [OF ver] ver show ?thesis by (metis prod.collapse)
  qed
  then show ?thesis by (simp add: valid_copy_def length_raw_image)
qed

lemma raw_image_prefix:
  "take (16 + length data) (raw_image cr raw m data) = raw_image cr (raw\<lparr>fr_algo := None\<rparr>) m data @ []"
  by (simp add: raw_image_def Let_def raw_hmac_def)

lemma raw_unpack_loaded:
  assumes "layout_ok vars" and "length data = unat (state_data_size vars)" and "length data < 65536"
    and "\<forall>sv \<in> set vars. subbuf (unat (sv_start sv)) (unat (sv_size sv)) data = sv_raw sv"
    and "same_layout vars vars2" and "\<forall>sv \<in> set vars2. sv_ok sv"
  obtains vars3 where "backend_format_raw_unpack vars2 (take (16 + length data) (raw_image cr raw m data)) = Some (0, vars3)"
    and "map sv_raw vars3 = map sv_raw vars"
proof -
  have ends: "\<forall>sv \<in> set vars2. sv_end sv \<le> length data"
    using assms(2,5) state_data_size_bound [OF assms(1)]
    by (fastforce simp: same_layout_def list_all2_conv_all_nth in_set_conv_nth)
  show ?thesis
    using that raw_unpack_image [OF assms(3) ends, of cr "raw\<lparr>fr_algo := None\<rparr>" m "[]"]
      same_layout_unpacked [OF assms(5,6,1,4)]
    unfolding raw_image_prefix by blast
qed

text \<open>What unpacking does to the variables, whatever the buffer holds.\<close>

lemma raw_unpack_vars_Cons:
  assumes "raw_unpack_vars data dl (sv # vars) ret = Some (ret', vars')"
  obtains r sv' vs where "vars' = sv' # vs" and "raw_unpack_vars data dl vars r = Some (ret', vs)"
    and "r = ret \<or> r = - ENOSPC"
    and "sv' = sv \<or> (\<exists>bs. length bs = unat (sv_size sv) \<and> sv' = sv_set_raw sv bs)"
proof (cases "ucast dl < sv_start sv + sv_size sv")
  case True
  with assms obtain vs where "vars' = sv # vs" "raw_unpack_vars data dl vars (- ENOSPC) = Some (ret', vs)"
    by (auto split: bind_splits)
  then show ?thesis by (rule that) simp_all
next
  case False
  with assms obtain bs vs where "memcpy_from data (unat (sv_start sv)) (unat (sv_size sv)) = Some bs"
    "vars' = sv_set_raw sv bs # vs" "raw_unpack_vars data dl vars ret = Some (ret', vs)"
    by (auto split: bind_splits)
  moreover from this(1) have "length bs = unat (sv_size sv)" by (auto simp: memcpy_from_def split: if_splits)
  ultimately show ?thesis using that by blast
qed

lemma raw_unpack_vars_ret:
  "raw_unpack_vars data dl vars ret = Some (ret', vars') \<Longrightarrow> ret' = ret \<or> ret' = - ENOSPC"
proof (induction vars arbitrary: ret vars')
  case (Cons sv vars)
  from Cons.prems show ?case by (rule raw_unpack_vars_Cons) (use Cons.IH in blast)
qed simp

lemma raw_unpack_vars_layout:
  "raw_unpack_vars data dl vars ret = Some (ret', vars') \<Longrightarrow> \<forall>sv \<in> set vars. sv_ok sv \<Longrightarrow>
     same_layout vars vars' \<and> (\<forall>sv \<in> set vars'. sv_ok sv)"
proof (induction vars arbitrary: ret vars')
  case (Cons sv vars)
  from Cons.prems(1) show ?case
  proof (rule raw_unpack_vars_Cons)
    fix r sv' vs
    assume *: "vars' = sv' # vs" "raw_unpack_vars data dl vars r = Some (ret', vs)"
      "sv' = sv \<or> (\<exists>bs. length bs = unat (sv_size sv) \<and> sv' = sv_set_raw sv bs)"
    then have "sv_ok sv'" using Cons.prems(2) sv_ok_set_raw by auto
    then show ?thesis using Cons.IH [OF *(2)] Cons.prems(2) *(1,3) by (auto simp: same_layout_def)
  qed
qed (simp add: same_layout_def)

definition extent :: "state_variable \<Rightarrow> nat \<times> nat" where
  "extent sv = (unat (sv_start sv), unat (sv_size sv))"

lemma layout_ok_extents:
  "layout_ok vars \<longleftrightarrow> (\<forall>sv \<in> set vars. sv_ok sv) \<and> (\<forall>p \<in> set (map extent vars). fst p + snd p < 2 ^ 32)
     \<and> sorted_wrt (\<lambda>p q. fst p + snd p \<le> fst q) (map extent vars)"
  by (auto simp: layout_ok_def sorted_wrt_map extent_def)

lemma same_layout_layout_ok:
  assumes "layout_ok vars" and "same_layout vars vars'" and "\<forall>sv \<in> set vars'. sv_ok sv"
  shows "layout_ok vars'"
proof -
  have "map extent vars' = map extent vars"
    using assms(2) unfolding same_layout_def by (induction rule: list_all2_induct) (simp_all add: extent_def)
  then show ?thesis using assms(1,3) unfolding layout_ok_extents by metis
qed

lemma raw_hmac_length:
  assumes "raw_auth_ok cr raw"
  shows "length (raw_hmac cr raw msg) = length (raw_hmac cr raw [])"
proof (cases "fr_algo raw")
  case (Some name)
  from raw_digest_init_ok [OF assms Some] obtain a key where
    "digest_algo_ok a" "\<And>msg. raw_hmac cr raw msg = snd (a_final a key msg)" by metis
  from length_raw_hmac [OF this] show ?thesis by simp
qed (simp add: raw_hmac_def)

section \<open>Properties\<close>

text \<open>C1. What is saved comes back. On a medium without errors a save succeeds, and a later
  instance with variables of the same layout, the same key and buckets at the same places loads
  the saved value of every variable, with or without authentication; both instances are then
  clean.\<close>

theorem state_save_load:
  assumes "reliable_store ops ok place apart fits stored stored"
    and "bucket_store.all_ok ok place apart (st_buckets st) s" and "st_buckets st \<noteq> []"
    and "dirty st" and "\<not> st_readonly st" and "\<not> has_foreign_content ops (st_buckets st)"
    and "layout_ok (variables st)" and "unat (state_data_size (variables st)) < 65536"
    and "raw_auth_ok cr (st_format st)" and "length (raw_hmac cr (st_format st) []) < 2 ^ 31"
    and "\<forall>b \<in> set (st_buckets st). \<forall>x. length x = 16 + unat (state_data_size (variables st))
           + length (raw_hmac cr (st_format st) []) \<longrightarrow> fits (place (bkt b)) x"
    and "same_layout (variables st) (variables st2)" and "\<forall>sv \<in> set (variables st2). sv_ok sv"
    and "raw_keyed cr (st_format st) (st_format st2)" and "st_magic st2 = st_magic st"
    and "\<And>bs t. bucket_store.all_ok ok place apart bs t \<Longrightarrow> map (place \<circ> bkt) bs = map (place \<circ> bkt) (st_buckets st)
           \<Longrightarrow> bucket_store.all_ok ok place apart (st_buckets st2) t"
    and "map (place \<circ> bkt) (st_buckets st2) = map (place \<circ> bkt) (st_buckets st)"
    and "\<And>b c t x. place b = place c \<Longrightarrow> stored b t x = stored c t x"
    and "\<not> fuzz_insecure_partial_digest_enabled cfg"
  shows "\<exists>st1 s1 st3 s3. state_save cr ops st s = Some (0, st1, s1) \<and> \<not> dirty st1
    \<and> state_do_load cfg cr ops st2 s1 no_auth = Some (0, st3, s3) \<and> \<not> dirty st3 \<and> \<not> init_from_defaults st3
    \<and> map sv_raw (variables st3) = map sv_raw (variables st)"
proof -
  note bs = reliable_store.axioms(1) [OF assms(1)]
  let ?n = "unat (state_data_size (variables st))" and ?hm = "raw_hmac cr (st_format st)"
  have "?n + 16 + length (?hm []) < 2 ^ 32" using assms(8,10) by simp
  from backend_format_raw_pack_image [OF assms(7,9) this] obtain data raw' where
    data: "length data = ?n" "\<forall>sv \<in> set (variables st). subbuf (unat (sv_start sv)) (unat (sv_size sv)) data = sv_raw sv"
    and pack: "backend_format_raw_pack cr (st_format st) (st_magic st) (variables st)
      = Some (0, raw_image cr (st_format st) (st_magic st) data, raw')"
    by metis
  let ?img = "raw_image cr (st_format st) (st_magic st) data"
  have "length ?img = 16 + ?n + length (?hm [])"
    using data(1) raw_hmac_length [OF assms(9)] by (simp add: length_raw_image)
  then have fits: "\<forall>p \<in> set (bucket_store.places place (st_buckets st)). fits p ?img"
    using assms(11) by (simp add: bucket_store.places_def [OF bs])
  from reliable_store.save_reaches_all [OF assms(1-3) this] obtain bs1 s1 where
    w: "state_storage_write ops False (st_buckets st) s ?img = (0, bs1, s1)"
    and ok1: "bucket_store.all_ok ok place apart bs1 s1"
      "bucket_store.places place bs1 = bucket_store.places place (st_buckets st)"
    and all: "\<forall>b \<in> set bs1. stored (bkt b) s1 ?img"
    by metis
  have save: "state_save cr ops st s = Some (0, st\<lparr>st_format := raw', st_buckets := bs1, dirty := False\<rparr>, s1)"
    using assms(4-6) pack w by (simp add: state_save_def)
  have places: "map (place \<circ> bkt) bs1 = map (place \<circ> bkt) (st_buckets st)"
    using ok1(2) by (simp add: bucket_store.places_def [OF bs] comp_def)
  have "stored (bkt b) s1 ?img" if "b \<in> set (st_buckets st2)" for b
  proof -
    have "place (bkt b) \<in> set (map (place \<circ> bkt) bs1)" using that assms(17) places by (metis comp_apply image_eqI set_map)
    then obtain c where "c \<in> set bs1" "place (bkt b) = place (bkt c)" by auto
    then show ?thesis using all assms(18) by metis
  qed
  then have copies: "\<forall>b \<in> set (st_buckets st2). stored (bkt b) s1 ?img" by blast
  have copy: "valid_copy (backend_format_raw_verify cfg cr) (raw_keyed cr (st_format st)) (st_magic st2) no_auth ?img (16 + ?n)"
    using raw_valid_copy [OF _ _ assms(19), of data] assms(8,15) data(1) by simp
  have "st_buckets st2 \<noteq> []" using assms(3,17) by auto
  from reliable_store.load_finds_copy [OF assms(1) assms(16) [OF ok1(1) places] this copies raw_keeps_format assms(14) copy]
  obtain bs3 s3 f3 where load: "state_storage_read ops (backend_format_raw_verify cfg cr) (st_buckets st2) s1 (st_format st2)
      (st_magic st2) no_auth = (0, take (16 + ?n) ?img, bs3, s3, f3)"
    by metis
  have "length data < 65536" using data(1) assms(8) by simp
  from raw_unpack_loaded [OF assms(7) data(1) this data(2) assms(12,13)] obtain vars3 where
    "backend_format_raw_unpack (variables st2) (take (16 + ?n) ?img) = Some (0, vars3)"
    "map sv_raw vars3 = map sv_raw (variables st)"
    using data(1) by metis
  then show ?thesis using save load by (simp add: state_do_load_def)
qed

definition ram_bucket :: "nat \<Rightarrow> bytes bucket_direct storage_bucket" where
  "ram_bucket n = new_bucket (state_backend_bucket_direct_create (mtd_cdev (mtdram_probe 96)) (32 * n) 32 False)"

definition ram_state :: "u32 \<Rightarrow> bytes bucket_direct state" where
  "ram_state v = (state_new ''state'' xor_raw)\<lparr>st_magic := 0x2b, variables := demo_vars v,
     st_buckets := [ram_bucket 0, ram_bucket 1, ram_bucket 2]\<rparr>"

lemmas ram_store = mtdram_reliable.reliable_store_axioms [where sz = 96 and cfg = demo_config and uninit = "\<lambda>_. 0"]
lemma ram_state_all_ok:
  assumes "length mem = 96"
  shows "mtdram_direct.all_ok 96 (st_buckets (ram_state v)) mem"
  using assms unfolding mtdram_direct.all_ok_def mtdram_disk.direct_ok_def mtdram_disk.is_open_def
  by (simp add: ram_state_def state_new_def ram_bucket_def demo_geometry)

lemma ram_hmac: "raw_hmac xor_crypto xor_raw m = [foldr (XOR) (0x2a # m) 0]"
  using xor_algo by (simp add: raw_hmac_def demo_defs)

theorem state_save_load_witness:
  "\<exists>st1 s1 st3 s3. state_save xor_crypto (direct_ops demo_config (\<lambda>_. 0)) (ram_state 7) (replicate 96 0) = Some (0, st1, s1)
    \<and> \<not> dirty st1
    \<and> state_do_load demo_config xor_crypto (direct_ops demo_config (\<lambda>_. 0)) (ram_state 3) s1 False = Some (0, st3, s3)
    \<and> \<not> dirty st3 \<and> \<not> init_from_defaults st3 \<and> map sv_raw (variables st3) = map sv_raw (variables (ram_state 7))"
proof (rule state_save_load [OF ram_store])
  show "mtdram_direct.all_ok 96 (st_buckets (ram_state 7)) (replicate 96 0)" by (simp add: ram_state_all_ok)
  fix bs t
  assume "mtdram_direct.all_ok 96 bs t"
    and "map (direct_place \<circ> bkt) bs = map (direct_place \<circ> bkt) (st_buckets (ram_state 7))"
  then have "length t = 96"
    by (cases bs) (auto simp: mtdram_direct.all_ok_def mtdram_disk.direct_ok_def ram_state_def)
  then show "mtdram_direct.all_ok 96 (st_buckets (ram_state 3)) t" by (rule ram_state_all_ok)
next
  fix b c :: "bytes bucket_direct" and t x
  assume "direct_place b = direct_place c"
  then show "disk.direct_stored (\<lambda>mem. mem) b t x = disk.direct_stored (\<lambda>mem. mem) c t x"
    by (simp add: direct_place_def mtdram_disk.direct_stored_def mtdram_disk.direct_holds_def)
next
  show "raw_auth_ok xor_crypto (st_format (ram_state 7))" by (simp add: ram_state_def state_new_def xor_auth_ok)
  show "raw_keyed xor_crypto (st_format (ram_state 7)) (st_format (ram_state 3))"
    by (simp add: ram_state_def state_new_def xor_auth_ok raw_keyed_def raw_same_key_def)
  show "\<forall>b \<in> set (st_buckets (ram_state 7)). \<forall>x. length x = 16 + unat (state_data_size (variables (ram_state 7)))
      + length (raw_hmac xor_crypto (st_format (ram_state 7)) []) \<longrightarrow> direct_fits (direct_place (bkt b)) x"
    by (auto simp: ram_state_def state_new_def ram_hmac demo_layout ram_bucket_def demo_geometry direct_fits_def)
qed (simp_all add: ram_state_def state_new_def demo_layout demo_same_layout ram_hmac has_foreign_content_def ram_bucket_def
    direct_ops_def new_bucket_def state_backend_bucket_direct_create_def direct_place_def demo_config_def)

text \<open>C18. The flags after a load tell what happened: after success the instance is clean and no
  longer on its defaults; after an error it is dirty. The variables keep their values on every
  error but one: when a variable lies behind the data of the stored copy (\<open>- ENOSPC\<close>) the others
  have been loaded.\<close>

theorem state_load_outcome:
  assumes "state_do_load cfg cr ops st s no_auth = Some (ret, st', s')"
  shows "dirty st' = (ret \<noteq> 0) \<and> init_from_defaults st' = (ret \<noteq> 0 \<and> init_from_defaults st)
    \<and> (ret = 0 \<or> ret = - ENOSPC \<or> variables st' = variables st)"
proof -
  obtain r buf bs s1 fmt where rd: "state_storage_read ops (backend_format_raw_verify cfg cr) (st_buckets st) s (st_format st)
      (st_magic st) no_auth = (r, buf, bs, s1, fmt)"
    by (metis prod_cases5)
  have "r2 = 0 \<or> r2 = - ENOSPC" if "backend_format_raw_unpack vars buf = Some (r2, vars2)" for vars vars2 r2
    using that raw_unpack_vars_ret unfolding backend_format_raw_unpack_def by blast
  then show ?thesis
    using assms rd by (auto simp: state_do_load_def Let_def split: if_splits bind_splits)
qed

definition ram_bucket_read :: "nat \<Rightarrow> bytes bucket_direct storage_bucket" where
  "ram_bucket_read n = (ram_bucket n)\<lparr>bkt := (bkt (ram_bucket n))\<lparr>direct_fd :=
     (direct_fd (bkt (ram_bucket n)))\<lparr>f_pos := 32 * n + 8\<rparr>\<rparr>\<rparr>"

abbreviation ram_state_read :: "u32 \<Rightarrow> bytes bucket_direct state" where
  "ram_state_read v \<equiv> (ram_state v)\<lparr>st_buckets := [ram_bucket_read 0, ram_bucket_read 1, ram_bucket_read 2]\<rparr>"

lemma demo_load_error:
  "state_do_load demo_config xor_crypto (direct_ops demo_config (\<lambda>_. 0)) (ram_state 3) (replicate 96 0) False
     = Some (- ENOMEDIUM, ram_state_read 3, replicate 96 0)"
  by (simp add: ram_bucket_read_def)
    (simp add: state_do_load_def state_storage_read_def ram_state_def state_new_def bucket_check_def ram_bucket_def
      direct_ops_def new_bucket_def direct_eval replicate_numeral)

theorem state_load_outcome_witness:
  "dirty (ram_state_read 3) = (- ENOMEDIUM \<noteq> (0 :: int))
    \<and> init_from_defaults (ram_state_read 3) = (- ENOMEDIUM \<noteq> (0 :: int) \<and> init_from_defaults (ram_state 3))
    \<and> (- ENOMEDIUM = (0 :: int) \<or> - ENOMEDIUM = - ENOSPC \<or> variables (ram_state_read 3) = variables (ram_state 3))"
  by (rule state_load_outcome [OF demo_load_error])



text \<open>A save of a clean instance does nothing. A save of a dirty one leaves it dirty exactly when
  it returns an error; and with \<^verbatim>\<open>keep-previous-content\<close> it refuses to touch a medium with foreign
  content.\<close>

theorem state_save_outcome:
  assumes "state_save cr ops st s = Some (ret, st', s')"
  shows "(\<not> dirty st \<longrightarrow> ret = 0 \<and> st' = st \<and> s' = s) \<and> (dirty st \<longrightarrow> dirty st' = (ret \<noteq> 0))
    \<and> variables st' = variables st
    \<and> (keep_prev_content st \<longrightarrow> (\<exists>b \<in> set (st_buckets st). op_wrong_magic ops (bkt b)) \<longrightarrow> dirty st \<longrightarrow>
         ret \<noteq> 0 \<and> s' = s \<and> st_buckets st' = st_buckets st)"
proof -
  have "has_foreign_content ops bs = (\<exists>b \<in> set bs. op_wrong_magic ops (bkt b))" for bs
  proof -
    have "fold (\<lambda>b has_content. has_content \<or> op_wrong_magic ops (bkt b)) bs c
        = (c \<or> (\<exists>b \<in> set bs. op_wrong_magic ops (bkt b)))" for c
      by (induction bs arbitrary: c) auto
    then show ?thesis by (simp add: has_foreign_content_def)
  qed
  then show ?thesis
    using assms by (auto simp: state_save_def Let_def split: if_splits bind_splits prod.splits)
qed

theorem state_save_outcome_witness:
  "state_save xor_crypto (direct_ops demo_config (\<lambda>_. 0)) ((ram_state 3)\<lparr>dirty := False\<rparr>) (replicate 96 0)
     = Some (0, (ram_state 3)\<lparr>dirty := False\<rparr>, replicate 96 0)
   \<and> variables ((ram_state 3)\<lparr>dirty := False\<rparr>) = variables ((ram_state 3)\<lparr>dirty := False\<rparr>)"
proof -
  have s: "state_save xor_crypto (direct_ops demo_config (\<lambda>_. 0)) ((ram_state 3)\<lparr>dirty := False\<rparr>) (replicate 96 0)
      = Some (0, (ram_state 3)\<lparr>dirty := False\<rparr>, replicate 96 0)"
    by (simp add: state_save_def)
  show ?thesis using state_save_outcome [OF s] s by simp
qed

text \<open>The length that the verification reports does not cover the keyed digest. A bucket that is
  refreshed from an authenticated copy therefore gets a copy without its digest, which the next
  authenticated load rejects.\<close>

theorem raw_refreshed_copy_rejected:
  assumes "\<not> fuzz_insecure_partial_digest_enabled cfg" and "raw_auth_ok cr raw" and "raw_auth_ok cr raw2"
    and "fr_algo raw2 = Some name" and "raw_hmac cr raw2 [] \<noteq> []"
    and "backend_format_raw_verify cfg cr raw magic buf len False = (0, n, raw')" and "len \<le> length buf"
  shows "fst (backend_format_raw_verify cfg cr raw2 magic (take n buf) n False) \<noteq> 0"
proof -
  have n: "n = 16 + unat (h_data_len (raw_header_of buf))" "n \<le> length buf"
    using raw_verify_len [of cfg cr raw magic buf len False] raw_verify_bounds [of cfg cr raw magic buf len False] assms(6,7)
    by simp_all
  have "raw_header_of (take n buf) = raw_header_of buf" using n(1) by (intro raw_header_of_take) simp
  moreover have "0 < length (raw_hmac cr raw2 msg)" for msg
    using raw_hmac_length [OF assms(3), of msg] assms(5) by (metis length_greater_0_conv)
  ultimately have "\<not> raw_valid cr raw2 magic (take n buf) n False"
    using n(1) by (simp add: raw_valid_def Let_def)
  then show ?thesis using raw_verify_auth [OF assms(1,4,3)] n(2) by simp
qed

theorem raw_refreshed_copy_rejected_witness:
  "\<exists>n raw'. backend_format_raw_verify demo_config xor_crypto xor_raw 0 (raw_image xor_crypto xor_raw 0 []) 17 False = (0, n, raw')
    \<and> fst (backend_format_raw_verify demo_config xor_crypto xor_raw 0 (take n (raw_image xor_crypto xor_raw 0 [])) n False) \<noteq> 0"
proof -
  have len: "length (raw_image xor_crypto xor_raw 0 []) = 17" by (simp add: length_raw_image ram_hmac)
  have "raw_keyed xor_crypto xor_raw xor_raw" by (simp add: raw_keyed_def xor_auth_ok raw_same_key_def)
  moreover have "valid_copy (backend_format_raw_verify demo_config xor_crypto) (raw_keyed xor_crypto xor_raw) 0 False
      (raw_image xor_crypto xor_raw 0 []) (16 + length ([] :: bytes))"
    by (rule raw_valid_copy) (simp_all add: demo_config_def)
  ultimately obtain raw' where "backend_format_raw_verify demo_config xor_crypto xor_raw 0
      (raw_image xor_crypto xor_raw 0 [] @ []) (length (raw_image xor_crypto xor_raw 0 [] @ [])) False
      = (0, 16 + length ([] :: bytes), raw')"
    unfolding valid_copy_def by blast
  then have v: "backend_format_raw_verify demo_config xor_crypto xor_raw 0 (raw_image xor_crypto xor_raw 0 []) 17 False
      = (0, 16, raw')"
    using len by simp
  show ?thesis
    using raw_refreshed_copy_rejected [OF _ xor_auth_ok xor_auth_ok _ _ v] v len
    by (simp add: demo_config_def xor_raw_def [THEN arg_cong, of fr_algo] ram_hmac)
qed

end
