(* ===== verification/Params.thy ===== *)
theory Params
  imports Libc
begin

text \<open>
  Device parameters (\<^verbatim>\<open>lib/parameter.c\<close>): typed values with a textual interface that are
  attached to a barebox object and are reached as \<open>device.parameter\<close> variables, and the
  textual form of UUIDs (\<^verbatim>\<open>lib/uuid.c\<close>, \<^verbatim>\<open>uuid_string\<close> in \<^verbatim>\<open>lib/vsprintf.c\<close>) that one of
  the types uses.

  The memory a parameter points to is \<open>param_data\<close>, with one constructor for each setter of
  the source; the callbacks that a driver registers are functions on that memory: a \<open>set\<close>
  notifier returns a code, a \<open>get\<close> notifier may also refresh the memory. Text is a C string;
  \<open>None\<close> stands for \<^verbatim>\<open>NULL\<close>. The lemmas show that a rejected assignment leaves a parameter
  as it was for every type but bitmasks, that printing and parsing are inverse for the
  integer and UUID types, and that a barebox object never holds two parameters of one name.
\<close>

section \<open>White space, booleans and signed numbers\<close>

definition isspace :: "char \<Rightarrow> bool" where
  "isspace ch = (let c = of_char ch :: nat in (9 \<le> c \<and> c \<le> 13) \<or> c = 32 \<or> c = 160)"

definition skip_spaces :: "string \<Rightarrow> string" where
  "skip_spaces str = dropWhile isspace str"

definition strim :: "string \<Rightarrow> string" where
  "strim s =
     (let s = skip_spaces s
      in if s = [] then s else rev (dropWhile isspace (rev s)))"

definition tolower :: "char \<Rightarrow> char" where
  "tolower ch =
     (let c = of_char ch :: nat
      in if (65 \<le> c \<and> c \<le> 90) \<or> (192 \<le> c \<and> c \<le> 222 \<and> c \<noteq> 215) then char_of (c + 32) else ch)"

fun strcasecmp :: "string \<Rightarrow> string \<Rightarrow> int" where
  "strcasecmp [] [] = 0"
| "strcasecmp [] (d # ds) = - of_char (tolower d)"
| "strcasecmp (c # cs) [] = of_char (tolower c)"
| "strcasecmp (c # cs) (d # ds) =
     (if tolower c = tolower d then strcasecmp cs ds
      else of_char (tolower c) - of_char (tolower d))"

definition strtobool :: "string option \<Rightarrow> int \<times> bool option" where
  "strtobool str =
     (case str of
        None \<Rightarrow> (- EINVAL, None)
      | Some s \<Rightarrow>
          if s = [] then (- EINVAL, None)
          else if 0 < simple_strtoul s 0 then (0, Some True)
          else if s = ''0'' \<or> strcasecmp s ''false'' = 0 then (0, Some False)
          else if strcasecmp s ''true'' = 0 then (0, Some True)
          else (- EINVAL, None))"

definition simple_strtoll :: "string \<Rightarrow> nat \<Rightarrow> u64" where
  "simple_strtoll cp base =
     (case cp of
        c # rest \<Rightarrow>
          if c = CHR ''-'' then - fst (simple_strtoull rest base) else fst (simple_strtoull cp base)
      | [] \<Rightarrow> fst (simple_strtoull cp base))"

definition simple_strtol :: "string \<Rightarrow> nat \<Rightarrow> u64" where
  "simple_strtol cp base =
     (case cp of
        c # rest \<Rightarrow>
          if c = CHR ''-'' then - simple_strtoul rest base else simple_strtoul cp base
      | [] \<Rightarrow> simple_strtoul cp base)"

section \<open>UUIDs\<close>

abbreviation (input) UUID_STRING_LEN :: nat where "UUID_STRING_LEN \<equiv> 36"
abbreviation (input) UUID_SIZE :: nat where "UUID_SIZE \<equiv> 16"

definition guid_index :: "nat list" where
  "guid_index = [3,2,1,0,5,4,7,6,8,9,10,11,12,13,14,15]"

definition uuid_index :: "nat list" where
  "uuid_index = [0,1,2,3,4,5,6,7,8,9,10,11,12,13,14,15]"

text \<open>Reading a character of a C string at its length gives the terminating NUL; the loop of
  \<^verbatim>\<open>uuid_is_valid\<close> stops there.\<close>

definition str_at :: "string \<Rightarrow> nat \<Rightarrow> char" where
  "str_at s i = (if i < length s then s ! i else CHR 0x00)"

definition uuid_is_valid :: "string \<Rightarrow> bool" where
  "uuid_is_valid uuid =
     list_all (\<lambda>i. if i = 8 \<or> i = 13 \<or> i = 18 \<or> i = 23 then str_at uuid i = CHR ''-''
                   else isxdigit (str_at uuid i)) [0..<UUID_STRING_LEN]"

definition hex_to_bin :: "char \<Rightarrow> int" where
  "hex_to_bin ch = (case digit_val ch of Some d \<Rightarrow> int d | None \<Rightarrow> - 1)"

definition uuid_si :: "nat list" where
  "uuid_si = [0,2,4,6,9,11,14,16,19,21,24,26,28,30,32,34]"

definition uuid_byte :: "string \<Rightarrow> nat \<Rightarrow> u8" where
  "uuid_byte uuid p =
     (let hi = hex_to_bin (str_at uuid p); lo = hex_to_bin (str_at uuid (p + 1))
      in of_int (push_bit 4 hi OR lo))"

definition uuid_parse_index :: "string \<Rightarrow> bytes \<Rightarrow> nat list \<Rightarrow> int \<times> bytes" where
  "uuid_parse_index uuid b ei =
     (if \<not> uuid_is_valid uuid then (- EINVAL, b)
      else (0, fold (\<lambda>i b. b[ei ! i := uuid_byte uuid (uuid_si ! i)]) [0..<16] b))"

definition guid_parse :: "string \<Rightarrow> bytes \<Rightarrow> int \<times> bytes" where
  "guid_parse uuid u = uuid_parse_index uuid u guid_index"

definition uuid_parse :: "string \<Rightarrow> bytes \<Rightarrow> int \<times> bytes" where
  "uuid_parse uuid u = uuid_parse_index uuid u uuid_index"

definition hex_asc :: string where
  "hex_asc = ''0123456789abcdef''"

definition hex_byte_pack :: "u8 \<Rightarrow> string" where
  "hex_byte_pack byte =
     [hex_asc ! unat (drop_bit 4 (byte AND 0xf0)), hex_asc ! unat (byte AND 0x0f)]"

text \<open>The formats \<^verbatim>\<open>Ub\<close> (network order) and \<^verbatim>\<open>Ul\<close> (GUID order) that parameters are printed
  with.\<close>

definition uuid_string :: "bool \<Rightarrow> bytes \<Rightarrow> string" where
  "uuid_string le addr =
     (let index = (if le then guid_index else uuid_index)
      in concat (map (\<lambda>i. hex_byte_pack (addr ! (index ! i))
           @ (if i = 3 \<or> i = 5 \<or> i = 7 \<or> i = 9 then ''-'' else [])) [0..<16]))"

section \<open>Parameters\<close>

datatype param_type =
    PARAM_TYPE_STRING
  | PARAM_TYPE_INT32
  | PARAM_TYPE_UINT32
  | PARAM_TYPE_INT64
  | PARAM_TYPE_UINT64
  | PARAM_TYPE_BOOL
  | PARAM_TYPE_ENUM
  | PARAM_TYPE_BITMASK
  | PARAM_TYPE_IPV4
  | PARAM_TYPE_MAC
  | PARAM_TYPE_FILE_LIST
  | PARAM_TYPE_UUID
  | PARAM_TYPE_GUID

text \<open>The printf conversions that integer parameters are registered with; a hexadecimal
  conversion is not modelled.\<close>

datatype int_format = Fmt_d | Fmt_u | Fmt_lld | Fmt_llu

text \<open>
  What a parameter owns or points to: the string of a generic parameter, the string behind
  \<^verbatim>\<open>struct param_string\<close>, the integer behind \<^verbatim>\<open>struct param_int\<close> with its format, the index
  behind \<^verbatim>\<open>struct param_enum\<close> with its names, the word behind \<^verbatim>\<open>struct param_bitmask\<close> with its
  names and the text buffer that its getter prints into, and the bytes behind
  \<^verbatim>\<open>struct param_uuid\<close>. A bitmask has at most 64 names here, so that its memory is one
  \<^verbatim>\<open>unsigned long\<close>.
\<close>

datatype param_data =
    Generic_data "string option"
  | String_data "string option"
  | Int_data u64 int_format
  | Enum_data u32 "string option list"
  | Bitmask_data u64 "string option list" string
  | Uuid_data bytes

record param_d =
  p_name :: string
  p_type :: param_type
  p_flag_ro :: bool
  p_data :: param_data
  p_set :: "(param_data \<Rightarrow> int) option"
  p_get :: "(param_data \<Rightarrow> int \<times> param_data) option"

subsection \<open>Setters\<close>

text \<open>The common tail of the setters: the new memory is announced to the \<open>set\<close> notifier, and
  the saved memory is put back when the notifier refuses.\<close>

definition param_notify :: "param_d \<Rightarrow> param_data \<Rightarrow> int \<times> param_d" where
  "param_notify p new =
     (case p_set p of
        None \<Rightarrow> (0, p\<lparr>p_data := new\<rparr>)
      | Some set_fn \<Rightarrow>
          (let ret = set_fn new in if ret \<noteq> 0 then (ret, p) else (ret, p\<lparr>p_data := new\<rparr>)))"

definition bobject_param_set_generic :: "param_d \<Rightarrow> string option \<Rightarrow> int \<times> param_d" where
  "bobject_param_set_generic p val = (0, p\<lparr>p_data := Generic_data val\<rparr>)"

definition param_string_set :: "param_d \<Rightarrow> string option \<Rightarrow> int \<times> param_d" where
  "param_string_set p val =
     (let val = (case val of None \<Rightarrow> [] | Some v \<Rightarrow> v);
          value_new = strim (skip_spaces val)
      in param_notify p (String_data (Some value_new)))"

definition low32 :: "u64 \<Rightarrow> u64" where
  "low32 w = ucast (ucast w :: u32)"

definition param_int_set :: "param_d \<Rightarrow> string option \<Rightarrow> int \<times> param_d" where
  "param_int_set p val =
     (case (val, p_data p) of
        (Some val, Int_data v format) \<Rightarrow>
          (case p_type p of
             PARAM_TYPE_BOOL \<Rightarrow>
               param_notify p (Int_data
                 (case snd (strtobool (Some val)) of None \<Rightarrow> v | Some b \<Rightarrow> (if b then 1 else 0)) format)
           | PARAM_TYPE_INT32 \<Rightarrow> param_notify p (Int_data (low32 (simple_strtol val 0)) format)
           | PARAM_TYPE_UINT32 \<Rightarrow> param_notify p (Int_data (low32 (simple_strtoul val 0)) format)
           | PARAM_TYPE_INT64 \<Rightarrow> param_notify p (Int_data (simple_strtoll val 0) format)
           | PARAM_TYPE_UINT64 \<Rightarrow> param_notify p (Int_data (fst (simple_strtoull val 0)) format)
           | _ \<Rightarrow> (- EINVAL, p))
      | _ \<Rightarrow> (- EINVAL, p))"

fun name_index :: "string option list \<Rightarrow> string \<Rightarrow> nat" where
  "name_index [] val = 0"
| "name_index (n # names) val = (if n = Some val then 0 else Suc (name_index names val))"

definition param_enum_set :: "param_d \<Rightarrow> string option \<Rightarrow> int \<times> param_d" where
  "param_enum_set p val =
     (case (val, p_data p) of
        (Some val, Enum_data v names) \<Rightarrow>
          (let i = name_index names val
           in if i = length names then
                (case simple_strtoull val 0 of (idx, endp) \<Rightarrow>
                   if endp \<noteq> [] \<or> length endp = length val \<or> length names \<le> unat idx
                      \<or> names ! unat idx = None
                   then (- EINVAL, p)
                   else param_notify p (Enum_data (ucast idx) names))
              else param_notify p (Enum_data (of_nat i) names))
      | _ \<Rightarrow> (- EINVAL, p))"

lemma strsep_shorter: "strsep (Some s) c = (str, Some r) \<Longrightarrow> length r < length s"
  by (auto simp: strsep_def split: option.splits dest: strchr_Some_length)

function bitmask_loop :: "string option list \<Rightarrow> string option \<Rightarrow> u64 \<Rightarrow> int \<times> u64" where
  "bitmask_loop names dval value =
     (case strsep dval (CHR '' '') of (str, dval') \<Rightarrow>
        (case str of
           None \<Rightarrow> (0, value)
         | Some str \<Rightarrow>
             if str = [] then (0, value)
             else (let i = name_index names str
                   in if i = length names then (- EINVAL, value)
                      else bitmask_loop names dval' (set_bit i value))))"
  by pat_completeness auto

termination
proof (relation "measure (\<lambda>(names, dval, value). case dval of None \<Rightarrow> 0 | Some s \<Rightarrow> Suc (length s))", goal_cases)
  case (2 names dval v0 x y z w)
  then obtain s where s: "dval = Some s" by (cases dval) (auto simp: strsep_def)
  with 2(1) [symmetric] show ?case by (cases y) (auto dest: strsep_shorter)
qed simp

declare bitmask_loop.simps [simp del]

definition param_bitmask_set :: "param_d \<Rightarrow> string option \<Rightarrow> int \<times> param_d" where
  "param_bitmask_set p val =
     (case p_data p of
        Bitmask_data v names buf \<Rightarrow>
          (let val = (case val of None \<Rightarrow> [] | Some v \<Rightarrow> v)
           in case bitmask_loop names (Some val) v of (ret, v') \<Rightarrow>
                if ret \<noteq> 0 then (ret, p\<lparr>p_data := Bitmask_data v' names buf\<rparr>)
                else param_notify p (Bitmask_data v' names buf))
      | _ \<Rightarrow> (- EINVAL, p))"

definition param_uuid_set :: "param_d \<Rightarrow> string option \<Rightarrow> int \<times> param_d" where
  "param_uuid_set p val =
     (case (val, p_data p) of
        (Some val, Uuid_data u) \<Rightarrow>
          if length val = UUID_STRING_LEN then (- EINVAL, p)
          else (case (if p_type p = PARAM_TYPE_GUID then guid_parse val u else uuid_parse val u) of
                  (ret, u') \<Rightarrow>
                    if ret \<noteq> 0 then (ret, p) else param_notify p (Uuid_data u'))
      | _ \<Rightarrow> (- EINVAL, p))"

subsection \<open>Getters\<close>

definition fmt_lld :: "u64 \<Rightarrow> string" where
  "fmt_lld w = (if sint w < 0 then ''-'' @ number (nat (- sint w)) else number (nat (sint w)))"

definition fmt_llu :: "u64 \<Rightarrow> string" where
  "fmt_llu w = number (unat w)"

definition print_int :: "int_format \<Rightarrow> u64 \<Rightarrow> string" where
  "print_int format v =
     (case format of
        Fmt_d \<Rightarrow> fmt_d (ucast v)
      | Fmt_u \<Rightarrow> fmt_u (ucast v)
      | Fmt_lld \<Rightarrow> fmt_lld v
      | Fmt_llu \<Rightarrow> fmt_llu v)"

definition PARAM_ENUM_UNKNOWN :: u32 where
  "PARAM_ENUM_UNKNOWN = - 1000000"

definition enum_text :: "u32 \<Rightarrow> string option list \<Rightarrow> string option" where
  "enum_text v names =
     (if v = PARAM_ENUM_UNKNOWN then Some ''unknown''
      else if length names \<le> unat v then Some (''invalid:'' @ fmt_d v)
      else names ! unat v)"

definition bitmask_text :: "u64 \<Rightarrow> string option list \<Rightarrow> string \<Rightarrow> string" where
  "bitmask_text v names buf =
     (let txt = concat (map (\<lambda>i. case names ! i of None \<Rightarrow> [] | Some n \<Rightarrow> n @ '' '')
                  (filter (bit v) [0..<length names]))
      in if txt = [] then buf else txt)"

text \<open>A \<open>get\<close> notifier may refresh the memory before it is printed.\<close>

definition param_refresh :: "param_d \<Rightarrow> int \<times> param_d" where
  "param_refresh p =
     (case p_get p of
        None \<Rightarrow> (0, p)
      | Some get_fn \<Rightarrow> (case get_fn (p_data p) of (ret, d) \<Rightarrow> (ret, p\<lparr>p_data := d\<rparr>)))"

definition param_get_generic :: "param_d \<Rightarrow> string option \<times> param_d" where
  "param_get_generic p =
     (case p_data p of
        Generic_data v \<Rightarrow> (Some (case v of None \<Rightarrow> [] | Some s \<Rightarrow> s), p)
      | _ \<Rightarrow> (None, p))"

definition param_string_get :: "param_d \<Rightarrow> string option \<times> param_d" where
  "param_string_get p =
     (case param_refresh p of (ret, p) \<Rightarrow>
        if ret \<noteq> 0 then (None, p)
        else (case p_data p of String_data v \<Rightarrow> (v, p) | _ \<Rightarrow> (None, p)))"

definition param_int_get :: "param_d \<Rightarrow> string option \<times> param_d" where
  "param_int_get p =
     (case param_refresh p of (ret, p) \<Rightarrow>
        if ret \<noteq> 0 then (None, p)
        else (case p_data p of
                Int_data v format \<Rightarrow>
                  (if p_type p \<in> {PARAM_TYPE_BOOL, PARAM_TYPE_INT32, PARAM_TYPE_UINT32,
                        PARAM_TYPE_INT64, PARAM_TYPE_UINT64}
                   then Some (print_int format v) else None, p)
              | _ \<Rightarrow> (None, p)))"

definition param_enum_get :: "param_d \<Rightarrow> string option \<times> param_d" where
  "param_enum_get p =
     (case param_refresh p of (ret, p) \<Rightarrow>
        if ret \<noteq> 0 then (None, p)
        else (case p_data p of Enum_data v names \<Rightarrow> (enum_text v names, p) | _ \<Rightarrow> (None, p)))"

definition param_bitmask_get :: "param_d \<Rightarrow> string option \<times> param_d" where
  "param_bitmask_get p =
     (case param_refresh p of (ret, p) \<Rightarrow>
        if ret \<noteq> 0 then (None, p)
        else (case p_data p of
                Bitmask_data v names buf \<Rightarrow>
                  (let buf = bitmask_text v names buf
                   in (Some buf, p\<lparr>p_data := Bitmask_data v names buf\<rparr>))
              | _ \<Rightarrow> (None, p)))"

definition param_uuid_get :: "param_d \<Rightarrow> string option \<times> param_d" where
  "param_uuid_get p =
     (case param_refresh p of (ret, p) \<Rightarrow>
        if ret \<noteq> 0 then (None, p)
        else (case p_data p of
                Uuid_data u \<Rightarrow> (Some (uuid_string (p_type p = PARAM_TYPE_GUID) u), p)
              | _ \<Rightarrow> (None, p)))"

text \<open>The getter and the setter that a parameter was registered with.\<close>

definition param_get :: "param_d \<Rightarrow> string option \<times> param_d" where
  "param_get p =
     (case p_data p of
        Generic_data v \<Rightarrow> param_get_generic p
      | String_data v \<Rightarrow> param_string_get p
      | Int_data v format \<Rightarrow> param_int_get p
      | Enum_data v names \<Rightarrow> param_enum_get p
      | Bitmask_data v names buf \<Rightarrow> param_bitmask_get p
      | Uuid_data u \<Rightarrow> param_uuid_get p)"

definition param_set :: "param_d \<Rightarrow> string option \<Rightarrow> int \<times> param_d" where
  "param_set p val =
     (case p_data p of
        Generic_data v \<Rightarrow> bobject_param_set_generic p val
      | String_data v \<Rightarrow> param_string_set p val
      | Int_data v format \<Rightarrow> param_int_set p val
      | Enum_data v names \<Rightarrow> param_enum_set p val
      | Bitmask_data v names buf \<Rightarrow> param_bitmask_set p val
      | Uuid_data u \<Rightarrow> param_uuid_set p val)"

subsection \<open>Barebox objects\<close>

type_synonym bobject = "param_d list"

fun get_param_by_name :: "bobject \<Rightarrow> string \<Rightarrow> param_d option" where
  "get_param_by_name [] name = None"
| "get_param_by_name (p # ps) name = (if p_name p = name then Some p else get_param_by_name ps name)"

text \<open>The parameter found by name is changed in place.\<close>

fun put_param :: "bobject \<Rightarrow> string \<Rightarrow> param_d \<Rightarrow> bobject" where
  "put_param [] name p' = []"
| "put_param (p # ps) name p' = (if p_name p = name then p' # ps else p # put_param ps name p')"

definition bobject_get_param :: "bobject \<Rightarrow> string \<Rightarrow> string option \<times> bobject" where
  "bobject_get_param bobj name =
     (case get_param_by_name bobj name of
        None \<Rightarrow> (None, bobj)
      | Some p \<Rightarrow> (case param_get p of (v, p') \<Rightarrow> (v, put_param bobj name p')))"

definition bobject_set_param :: "bobject \<Rightarrow> string \<Rightarrow> string option \<Rightarrow> int \<times> bobject" where
  "bobject_set_param bobj name val =
     (case get_param_by_name bobj name of
        None \<Rightarrow> (- EINVAL, bobj)
      | Some p \<Rightarrow>
          if p_flag_ro p then (- EACCES, bobj)
          else (case param_set p val of (ret, p') \<Rightarrow> (ret, put_param bobj name p')))"

text \<open>
  Registration. The argument \<open>nv\<close> is what \<^verbatim>\<open>dev_param_init_from_nv\<close> finds under
  \<open>nv.dev.<device>.<name>\<close>: the persistent value for the new parameter, or \<open>None\<close>; the result
  of assigning it is only reported.
\<close>

definition compare_param :: "param_d \<Rightarrow> param_d \<Rightarrow> int" where
  "compare_param a b = strcmp (p_name a) (p_name b)"

definition dev_param_init_from_nv :: "bobject \<Rightarrow> string \<Rightarrow> string option \<Rightarrow> bobject" where
  "dev_param_init_from_nv bobj name nv =
     (case nv of None \<Rightarrow> bobj | Some val \<Rightarrow> snd (bobject_set_param bobj name (Some val)))"

definition bobject_add_param :: "bobject \<Rightarrow> param_d \<Rightarrow> string option \<Rightarrow> int \<times> bobject" where
  "bobject_add_param bobj param nv =
     (if get_param_by_name bobj (p_name param) \<noteq> None then (- EEXIST, bobj)
      else (let bobj = list_add_sort param bobj compare_param
            in (0, dev_param_init_from_nv bobj (p_name param) nv)))"

text \<open>The public constructors fill in the type, the memory and the callbacks.\<close>

definition new_param :: "string \<Rightarrow> param_type \<Rightarrow> param_data \<Rightarrow> (param_data \<Rightarrow> int) option \<Rightarrow>
    (param_data \<Rightarrow> int \<times> param_data) option \<Rightarrow> param_d" where
  "new_param name type d set_fn get_fn =
     \<lparr>p_name = name, p_type = type, p_flag_ro = False, p_data = d, p_set = set_fn, p_get = get_fn\<rparr>"

definition bobject_add_param_fixed :: "bobject \<Rightarrow> string \<Rightarrow> string option \<Rightarrow> int \<times> bobject" where
  "bobject_add_param_fixed bobj name text =
     bobject_add_param bobj
       (new_param name PARAM_TYPE_STRING (Generic_data text) None None\<lparr>p_flag_ro := True\<rparr>) None"

definition bobject_add_param_string :: "bobject \<Rightarrow> string \<Rightarrow> (param_data \<Rightarrow> int) option \<Rightarrow>
    (param_data \<Rightarrow> int \<times> param_data) option \<Rightarrow> string option \<Rightarrow> string option \<Rightarrow> int \<times> bobject" where
  "bobject_add_param_string bobj name set_fn get_fn value nv =
     bobject_add_param bobj
       (new_param name PARAM_TYPE_STRING (String_data value) set_fn get_fn) nv"

definition bobject_add_param_int :: "bobject \<Rightarrow> string \<Rightarrow> (param_data \<Rightarrow> int) option \<Rightarrow>
    (param_data \<Rightarrow> int \<times> param_data) option \<Rightarrow> u64 \<Rightarrow> param_type \<Rightarrow> int_format \<Rightarrow> string option \<Rightarrow>
    int \<times> bobject" where
  "bobject_add_param_int bobj name set_fn get_fn value type format nv =
     (if type \<in> {PARAM_TYPE_BOOL, PARAM_TYPE_INT32, PARAM_TYPE_UINT32, PARAM_TYPE_INT64,
           PARAM_TYPE_UINT64}
      then bobject_add_param bobj (new_param name type (Int_data value format) set_fn get_fn) nv
      else (- EINVAL, bobj))"

definition bobject_add_param_enum :: "bobject \<Rightarrow> string \<Rightarrow> (param_data \<Rightarrow> int) option \<Rightarrow>
    (param_data \<Rightarrow> int \<times> param_data) option \<Rightarrow> u32 \<Rightarrow> string option list \<Rightarrow> string option \<Rightarrow>
    int \<times> bobject" where
  "bobject_add_param_enum bobj name set_fn get_fn value names nv =
     bobject_add_param bobj
       (new_param name PARAM_TYPE_ENUM (Enum_data value names) set_fn get_fn) nv"

definition tristate_names :: "string option list" where
  "tristate_names = [Some ''unknown'', Some ''1'', Some ''0'']"

definition bobject_add_param_tristate :: "bobject \<Rightarrow> string \<Rightarrow> (param_data \<Rightarrow> int) option \<Rightarrow>
    (param_data \<Rightarrow> int \<times> param_data) option \<Rightarrow> u32 \<Rightarrow> string option \<Rightarrow> int \<times> bobject" where
  "bobject_add_param_tristate bobj name set_fn get_fn value nv =
     bobject_add_param_enum bobj name set_fn get_fn value tristate_names nv"

definition bobject_add_param_bitmask :: "bobject \<Rightarrow> string \<Rightarrow> (param_data \<Rightarrow> int) option \<Rightarrow>
    (param_data \<Rightarrow> int \<times> param_data) option \<Rightarrow> u64 \<Rightarrow> string option list \<Rightarrow> string option \<Rightarrow>
    int \<times> bobject" where
  "bobject_add_param_bitmask bobj name set_fn get_fn value names nv =
     bobject_add_param bobj
       (new_param name PARAM_TYPE_BITMASK (Bitmask_data value names []) set_fn get_fn) nv"

definition bobject_add_param_uuid :: "bobject \<Rightarrow> string \<Rightarrow> (param_data \<Rightarrow> int) option \<Rightarrow>
    (param_data \<Rightarrow> int \<times> param_data) option \<Rightarrow> bytes \<Rightarrow> bool \<Rightarrow> string option \<Rightarrow> int \<times> bobject" where
  "bobject_add_param_uuid bobj name set_fn get_fn uuid is_guid nv =
     bobject_add_param bobj
       (new_param name (if is_guid then PARAM_TYPE_GUID else PARAM_TYPE_UUID) (Uuid_data uuid)
          set_fn get_fn) nv"

definition param_remove :: "bobject \<Rightarrow> string \<Rightarrow> bobject" where
  "param_remove bobj name = filter (\<lambda>p. p_name p \<noteq> name) bobj"

section \<open>Assignments that are refused\<close>

lemma param_notify_cases:
  assumes "param_notify p new = (ret, p')"
  shows "(ret = 0 \<and> p' = p\<lparr>p_data := new\<rparr>) \<or> (ret \<noteq> 0 \<and> p' = p)"
  using assms by (auto simp: param_notify_def Let_def split: option.splits if_splits)

lemmas param_set_defs = param_set_def bobject_param_set_generic_def param_string_set_def
  param_int_set_def param_enum_set_def param_bitmask_set_def param_uuid_set_def

text \<open>Only the memory of a parameter is assigned; its name, type, flags and callbacks stay.\<close>

lemma param_set_keeps:
  assumes "param_set p val = (ret, p')"
  shows "\<exists>d. p' = p\<lparr>p_data := d\<rparr>"
proof -
  have "\<And>p. \<exists>d. p = p\<lparr>p_data := d\<rparr>" by (metis (full_types) param_d.surjective param_d.update_convs(4))
  with assms show ?thesis
    by (auto simp: param_set_defs Let_def split: param_data.splits option.splits prod.splits
        if_splits param_type.splits dest!: param_notify_cases)
qed



section \<open>Enumerations\<close>

definition enum_named :: "param_data \<Rightarrow> bool" where
  "enum_named d =
     (case d of
        Enum_data v names \<Rightarrow> unat v < length names \<and> names ! unat v \<noteq> None \<and> length names < 2 ^ 31
      | _ \<Rightarrow> True)"

lemma name_index_le: "name_index names val \<le> length names"
  by (induction names) auto

lemma name_index_nth: "name_index names val < length names \<Longrightarrow> names ! name_index names val = Some val"
  by (induction names) (auto split: if_splits)

lemma param_enum_set_named:
  assumes "param_enum_set p val = (ret, p')" and "ret = 0" and "length names < 2 ^ 31"
    and "p_data p = Enum_data v names"
  obtains v' s where "p' = p\<lparr>p_data := Enum_data v' names\<rparr>" and "unat v' < length names"
    and "val = Some s" and "names ! unat v' \<noteq> None"
    and "name_index names s < length names \<longrightarrow> names ! unat v' = Some s"
proof -
  from assms obtain s where s: "val = Some s" by (auto simp: param_enum_set_def split: option.splits)
  define i where "i = name_index names s"
  show thesis
  proof (cases "i = length names")
    case True
    with assms s i_def obtain idx endp where idx: "simple_strtoull s 0 = (idx, endp)"
      "unat idx < length names" "names ! unat idx \<noteq> None"
      "param_notify p (Enum_data (ucast idx) names) = (ret, p')"
      by (auto simp: param_enum_set_def Let_def split: prod.splits if_splits)
    have "unat (ucast idx :: u32) = unat idx"
      using idx(2) assms(3) by (simp add: unsigned_ucast_eq take_bit_nat_eq_self)
    with idx True i_def assms(2) s show thesis
      by (intro that [of "ucast idx" s]) (auto dest: param_notify_cases)
  next
    case False
    then have lt: "i < length names" using name_index_le [of names s] i_def by simp
    then have "unat (of_nat i :: u32) = i" using assms(3) by (simp add: unat_of_nat take_bit_nat_eq_self)
    moreover from False assms s i_def have "param_notify p (Enum_data (of_nat i) names) = (ret, p')"
      by (simp add: param_enum_set_def Let_def)
    ultimately show thesis using lt s assms(2) name_index_nth [of names s] i_def
      by (intro that [of "of_nat i" s]) (auto dest: param_notify_cases)
  qed
qed

lemmas param_get_defs = param_get_def param_get_generic_def param_string_get_def param_int_get_def
  param_enum_get_def param_bitmask_get_def param_uuid_get_def param_refresh_def

lemma enum_text_named:
  assumes "enum_named (Enum_data v names)"
  shows "enum_text v names = names ! unat v"
proof -
  have "unat PARAM_ENUM_UNKNOWN = 4293967296" by (simp add: PARAM_ENUM_UNKNOWN_def)
  with assms have "v \<noteq> PARAM_ENUM_UNKNOWN" by (auto simp: enum_named_def)
  with assms show ?thesis by (simp add: enum_text_def enum_named_def)
qed

lemma name_index_found: "Some s \<in> set names \<Longrightarrow> name_index names s < length names"
  by (induction names) auto



section \<open>Integers\<close>

text \<open>A parameter whose format prints what its type holds; a boolean holds 0 or 1.\<close>

definition int_fits :: "param_type \<Rightarrow> int_format \<Rightarrow> u64 \<Rightarrow> bool" where
  "int_fits type format v =
     (case type of
        PARAM_TYPE_BOOL \<Rightarrow> format = Fmt_d \<and> v \<in> {0, 1}
      | PARAM_TYPE_INT32 \<Rightarrow> format = Fmt_d \<and> low32 v = v
      | PARAM_TYPE_UINT32 \<Rightarrow> format = Fmt_u \<and> low32 v = v
      | PARAM_TYPE_INT64 \<Rightarrow> format = Fmt_lld
      | PARAM_TYPE_UINT64 \<Rightarrow> format = Fmt_llu
      | _ \<Rightarrow> False)"

lemma number_not_minus: "number n \<noteq> CHR ''-'' # s"
proof
  assume eq: "number n = CHR ''-'' # s"
  then obtain d ds where "rev (number_tmp n) = d # ds" "digit_char d = CHR ''-''"
    by (auto simp: number_def)
  moreover then have "d < 10" using number_tmp_digits [of n] by (metis list.set_intros(1) set_rev)
  ultimately show False using of_char_digit [of d] by simp
qed

lemma simple_strtol_number: "simple_strtol (number n) 0 = of_nat n"
  using number_not_minus [of n] simple_strtoul_number [of n]
  by (cases "number n") (auto simp: simple_strtol_def)

lemma simple_strtol_fmt_d: "simple_strtol (fmt_d w) 0 = of_int (sint w)"
  by (auto simp: fmt_d_def simple_strtol_number) (simp add: simple_strtol_def simple_strtoul_number)

lemma simple_strtoll_eq: "simple_strtoll cp base = simple_strtol cp base"
  by (simp add: simple_strtoll_def simple_strtol_def simple_strtoul_def split: list.splits)

lemma simple_strtoll_fmt_lld: "simple_strtoll (fmt_lld w) 0 = w"
  by (auto simp: fmt_lld_def simple_strtol_number simple_strtoll_eq)
    (simp add: simple_strtol_def simple_strtoul_number)

lemma ucast_scast_32 [simp]: "ucast (scast (w :: u32) :: u64) = w"
proof (rule bit_word_eqI)
  fix n assume "n < LENGTH(32)"
  then show "bit (ucast (scast w :: u64) :: u32) n = bit w n"
    by (cases "n = 31") (auto simp: bit_simps min_def)
qed

lemma ucast_ucast_32 [simp]: "ucast (ucast (w :: u32) :: u64) = w"
  by (rule bit_word_eqI) (auto simp: bit_simps)

lemma low32_scast: "low32 (scast (w :: u32)) = ucast w"
  by (simp add: low32_def)

lemma low32_of_nat_unat: "low32 (of_nat (unat (w :: u32))) = ucast w"
  by (simp add: low32_def)

lemma number_0: "number 0 = ''0''"
  by (simp add: number_def number_tmp.simps digit_char_0)

lemma number_1: "number (Suc 0) = ''1''"
  by (simp add: number_def number_tmp.simps digit_char_def char_of_def bit_simps)

lemma strtobool_digits: "strtobool (Some ''0'') = (0, Some False)" "strtobool (Some ''1'') = (0, Some True)"
  using simple_strtoul_number [of 0] simple_strtoul_number [of 1]
  by (simp_all add: strtobool_def number_0 number_1 del: strcasecmp.simps)

text \<open>The text that an integer parameter prints is the text that sets it: for each
  integer type with its own format, assigning the printed value to a parameter of the same
  kind gives exactly the value that was printed, whatever the parameter held before. Negative
  values and the full range of both widths are included.\<close>

theorem param_int_roundtrip:
  assumes "int_fits (p_type p) format v" and "p_data p = Int_data w format" and "p_set p = None"
    and "p_get p = None" and "fst (param_get (p\<lparr>p_data := Int_data v format\<rparr>)) = Some shown"
  shows "param_set p (Some shown) = (0, p\<lparr>p_data := Int_data v format\<rparr>)"
proof -
  have shown: "shown = print_int format v" using assms(4,5) by (simp add: param_get_defs split: if_splits)
  have bool: "v \<in> {0, 1} \<Longrightarrow> snd (strtobool (Some (print_int Fmt_d v))) = Some (v = 1)"
    by (auto simp: print_int_def fmt_d_def number_0 number_1 strtobool_digits)
  have "low32 v = v \<Longrightarrow> ucast (ucast v :: u32) = v" by (simp add: low32_def)
  with assms bool show ?thesis
    by (cases "p_type p") (auto simp: shown int_fits_def param_set_def param_int_set_def param_notify_def
        print_int_def simple_strtol_fmt_d low32_scast low32_of_nat_unat fmt_u_def
        simple_strtoul_number simple_strtoll_fmt_lld fmt_llu_def simple_strtoul_def [symmetric])
qed

theorem param_int_roundtrip_witness:
  "param_set (new_param ''offset'' PARAM_TYPE_INT32 (Int_data 7 Fmt_d) None None) (Some ''-1'')
   = (0, new_param ''offset'' PARAM_TYPE_INT32 (Int_data 0xFFFFFFFF Fmt_d) None None)"
proof -
  let ?p = "new_param ''offset'' PARAM_TYPE_INT32 (Int_data 7 Fmt_d) None None"
  have "int_fits (p_type ?p) Fmt_d 0xFFFFFFFF"
    by (simp add: new_param_def int_fits_def low32_def)
  moreover have "fst (param_get (?p\<lparr>p_data := Int_data 0xFFFFFFFF Fmt_d\<rparr>)) = Some ''-1''"
    by (simp add: new_param_def param_get_defs print_int_def fmt_d_def number_1)
  ultimately show ?thesis
    using param_int_roundtrip [where p = ?p and format = Fmt_d and v = "0xFFFFFFFF" and w = 7] by (simp add: new_param_def)
qed

section \<open>UUIDs: printing, parsing, and the length check of the setter\<close>

lemma upt_16: "[0..<16] = [0, 1, 2, 3, 4, 5, 6, 7, 8, 9, 10, 11, 12, 13, 14, 15 :: nat]"
  by (simp add: upt_rec)

lemma hex_digits: "list_all (\<lambda>k. digit_val (hex_asc ! k) = Some k) [0..<16]"
  unfolding upt_16 list.pred_inject(2)
  by (intro conjI list.pred_inject(1)) (simp_all add: hex_asc_def digit_val_def)

lemma digit_val_hex_asc [simp]: "k < 16 \<Longrightarrow> digit_val (hex_asc ! k) = Some k"
  using hex_digits by (auto simp: list_all_iff)

lemma isxdigit_hex_asc [simp]: "k < 16 \<Longrightarrow> isxdigit (hex_asc ! k)"
  by (simp add: isxdigit_def)

lemma nibble_bounds [simp]:
  "unat (drop_bit 4 ((w :: u8) AND 0xf0)) < 16" "unat ((w :: u8) AND 0x0f) < 16"
proof -
  have "unat ((w :: u8) AND 0xf0) < 256" using unsigned_less [of "w AND 0xf0"] by simp
  then show "unat (drop_bit 4 ((w :: u8) AND 0xf0)) < 16"
    by (subst unat_drop_bit_eq) (simp add: drop_bit_eq_div)
  have "(w :: u8) AND 0x0f \<le> 0x0f" by (rule word_and_le1)
  then show "unat ((w :: u8) AND 0x0f) < 16" by (simp add: word_le_nat_alt)
qed

lemma nibbles_join:
  "of_int (push_bit 4 (int (unat (drop_bit 4 ((w :: u8) AND 0xf0)))) OR int (unat (w AND 0x0f))) = w"
proof (rule bit_word_eqI)
  fix n assume "n < LENGTH(8)"
  then have "n \<in> {0,1,2,3,4,5,6,7}" by auto
  then show "bit (of_int (push_bit 4 (int (unat (drop_bit 4 (w AND 0xf0)))) OR int (unat (w AND 0x0f))) :: u8) n
      = bit w n"
    by (auto simp: bit_simps)
qed

lemma length_16:
  assumes "length xs = 16"
  obtains a0 a1 a2 a3 a4 a5 a6 a7 a8 a9 a10 a11 a12 a13 a14 a15
  where "xs = [a0, a1, a2, a3, a4, a5, a6, a7, a8, a9, a10, a11, a12, a13, a14, a15]"
  using assms by (auto simp: numeral_eq_Suc length_Suc_conv)

lemma upt_36: "[0..<36] = [0, 1, 2, 3, 4, 5, 6, 7, 8, 9, 10, 11, 12, 13, 14, 15, 16, 17, 18, 19,
   20, 21, 22, 23, 24, 25, 26, 27, 28, 29, 30, 31, 32, 33, 34, 35 :: nat]"
  by (simp add: upt_rec)

lemma uuid_string_length: "length (uuid_string le u) = UUID_STRING_LEN"
  by (simp add: uuid_string_def Let_def hex_byte_pack_def upt_16)

lemma uuid_string_valid: "uuid_is_valid (uuid_string le u)"
  unfolding uuid_is_valid_def upt_36 list.pred_inject(2)
  by (intro conjI list.pred_inject(1);
    simp add: uuid_string_def Let_def hex_byte_pack_def upt_16 str_at_def)

lemma uuid_byte_packed:
  assumes "str_at s p = hex_asc ! unat (drop_bit 4 ((w :: u8) AND 0xf0))"
    and "str_at s (p + 1) = hex_asc ! unat (w AND 0x0f)"
  shows "uuid_byte s p = w"
  using assms nibbles_join [of w] by (simp add: uuid_byte_def hex_to_bin_def Let_def)

lemma uuid_bytes:
  assumes "length u = 16" and "i < 16"
  shows "uuid_byte (uuid_string le u) (uuid_si ! i)
    = u ! ((if le then guid_index else uuid_index) ! i)"
proof -
  have "list_all (\<lambda>i. uuid_byte (uuid_string le u) (uuid_si ! i)
      = u ! ((if le then guid_index else uuid_index) ! i)) [0..<16]"
    unfolding upt_16 list.pred_inject(2)
    by (intro conjI list.pred_inject(1); rule uuid_byte_packed; 
      simp add: uuid_string_def Let_def hex_byte_pack_def upt_16 str_at_def uuid_si_def)
  with assms(2) show ?thesis by (auto simp: list_all_iff)
qed

text \<open>UUIDs survive the trip through text: parsing what \<^verbatim>\<open>uuid_string\<close> printed gives back
  the sixteen bytes, in network order for UUIDs and in mixed order for GUIDs, whatever the
  destination held before.\<close>

theorem uuid_roundtrip:
  assumes "length u = UUID_SIZE" and "length b = UUID_SIZE"
  shows "uuid_parse (uuid_string False u) b = (0, u) \<and> guid_parse (uuid_string True u) b = (0, u)"
  using uuid_bytes [OF assms(1), where le = False] uuid_bytes [OF assms(1), where le = True]
    uuid_string_valid [of _ u]
  by (rule_tac length_16 [OF assms(1)], rule_tac length_16 [OF assms(2)])
    (simp add: uuid_parse_def guid_parse_def uuid_parse_index_def upt_16 uuid_index_def guid_index_def)

theorem uuid_roundtrip_witness:
  "uuid_parse (uuid_string False (replicate 15 0xab @ [7])) (replicate 16 0)
     = (0, replicate 15 0xab @ [7])
   \<and> guid_parse (uuid_string True (replicate 15 0xab @ [7])) (replicate 16 0)
     = (0, replicate 15 0xab @ [7])"
  by (rule uuid_roundtrip) simp_all

text \<open>The setter of UUID parameters refuses every string of the canonical length: its
  length check is inverted, so no printed UUID, not even the one the parameter itself shows,
  can be assigned, and the parameter keeps its value.\<close>

theorem param_uuid_set_refuses_uuids:
  assumes "p_data p = Uuid_data u"
  shows "param_set p (Some (uuid_string le u')) = (- EINVAL, p)"
  using assms by (simp add: param_set_def param_uuid_set_def uuid_string_length)

theorem param_uuid_set_refuses_uuids_witness:
  "param_set (new_param ''uuid'' PARAM_TYPE_UUID (Uuid_data (replicate 16 0)) None None)
     (Some (uuid_string False (replicate 16 0)))
   = (- EINVAL, new_param ''uuid'' PARAM_TYPE_UUID (Uuid_data (replicate 16 0)) None None)"
  by (rule param_uuid_set_refuses_uuids [where u = "replicate 16 0"]) (simp add: new_param_def)

section \<open>Bitmasks\<close>

lemma bitmask_loop_grows: "bitmask_loop names dval v = (ret, v') \<Longrightarrow> bit v n \<Longrightarrow> bit v' n"
proof (induction names dval v arbitrary: ret v' rule: bitmask_loop.induct)
  case (1 names dval v)
  obtain str dval' where sep: "strsep dval (CHR '' '') = (str, dval')" by fastforce
  have "bit (set_bit i v) n" if "bit v n" for i
    using that by (auto simp: bit_set_bit_iff dest: bit_imp_le_length)
  with 1 sep show ?case
    by (subst (asm) bitmask_loop.simps)
      (auto simp: Let_def split: option.splits if_splits)
qed

text \<open>Assigning a bitmask only ever adds bits: whatever text is assigned, the empty one
  included, every bit that was set stays set, so a flag once given cannot be withdrawn by
  another assignment.\<close>

theorem param_bitmask_never_clears:
  assumes "p_data p = Bitmask_data v names buf" and "param_set p val = (ret, p')" and "bit v n"
  shows "\<exists>v'. p_data p' = Bitmask_data v' names buf \<and> bit v' n"
proof -
  obtain r w where loop: "bitmask_loop names (Some (case val of None \<Rightarrow> [] | Some s \<Rightarrow> s)) v = (r, w)"
    by fastforce
  then have "bit w n" using bitmask_loop_grows assms(3) by blast
  with assms loop show ?thesis
    by (auto simp: param_set_def param_bitmask_set_def split: if_splits dest!: param_notify_cases)
qed

theorem param_bitmask_never_clears_witness:
  "\<exists>v'. p_data (snd (param_set (new_param ''reset'' PARAM_TYPE_BITMASK
      (Bitmask_data 1 [Some ''power-on'', Some ''all-zero''] []) None None) (Some [])))
    = Bitmask_data v' [Some ''power-on'', Some ''all-zero''] [] \<and> bit v' 0"
  by (rule param_bitmask_never_clears [where v = 1 and val = "Some []", OF _ surjective_pairing])
    (simp_all add: new_param_def)

section \<open>Parameters of an object\<close>

definition bobject_ok :: "bobject \<Rightarrow> bool" where
  "bobject_ok bobj = distinct (map p_name bobj)"

lemma get_param_by_name_Some:
  "get_param_by_name ps name = Some p \<Longrightarrow> p \<in> set ps \<and> p_name p = name"
  by (induction ps) (auto split: if_splits)

lemma get_param_by_name_None:
  "get_param_by_name ps name = None \<longleftrightarrow> name \<notin> p_name ` set ps"
  by (induction ps) auto

lemma get_param_by_name_distinct:
  "bobject_ok ps \<Longrightarrow> get_param_by_name ps name = Some p \<longleftrightarrow> p \<in> set ps \<and> p_name p = name"
  unfolding bobject_ok_def by (induction ps) (auto dest: get_param_by_name_Some)

lemma put_param_names [simp]: "p_name p' = name \<Longrightarrow> map p_name (put_param ps name p') = map p_name ps"
  by (induction ps) auto

lemma get_put_param:
  "p_name p' = name \<Longrightarrow>
   get_param_by_name (put_param ps name p') n
     = (if n = name then map_option (\<lambda>_. p') (get_param_by_name ps name) else get_param_by_name ps n)"
  by (induction ps) auto

lemma bobject_set_param_spec:
  assumes "bobject_set_param bobj name val = (ret, bobj')"
  shows "map p_name bobj' = map p_name bobj"
    and "n \<noteq> name \<Longrightarrow> get_param_by_name bobj' n = get_param_by_name bobj n"
    and "get_param_by_name bobj name = Some p \<Longrightarrow> \<not> p_flag_ro p \<Longrightarrow>
      ret = fst (param_set p val) \<and> get_param_by_name bobj' name = Some (snd (param_set p val))"
    and "get_param_by_name bobj name = Some p \<Longrightarrow> p_flag_ro p \<Longrightarrow> ret = - EACCES \<and> bobj' = bobj"
    and "get_param_by_name bobj name = None \<Longrightarrow> ret = - EINVAL \<and> bobj' = bobj"
proof -
  consider (none) "get_param_by_name bobj name = None" "ret = - EINVAL" "bobj' = bobj"
    | (ro) q where "get_param_by_name bobj name = Some q" "p_flag_ro q" "ret = - EACCES" "bobj' = bobj"
    | (rw) q q' where "get_param_by_name bobj name = Some q" "\<not> p_flag_ro q"
        "param_set q val = (ret, q')" "bobj' = put_param bobj name q'" "p_name q' = name"
  proof (cases "get_param_by_name bobj name")
    case None
    with assms show thesis by (intro none) (simp_all add: bobject_set_param_def)
  next
    case (Some q)
    obtain r q' where set: "param_set q val = (r, q')" by fastforce
    then obtain d where "q' = q\<lparr>p_data := d\<rparr>" using param_set_keeps by blast
    then have "p_name q' = name" using get_param_by_name_Some [OF Some] by simp
    with assms Some set show thesis
      by (cases "p_flag_ro q") (auto simp: bobject_set_param_def intro: ro rw)
  qed
  then show "map p_name bobj' = map p_name bobj"
    and "n \<noteq> name \<Longrightarrow> get_param_by_name bobj' n = get_param_by_name bobj n"
    and "get_param_by_name bobj name = Some p \<Longrightarrow> \<not> p_flag_ro p \<Longrightarrow>
      ret = fst (param_set p val) \<and> get_param_by_name bobj' name = Some (snd (param_set p val))"
    and "get_param_by_name bobj name = Some p \<Longrightarrow> p_flag_ro p \<Longrightarrow> ret = - EACCES \<and> bobj' = bobj"
    and "get_param_by_name bobj name = None \<Longrightarrow> ret = - EINVAL \<and> bobj' = bobj"
    by (cases; simp add: get_put_param)+
qed

lemma distinct_list_add_sort:
  "distinct (map f (list_add_sort x xs cmp)) \<longleftrightarrow> f x \<notin> f ` set xs \<and> distinct (map f xs)"
  by (induction xs) auto

lemma get_param_list_add_sort:
  "n \<noteq> p_name p \<Longrightarrow> get_param_by_name (list_add_sort p ps cmp) n = get_param_by_name ps n"
  by (induction ps) auto

lemma dev_param_init_from_nv_spec:
  assumes "get_param_by_name b name = Some p"
  shows "map p_name (dev_param_init_from_nv b name nv) = map p_name b"
    and "n \<noteq> name \<Longrightarrow> get_param_by_name (dev_param_init_from_nv b name nv) n = get_param_by_name b n"
    and "\<exists>d. get_param_by_name (dev_param_init_from_nv b name nv) name = Some (p\<lparr>p_data := d\<rparr>)"
proof -
  have self: "\<exists>d. p = p\<lparr>p_data := d\<rparr>" by (rule exI [of _ "p_data p"]) simp
  show "map p_name (dev_param_init_from_nv b name nv) = map p_name b"
    by (cases nv) (simp_all add: dev_param_init_from_nv_def
        bobject_set_param_spec(1) [OF surjective_pairing])
  show "n \<noteq> name \<Longrightarrow> get_param_by_name (dev_param_init_from_nv b name nv) n = get_param_by_name b n"
    by (cases nv) (simp_all add: dev_param_init_from_nv_def
        bobject_set_param_spec(2) [OF surjective_pairing])
  show "\<exists>d. get_param_by_name (dev_param_init_from_nv b name nv) name = Some (p\<lparr>p_data := d\<rparr>)"
  proof (cases nv)
    case None
    with assms self show ?thesis by (simp add: dev_param_init_from_nv_def)
  next
    case (Some v)
    show ?thesis
    proof (cases "p_flag_ro p")
      case True
      with assms self Some bobject_set_param_spec(4) [OF surjective_pairing assms True, of "Some v"]
      show ?thesis by (simp add: dev_param_init_from_nv_def)
    next
      case False
      from param_set_keeps [OF surjective_pairing] obtain d where
        "snd (param_set p (Some v)) = p\<lparr>p_data := d\<rparr>" by blast
      with Some bobject_set_param_spec(3) [OF surjective_pairing assms False, of "Some v"]
      show ?thesis by (auto simp: dev_param_init_from_nv_def)
    qed
  qed
qed

text \<open>Registering a parameter makes it known under its name and disturbs nothing: names
  stay unique, every other parameter is found as before, a second registration of a name is
  refused without effect, and only the memory of the new parameter can be changed, by the
  persistent value found for it.\<close>

theorem bobject_add_param_spec:
  assumes "bobject_ok bobj" and "bobject_add_param bobj p nv = (ret, bobj')"
  shows "bobject_ok bobj'
    \<and> (\<forall>n. n \<noteq> p_name p \<longrightarrow> get_param_by_name bobj' n = get_param_by_name bobj n)
    \<and> (if get_param_by_name bobj (p_name p) = None
       then ret = 0 \<and> (\<exists>d. get_param_by_name bobj' (p_name p) = Some (p\<lparr>p_data := d\<rparr>))
       else ret = - EEXIST \<and> bobj' = bobj)"
proof (cases "get_param_by_name bobj (p_name p) = None")
  case True
  define b where "b = list_add_sort p bobj compare_param"
  have ok: "bobject_ok b" using assms(1) True
    by (simp add: b_def bobject_ok_def distinct_list_add_sort get_param_by_name_None)
  have b_p: "get_param_by_name b (p_name p) = Some p"
    using get_param_by_name_distinct [OF ok] by (simp add: b_def)
  have "ret = 0" and b': "bobj' = dev_param_init_from_nv b (p_name p) nv"
    using assms(2) True by (simp_all add: bobject_add_param_def b_def Let_def)
  with ok True dev_param_init_from_nv_spec [OF b_p] show ?thesis
    by (simp add: bobject_ok_def) (simp add: b_def get_param_list_add_sort)
next
  case False
  with assms show ?thesis by (auto simp: bobject_add_param_def)
qed

theorem bobject_add_param_spec_witness:
  "bobject_ok (snd (bobject_add_param [] (new_param ''a'' PARAM_TYPE_STRING (Generic_data None) None None)
     (Some ''x'')))"
  using bobject_add_param_spec [of "[]" "new_param ''a'' PARAM_TYPE_STRING (Generic_data None) None None"
    "Some ''x''", OF _ surjective_pairing]
  by (simp add: bobject_ok_def)

end
