(* ===== verification/Env.thy ===== *)
theory Env
  imports Params
begin

text \<open>
  Environment variables (\<^verbatim>\<open>common/env.c\<close>). A plain name is looked up in the stack of
  contexts: in the local variables of the current context, then in the exported ones of the
  current and of every outer context. A name with a dot is a parameter of a device: the name
  is split at each dot in turn, and the first device that is found with that parameter serves
  it. The context stack is a list with the current context first and the root context last;
  a context is its two lists of name and value pairs.

  The lemmas show that setting and reading agree, that a variable set or exported in an inner
  context is gone after leaving it, and the behaviour of names with dots through devices.
\<close>

section \<open>Contexts\<close>

type_synonym variables = "(string \<times> string) list"

record env_context =
  c_local :: variables
  c_global :: variables

record env =
  contexts :: "env_context list"
  devices :: "(string \<times> bobject) list"
  device_aliases :: "(string \<times> string) list"

definition empty_context :: env_context where
  "empty_context = \<lparr>c_local = [], c_global = []\<rparr>"

definition env_push_context :: "env \<Rightarrow> int \<times> env" where
  "env_push_context e = (0, e\<lparr>contexts := empty_context # contexts e\<rparr>)"

definition env_pop_context :: "env \<Rightarrow> int \<times> env" where
  "env_pop_context e =
     (case contexts e of
        c # parent # outer \<Rightarrow> (0, e\<lparr>contexts := parent # outer\<rparr>)
      | _ \<Rightarrow> (- EINVAL, e))"

fun getenv_raw :: "variables \<Rightarrow> string \<Rightarrow> string option" where
  "getenv_raw [] name = None"
| "getenv_raw ((n, v) # l) name = (if n = name then Some v else getenv_raw l name)"

fun setenv_raw :: "variables \<Rightarrow> string \<Rightarrow> string option \<Rightarrow> variables" where
  "setenv_raw [] name value = (case value of None \<Rightarrow> [] | Some v \<Rightarrow> [(name, v)])"
| "setenv_raw ((n, d) # l) name value =
     (if n = name then (case value of None \<Rightarrow> l | Some v \<Rightarrow> (n, v) # l)
      else (n, d) # setenv_raw l name value)"

section \<open>Devices\<close>

fun find_device :: "(string \<times> bobject) list \<Rightarrow> string \<Rightarrow> string option" where
  "find_device [] name = None"
| "find_device ((n, b) # ds) name = (if n = name then Some n else find_device ds name)"

definition get_device_by_name :: "env \<Rightarrow> string \<Rightarrow> string option" where
  "get_device_by_name e name =
     (case find_device (devices e) name of
        Some dev \<Rightarrow> Some dev
      | None \<Rightarrow> getenv_raw (device_aliases e) name)"

fun dev_params :: "(string \<times> bobject) list \<Rightarrow> string \<Rightarrow> bobject" where
  "dev_params [] dev = []"
| "dev_params ((n, b) # ds) dev = (if n = dev then b else dev_params ds dev)"

fun put_dev_params :: "(string \<times> bobject) list \<Rightarrow> string \<Rightarrow> bobject \<Rightarrow> (string \<times> bobject) list" where
  "put_dev_params [] dev b' = []"
| "put_dev_params ((n, b) # ds) dev b' =
     (if n = dev then (n, b') # ds else (n, b) # put_dev_params ds dev b')"

text \<open>
  The loops of \<^verbatim>\<open>dev_getenv\<close> and \<^verbatim>\<open>dev_setenv\<close> move \<open>pos\<close> past one dot after another; the
  device name is everything before the dot, the parameter name everything after it. The list
  of splits is what the loop tries, in its order.
\<close>

function dot_splits :: "string \<Rightarrow> nat \<Rightarrow> (string \<times> string) list" where
  "dot_splits name pos =
     (case strchr (drop pos name) (CHR ''.'') of
        None \<Rightarrow> []
      | Some i \<Rightarrow> (take (pos + i) name, drop (pos + i + 1) name) # dot_splits name (pos + i + 1))"
  by pat_completeness auto

termination
  by (relation "measure (\<lambda>(name, pos). length name - pos)") (auto dest: strchr_Some_length)

declare dot_splits.simps [simp del]

fun dev_getenv_loop :: "env \<Rightarrow> (string \<times> string) list \<Rightarrow> string option \<times> env" where
  "dev_getenv_loop e [] = (None, e)"
| "dev_getenv_loop e ((devname, varname) # splits) =
     (case get_device_by_name e devname of
        None \<Rightarrow> dev_getenv_loop e splits
      | Some dev \<Rightarrow>
          (case bobject_get_param (dev_params (devices e) dev) varname of (val, b) \<Rightarrow>
             (let e = e\<lparr>devices := put_dev_params (devices e) dev b\<rparr>
              in case val of None \<Rightarrow> dev_getenv_loop e splits | Some v \<Rightarrow> (Some v, e))))"

definition dev_getenv :: "env \<Rightarrow> string \<Rightarrow> string option \<times> env" where
  "dev_getenv e name = dev_getenv_loop e (dot_splits name 0)"

fun dev_setenv_loop :: "env \<Rightarrow> (string \<times> string) list \<Rightarrow> string option \<Rightarrow> int \<times> env" where
  "dev_setenv_loop e [] val = (- ENODEV, e)"
| "dev_setenv_loop e ((devname, varname) # splits) val =
     (case get_device_by_name e devname of
        None \<Rightarrow> dev_setenv_loop e splits val
      | Some dev \<Rightarrow>
          if get_param_by_name (dev_params (devices e) dev) varname \<noteq> None
          then (case bobject_set_param (dev_params (devices e) dev) varname val of (ret, b) \<Rightarrow>
                  (ret, e\<lparr>devices := put_dev_params (devices e) dev b\<rparr>))
          else dev_setenv_loop e splits val)"

definition dev_setenv :: "env \<Rightarrow> string \<Rightarrow> string option \<Rightarrow> int \<times> env" where
  "dev_setenv e name val = dev_setenv_loop e (dot_splits name 0) val"

section \<open>Reading and setting variables\<close>

fun getenv_global :: "env_context list \<Rightarrow> string \<Rightarrow> string option" where
  "getenv_global [] name = None"
| "getenv_global (c # cs) name =
     (case getenv_raw (c_global c) name of Some v \<Rightarrow> Some v | None \<Rightarrow> getenv_global cs name)"

definition getenv :: "env \<Rightarrow> string \<Rightarrow> string option \<times> env" where
  "getenv e name =
     (if strchr name (CHR ''.'') \<noteq> None then dev_getenv e name
      else (case contexts e of
              [] \<Rightarrow> (None, e)
            | c # cs \<Rightarrow>
                (case getenv_raw (c_local c) name of
                   Some v \<Rightarrow> (Some v, e)
                 | None \<Rightarrow> (getenv_global (c # cs) name, e))))"

definition setenv :: "env \<Rightarrow> string \<Rightarrow> string option \<Rightarrow> int \<times> env" where
  "setenv e name value =
     (if strchr name (CHR ''.'') \<noteq> None then dev_setenv e name value
      else (case contexts e of
              [] \<Rightarrow> (0, e)
            | c # cs \<Rightarrow>
                if getenv_raw (c_global c) name \<noteq> None
                then (0, e\<lparr>contexts := c\<lparr>c_global := setenv_raw (c_global c) name value\<rparr> # cs\<rparr>)
                else (0, e\<lparr>contexts := c\<lparr>c_local := setenv_raw (c_local c) name value\<rparr> # cs\<rparr>)))"

definition export_var :: "env \<Rightarrow> string \<Rightarrow> int \<times> env" where
  "export_var e varname =
     (case contexts e of
        [] \<Rightarrow> (0, e)
      | c # cs \<Rightarrow>
          (case getenv_raw (c_local c) varname of
             None \<Rightarrow> (0, e)
           | Some val \<Rightarrow>
               (0, e\<lparr>contexts := c\<lparr>c_global := setenv_raw (c_global c) varname (Some val),
                  c_local := setenv_raw (c_local c) varname None\<rparr> # cs\<rparr>)))"

definition export_env_ull :: "env \<Rightarrow> string \<Rightarrow> u64 \<Rightarrow> env" where
  "export_env_ull e name val =
     (let e = snd (setenv e name (Some (fmt_llu val))) in snd (export_var e name))"

fun getenv_raw_call :: "(string \<times> string \<Rightarrow> 'd \<Rightarrow> int \<times> 'd) \<Rightarrow> variables \<Rightarrow> 'd \<Rightarrow> int \<times> 'd" where
  "getenv_raw_call fn [] data = (0, data)"
| "getenv_raw_call fn (v # l) data =
     (case fn v data of (ret, data) \<Rightarrow> if ret \<noteq> 0 then (ret, data) else getenv_raw_call fn l data)"

fun envvar_for_each_global :: "(string \<times> string \<Rightarrow> 'd \<Rightarrow> int \<times> 'd) \<Rightarrow> env_context list \<Rightarrow> 'd \<Rightarrow> int \<times> 'd"
where
  "envvar_for_each_global fn [] data = (0, data)"
| "envvar_for_each_global fn (c # cs) data =
     (case getenv_raw_call fn (c_global c) data of (ret, data) \<Rightarrow>
        if ret \<noteq> 0 then (ret, data) else envvar_for_each_global fn cs data)"

definition envvar_for_each :: "(string \<times> string \<Rightarrow> 'd \<Rightarrow> int \<times> 'd) \<Rightarrow> env \<Rightarrow> 'd \<Rightarrow> int \<times> 'd" where
  "envvar_for_each fn e data =
     (case contexts e of
        [] \<Rightarrow> (0, data)
      | c # cs \<Rightarrow>
          (case getenv_raw_call fn (c_local c) data of (ret, data) \<Rightarrow>
             if ret \<noteq> 0 then (ret, data) else envvar_for_each_global fn (c # cs) data))"

definition getenv_nonempty :: "env \<Rightarrow> string \<Rightarrow> string option \<times> env" where
  "getenv_nonempty e var =
     (case getenv e var of (val, e) \<Rightarrow> (if val = Some [] then None else val, e))"

definition isempty :: "string option \<Rightarrow> bool" where
  "isempty s = (case s of None \<Rightarrow> True | Some t \<Rightarrow> t = [])"

definition getenv_ull_base :: "env \<Rightarrow> string \<Rightarrow> nat \<Rightarrow> int \<times> u64 option" where
  "getenv_ull_base e var base =
     (let valstr = fst (getenv e var)
      in if isempty valstr then (- EINVAL, None)
         else (0, Some (fst (simple_strtoull (the valstr) base))))"

definition getenv_ull :: "env \<Rightarrow> string \<Rightarrow> int \<times> u64 option" where
  "getenv_ull e var = getenv_ull_base e var 0"

definition getenv_ullx :: "env \<Rightarrow> string \<Rightarrow> int \<times> u64 option" where
  "getenv_ullx e var = getenv_ull_base e var 16"

definition getenv_ul :: "env \<Rightarrow> string \<Rightarrow> int \<times> u64 option" where
  "getenv_ul e var =
     (let valstr = fst (getenv e var)
      in if isempty valstr then (- EINVAL, None) else (0, Some (simple_strtoul (the valstr) 0)))"

definition getenv_uint :: "env \<Rightarrow> string \<Rightarrow> int \<times> u32 option" where
  "getenv_uint e var =
     (let valstr = fst (getenv e var)
      in if isempty valstr then (- EINVAL, None) else (0, Some (ucast (simple_strtoul (the valstr) 0))))"

definition getenv_bool :: "env \<Rightarrow> string \<Rightarrow> int \<times> bool option" where
  "getenv_bool e var = strtobool (fst (getenv e var))"

section \<open>Plain variables\<close>

definition variables_ok :: "variables \<Rightarrow> bool" where
  "variables_ok l = distinct (map fst l)"

definition context_ok :: "env_context \<Rightarrow> bool" where
  "context_ok c \<longleftrightarrow> variables_ok (c_local c) \<and> variables_ok (c_global c)
     \<and> fst ` set (c_local c) \<inter> fst ` set (c_global c) = {}"

definition env_ok :: "env \<Rightarrow> bool" where
  "env_ok e \<longleftrightarrow> contexts e \<noteq> [] \<and> (\<forall>c \<in> set (contexts e). context_ok c)"

definition plain :: "string \<Rightarrow> bool" where
  "plain name \<longleftrightarrow> CHR ''.'' \<notin> set name"

lemma getenv_raw_None: "getenv_raw l name = None \<longleftrightarrow> name \<notin> fst ` set l"
  by (induction l name rule: getenv_raw.induct) auto

lemma setenv_raw_names: "fst ` set (setenv_raw l name (Some v)) = insert name (fst ` set l)"
  by (induction l name "Some v" rule: setenv_raw.induct) auto

lemma setenv_raw_subset: "fst ` set (setenv_raw l name value) \<subseteq> insert name (fst ` set l)"
  by (induction l name "value" rule: setenv_raw.induct) (auto split: option.splits if_splits)

lemma variables_ok_setenv_raw: "variables_ok l \<Longrightarrow> variables_ok (setenv_raw l name value)"
proof (induction l name "value" rule: setenv_raw.induct)
  case (2 n d l name v)
  then show ?case using setenv_raw_subset [of l name v]
    by (cases v) (auto simp: variables_ok_def)
qed (simp add: variables_ok_def split: option.splits)

lemma getenv_setenv_raw:
  "getenv_raw (setenv_raw l name (Some v)) n = (if n = name then Some v else getenv_raw l n)"
  by (induction l name "Some v" rule: setenv_raw.induct) auto

lemma unsetenv_raw_names:
  "variables_ok l \<Longrightarrow> fst ` set (setenv_raw l name None) = fst ` set l - {name}"
  by (induction l name "None :: string option" rule: setenv_raw.induct) (auto simp: variables_ok_def)

lemma getenv_unsetenv_raw_other: "n \<noteq> name \<Longrightarrow> getenv_raw (setenv_raw l name None) n = getenv_raw l n"
  by (induction l name "None :: string option" rule: setenv_raw.induct) auto

lemma getenv_unsetenv_raw:
  "variables_ok l \<Longrightarrow> getenv_raw (setenv_raw l name None) n = (if n = name then None else getenv_raw l n)"
  by (simp add: getenv_unsetenv_raw_other getenv_raw_None unsetenv_raw_names)

lemma context_ok_local:
  "context_ok c \<Longrightarrow> getenv_raw (c_global c) name = None \<Longrightarrow>
   context_ok (c\<lparr>c_local := setenv_raw (c_local c) name value\<rparr>)"
  by (cases "value") (auto simp: context_ok_def variables_ok_setenv_raw setenv_raw_names
      unsetenv_raw_names getenv_raw_None)

lemma context_ok_global:
  "context_ok c \<Longrightarrow> getenv_raw (c_global c) name \<noteq> None \<Longrightarrow>
   context_ok (c\<lparr>c_global := setenv_raw (c_global c) name value\<rparr>)"
  by (cases "value") (auto simp: context_ok_def variables_ok_setenv_raw setenv_raw_names
      unsetenv_raw_names getenv_raw_None)

lemma context_ok_export:
  "context_ok c \<Longrightarrow>
   context_ok (c\<lparr>c_global := setenv_raw (c_global c) name (Some v),
     c_local := setenv_raw (c_local c) name None\<rparr>)"
  by (auto simp: context_ok_def variables_ok_setenv_raw setenv_raw_names unsetenv_raw_names)

lemma env_ok_contexts:
  assumes "env_ok e"
  obtains c cs where "contexts e = c # cs" "context_ok c" "\<forall>c \<in> set cs. context_ok c"
  using assms by (cases "contexts e") (auto simp: env_ok_def)

lemma plain_strchr [simp]: "plain name \<Longrightarrow> strchr name (CHR ''.'') = None"
  by (simp add: plain_def)

lemma setenv_env_ok: "env_ok e \<Longrightarrow> plain n \<Longrightarrow> env_ok (snd (setenv e n value))"
  by (erule env_ok_contexts) (auto simp: setenv_def env_ok_def context_ok_local context_ok_global)

lemma export_env_ok: "env_ok e \<Longrightarrow> env_ok (snd (export_var e n))"
  by (erule env_ok_contexts) (auto simp: export_var_def env_ok_def context_ok_export split: option.splits)

lemma push_env_ok: "env_ok e \<Longrightarrow> env_ok (snd (env_push_context e))"
  by (simp add: env_push_context_def env_ok_def empty_context_def context_ok_def variables_ok_def)

text \<open>C25. A variable reads back as it was set and no other variable changes: with the lists of
  each context free of duplicates and with no name both local and exported, which every
  operation keeps, \<^verbatim>\<open>setenv\<close> succeeds, \<^verbatim>\<open>getenv\<close> then returns the new text for that name and
  what it returned before for every other name, and unsetting a variable uncovers the value
  that an outer context exports.\<close>

theorem getenv_setenv:
  assumes "env_ok e" and "plain n" and "plain m"
  shows "fst (setenv e n value) = 0 \<and> env_ok (snd (setenv e n value))
    \<and> fst (getenv (snd (setenv e n value)) m)
      = (if m \<noteq> n then fst (getenv e m)
         else case value of Some v \<Rightarrow> Some v | None \<Rightarrow> getenv_global (tl (contexts e)) n)"
proof -
  obtain c cs where c: "contexts e = c # cs" "context_ok c"
    using assms(1) by (rule env_ok_contexts)
  then have ok: "variables_ok (c_local c)" "variables_ok (c_global c)"
    "fst ` set (c_local c) \<inter> fst ` set (c_global c) = {}" by (auto simp: context_ok_def)
  have "fst (getenv (snd (setenv e n value)) m)
      = (if m \<noteq> n then fst (getenv e m)
         else case value of Some v \<Rightarrow> Some v | None \<Rightarrow> getenv_global (tl (contexts e)) n)"
  proof (cases "getenv_raw (c_global c) n = None")
    case True
    then show ?thesis using assms c ok
      by (cases "value") (auto simp: getenv_def setenv_def getenv_setenv_raw getenv_unsetenv_raw split: option.splits)
  next
    case False
    then have "getenv_raw (c_local c) n = None" using ok(3) by (auto simp: getenv_raw_None)
    with False show ?thesis using assms c ok
      by (cases "value") (auto simp: getenv_def setenv_def getenv_setenv_raw getenv_unsetenv_raw split: option.splits)
  qed
  moreover have "fst (setenv e n value) = 0" using assms c by (simp add: setenv_def)
  ultimately show ?thesis using setenv_env_ok [OF assms(1,2)] by simp
qed

text \<open>The environment at startup: the root context, empty, and no devices.\<close>

definition root_env :: env where
  "root_env = \<lparr>contexts = [empty_context], devices = [], device_aliases = []\<rparr>"

theorem getenv_setenv_witness:
  "fst (getenv (snd (setenv root_env ''PS1'' (Some ''barebox> ''))) ''PS1'') = Some ''barebox> ''"
  using getenv_setenv [of root_env "''PS1''" "''PS1''" "Some ''barebox> ''"]
  by (simp add: root_env_def env_ok_def context_ok_def empty_context_def variables_ok_def plain_def)

section \<open>Scopes\<close>

text \<open>What a script may do to plain variables between entering and leaving a context: set,
  unset and export them, and run other scripts in contexts of their own.\<close>

inductive scoped :: "env \<Rightarrow> env \<Rightarrow> bool" where
  scoped_refl: "scoped e e"
| scoped_set: "scoped e e' \<Longrightarrow> plain n \<Longrightarrow> scoped e (snd (setenv e' n value))"
| scoped_export: "scoped e e' \<Longrightarrow> scoped e (snd (export_var e' n))"
| scoped_call: "scoped e e1 \<Longrightarrow> env_push_context e1 = (0, e2) \<Longrightarrow> scoped e2 e3 \<Longrightarrow>
    env_pop_context e3 = (0, e4) \<Longrightarrow> scoped e e4"

lemma setenv_frame:
  assumes "contexts e \<noteq> []" and "plain n"
  shows "\<exists>c. snd (setenv e n value) = e\<lparr>contexts := c # tl (contexts e)\<rparr>"
  using assms by (cases "contexts e") (auto simp: setenv_def)

lemma env_frame_refl: "contexts e \<noteq> [] \<Longrightarrow> \<exists>c. e = e\<lparr>contexts := c # tl (contexts e)\<rparr>"
  by (rule exI [of _ "hd (contexts e)"]) simp

lemma export_frame:
  assumes "contexts e \<noteq> []"
  shows "\<exists>c. snd (export_var e n) = e\<lparr>contexts := c # tl (contexts e)\<rparr>"
  using assms env_frame_refl [OF assms]
  by (cases "contexts e") (auto simp: export_var_def split: option.splits)

lemma scoped_frame:
  assumes "scoped e e'" and "contexts e \<noteq> []"
  shows "\<exists>c. e' = e\<lparr>contexts := c # tl (contexts e)\<rparr>"
  using assms
proof (induction rule: scoped.induct)
  case (scoped_refl e)
  then show ?case by (rule env_frame_refl)
next
  case (scoped_set e e' n v)
  then obtain c where "e' = e\<lparr>contexts := c # tl (contexts e)\<rparr>" by blast
  with setenv_frame [of e' n v] scoped_set.hyps show ?case by auto
next
  case (scoped_export e e' n)
  then obtain c where "e' = e\<lparr>contexts := c # tl (contexts e)\<rparr>" by blast
  with export_frame [of e' n] show ?case by auto
next
  case (scoped_call e e1 e2 e3 e4)
  then obtain c where c: "e1 = e\<lparr>contexts := c # tl (contexts e)\<rparr>" by blast
  have e2: "e2 = e1\<lparr>contexts := empty_context # contexts e1\<rparr>"
    using scoped_call.hyps(2) by (simp add: env_push_context_def)
  with scoped_call.IH(2) obtain d where "e3 = e2\<lparr>contexts := d # tl (contexts e2)\<rparr>" by auto
  with c e2 scoped_call.hyps(4) show ?case by (auto simp: env_pop_context_def)
qed

text \<open>C26. Contexts are scopes: whatever a script does to plain variables between
  \<^verbatim>\<open>env_push_context\<close> and \<^verbatim>\<open>env_pop_context\<close>, with nested scripts to any depth, leaving the
  context succeeds and gives back exactly the environment that was there before entering
  it.\<close>

theorem env_scope_restored:
  assumes "contexts e \<noteq> []" and "scoped (snd (env_push_context e)) e'"
  shows "env_pop_context e' = (0, e)"
proof -
  from scoped_frame [OF assms(2)] obtain c where
    c: "e' = (snd (env_push_context e))\<lparr>contexts := c # tl (contexts (snd (env_push_context e)))\<rparr>"
    by (auto simp: env_push_context_def)
  have "e = e\<lparr>contexts := contexts e\<rparr>" by simp
  with assms(1) show ?thesis
    by (cases "contexts e") (auto simp: c env_push_context_def env_pop_context_def)
qed

theorem env_scope_restored_witness:
  "env_pop_context (snd (export_var (snd (setenv (snd (env_push_context root_env)) ''x'' (Some ''1''))) ''x''))
     = (0, root_env)"
  by (rule env_scope_restored)
    (auto simp: root_env_def plain_def intro!: scoped_refl scoped_set scoped_export)

section \<open>Parameters as variables\<close>

fun dev_resolve :: "env \<Rightarrow> (string \<times> string) list \<Rightarrow> (string \<times> string) option" where
  "dev_resolve e [] = None"
| "dev_resolve e ((devname, varname) # splits) =
     (case get_device_by_name e devname of
        None \<Rightarrow> dev_resolve e splits
      | Some dev \<Rightarrow>
          if get_param_by_name (dev_params (devices e) dev) varname \<noteq> None then Some (dev, varname)
          else dev_resolve e splits)"

text \<open>A parameter that keeps what is written to it: writable, without notifiers, and either an
  untyped string or an unsigned 32-bit number printed in decimal.\<close>

definition stores_number :: "param_d \<Rightarrow> bool" where
  "stores_number p \<longleftrightarrow> \<not> p_flag_ro p \<and> p_set p = None \<and> p_get p = None
     \<and> ((\<exists>v. p_data p = Generic_data v)
        \<or> p_type p = PARAM_TYPE_UINT32 \<and> (\<exists>v. p_data p = Int_data v Fmt_u))"

definition dev_lookup :: "env \<Rightarrow> string \<Rightarrow> param_d option" where
  "dev_lookup e name =
     (case dev_resolve e (dot_splits name 0) of
        None \<Rightarrow> None
      | Some (dev, var) \<Rightarrow> get_param_by_name (dev_params (devices e) dev) var)"

definition number_var :: "env \<Rightarrow> string \<Rightarrow> bool" where
  "number_var e name \<longleftrightarrow> (case dev_lookup e name of None \<Rightarrow> False | Some p \<Rightarrow> stores_number p)"

subsection \<open>Finding the parameter of a name\<close>

lemma put_dev_params_same [simp]: "put_dev_params ds dev (dev_params ds dev) = ds"
  by (induction ds dev rule: dev_params.induct) auto

lemma find_device_put [simp]: "find_device (put_dev_params ds dev b) name = find_device ds name"
  by (induction ds dev b rule: put_dev_params.induct) auto

lemma find_device_name: "find_device ds name = Some dev \<Longrightarrow> dev = name"
  by (induction ds name rule: find_device.induct) (auto split: if_splits)

lemma dev_params_put:
  "dev_params (put_dev_params ds dev b) d
     = (if d = dev \<and> find_device ds dev \<noteq> None then b else dev_params ds d)"
  by (induction ds dev b rule: put_dev_params.induct) auto

lemma put_param_same: "get_param_by_name ps name = Some p \<Longrightarrow> put_param ps name p = ps"
  by (induction ps) (auto split: if_splits)

lemma dot_splits_join: "(devname, var) \<in> set (dot_splits name pos) \<Longrightarrow> name = devname @ ''.'' @ var"
proof (induction name pos rule: dot_splits.induct)
  case (1 name pos)
  show ?case
  proof (cases "strchr (drop pos name) (CHR ''.'')")
    case None
    with 1(2) show ?thesis by (simp add: dot_splits.simps [of name pos])
  next
    case (Some i)
    then have i: "i < length (drop pos name)" by (rule strchr_Some_length)
    from Some have "i = length (takeWhile (\<lambda>x. x \<noteq> CHR ''.'') (drop pos name))"
      by (simp add: strchr_def split: if_splits)
    then have dot: "name ! (pos + i) = CHR ''.''"
      using i nth_length_takeWhile [of "\<lambda>x. x \<noteq> CHR ''.''" "drop pos name"] by simp
    from i have "pos + i < length name" by simp
    from id_take_nth_drop [OF this, symmetric] have here: "take (pos + i) name @ ''.'' @ drop (pos + i + 1) name = name"
      by (simp add: dot)
    from 1(2) Some have "(devname, var) = (take (pos + i) name, drop (pos + i + 1) name)
        \<or> (devname, var) \<in> set (dot_splits name (pos + i + 1))"
      by (simp add: dot_splits.simps [of name pos])
    then show ?thesis using here 1(1) [OF Some] by (elim disjE) (simp, blast)
  qed
qed

lemma dot_splits_plain: "plain name \<Longrightarrow> dot_splits name 0 = []"
  by (simp add: dot_splits.simps [of name 0])

lemma dev_resolve_in:
  "device_aliases e = [] \<Longrightarrow> dev_resolve e splits = Some (dev, var) \<Longrightarrow>
   (dev, var) \<in> set splits \<and> find_device (devices e) dev = Some dev"
  by (induction e splits rule: dev_resolve.induct)
    (auto simp: get_device_by_name_def split: option.splits if_splits dest: find_device_name)

lemma dev_resolve_name:
  assumes "device_aliases e = []" and "dev_resolve e (dot_splits name 0) = Some (dev, var)"
  shows "name = dev @ ''.'' @ var" and "find_device (devices e) dev = Some dev"
  using dev_resolve_in [OF assms] dot_splits_join by auto

lemma dev_resolve_param:
  "dev_resolve e splits = Some (dev, var) \<Longrightarrow> get_param_by_name (dev_params (devices e) dev) var \<noteq> None"
  by (induction e splits rule: dev_resolve.induct) (auto split: option.splits if_splits)

lemma dev_lookup_None_param:
  "dev_lookup e name = None \<longleftrightarrow> dev_resolve e (dot_splits name 0) = None"
  using dev_resolve_param by (fastforce simp: dev_lookup_def split: option.splits)

lemma dev_getenv_loop_None: "dev_resolve e splits = None \<Longrightarrow> dev_getenv_loop e splits = (None, e)"
  by (induction e splits rule: dev_resolve.induct)
    (auto simp: bobject_get_param_def split: option.splits if_splits)

text \<open>Such a parameter has a text, and reading it has no effect.\<close>

definition shown_text :: "param_d \<Rightarrow> string option" where
  "shown_text p = fst (param_get p)"

lemma param_get_quiet: "stores_number p \<Longrightarrow> param_get p = (shown_text p, p) \<and> shown_text p \<noteq> None"
  by (auto simp: stores_number_def shown_text_def param_get_defs split: option.splits)

lemma dev_getenv_loop_Some:
  "dev_resolve e splits = Some (dev, var) \<Longrightarrow>
   get_param_by_name (dev_params (devices e) dev) var = Some p \<Longrightarrow> stores_number p \<Longrightarrow>
   dev_getenv_loop e splits = (shown_text p, e)"
proof (induction e splits rule: dev_resolve.induct)
  case (2 e devname varname splits)
  show ?case
  proof (cases "get_device_by_name e devname")
    case None
    with 2 show ?thesis by simp
  next
    case (Some d)
    show ?thesis
    proof (cases "get_param_by_name (dev_params (devices e) d) varname")
      case None
      with 2 Some show ?thesis by (simp add: bobject_get_param_def)
    next
      case found: (Some q)
      with 2 Some have "d = dev" "varname = var" "q = p" by auto
      with Some found param_get_quiet [OF 2(5)] show ?thesis
        by (auto simp: bobject_get_param_def put_param_same)
    qed
  qed
qed simp

lemma dev_setenv_loop_Some:
  "dev_resolve e splits = Some (dev, var) \<Longrightarrow>
   dev_setenv_loop e splits val
     = (case bobject_set_param (dev_params (devices e) dev) var val of (ret, b) \<Rightarrow>
          (ret, e\<lparr>devices := put_dev_params (devices e) dev b\<rparr>))"
  by (induction e splits rule: dev_resolve.induct) (auto split: option.splits if_splits)

lemma dev_resolve_frame:
  assumes "\<And>dev n. (get_param_by_name (dev_params (devices e') dev) n = None)
      = (get_param_by_name (dev_params (devices e) dev) n = None)"
    and "\<And>name. get_device_by_name e' name = get_device_by_name e name"
  shows "dev_resolve e' splits = dev_resolve e splits"
  using assms by (induction e splits rule: dev_resolve.induct) (auto split: option.splits)

lemma strchr_dotted: "dev_resolve e (dot_splits name 0) = Some r \<Longrightarrow> strchr name (CHR ''.'') \<noteq> None"
  using dot_splits.simps [of name 0] by (cases "strchr name (CHR ''.'')") auto

lemma getenv_number_var:
  assumes "dev_lookup e name = Some p" and "stores_number p"
  shows "getenv e name = (shown_text p, e)"
proof -
  from assms(1) obtain dev var where r: "dev_resolve e (dot_splits name 0) = Some (dev, var)"
    "get_param_by_name (dev_params (devices e) dev) var = Some p"
    by (auto simp: dev_lookup_def split: option.splits)
  with strchr_dotted [OF r(1)] dev_getenv_loop_Some [OF r assms(2)] show ?thesis
    by (simp add: getenv_def dev_getenv_def)
qed

text \<open>Assigning a parameter through its name changes that parameter only.\<close>

lemma setenv_number_var:
  assumes "device_aliases e = []" and "dev_lookup e name = Some p" and "\<not> p_flag_ro p"
    and "setenv e name (Some v) = (ret, e')"
  shows "ret = fst (param_set p (Some v))" and "device_aliases e' = []" and "contexts e' = contexts e"
    and "dev_lookup e' n = (if n = name then Some (snd (param_set p (Some v))) else dev_lookup e n)"
proof -
  from assms(2) obtain dev var where r: "dev_resolve e (dot_splits name 0) = Some (dev, var)"
    and p: "get_param_by_name (dev_params (devices e) dev) var = Some p"
    by (auto simp: dev_lookup_def split: option.splits)
  obtain ret' b where set: "bobject_set_param (dev_params (devices e) dev) var (Some v) = (ret', b)"
    by fastforce
  note spec = bobject_set_param_spec [OF set]
  have e': "e' = e\<lparr>devices := put_dev_params (devices e) dev b\<rparr>" and "ret = ret'"
    using assms(4) strchr_dotted [OF r] dev_setenv_loop_Some [OF r, of "Some v"] set
    by (auto simp: setenv_def dev_setenv_def)
  with spec(3) [OF p assms(3)] assms(1) show "ret = fst (param_set p (Some v))"
    and "device_aliases e' = []" and "contexts e' = contexts e" by auto
  have found: "find_device (devices e) dev = Some dev" using dev_resolve_name [OF assms(1) r] by simp
  have params: "dev_params (devices e') d = (if d = dev then b else dev_params (devices e) d)" for d
    by (simp add: e' dev_params_put found)
  have same_None: "(get_param_by_name (dev_params (devices e') d) n = None)
      = (get_param_by_name (dev_params (devices e) d) n = None)" for d n
    using spec(1) by (simp add: params get_param_by_name_None) (metis image_set list.set_map)
  have resolve: "dev_resolve e' splits = dev_resolve e splits" for splits
    by (rule dev_resolve_frame [OF same_None]) (simp add: e' get_device_by_name_def split: option.split)
  show "dev_lookup e' n = (if n = name then Some (snd (param_set p (Some v))) else dev_lookup e n)"
  proof (cases "dev_resolve e (dot_splits n 0)")
    case None
    with r show ?thesis by (auto simp: dev_lookup_def resolve)
  next
    case (Some q)
    obtain d x where q: "q = (d, x)" by fastforce
    show ?thesis
    proof (cases "n = name")
      case True
      with r spec(3) [OF p assms(3)] show ?thesis by (simp add: dev_lookup_def resolve params)
    next
      case False
      then have "(d, x) \<noteq> (dev, var)"
        using dev_resolve_name(1) [OF assms(1) r] dev_resolve_name(1) [OF assms(1), of n d x] Some q
        by auto
      with False Some q spec(2) show ?thesis by (auto simp: dev_lookup_def resolve params)
    qed
  qed
qed

section \<open>The store of numeric variables\<close>

text \<open>
  What the clients of the environment rely on when they keep numbers in it: a number written
  in decimal to a variable of the store reads back as a text with that value, all variables
  stay in the store, and no other readable name changes. \<open>readable\<close> names the variables whose
  reading has no effect.
\<close>

locale var_store =
  fixes get_var :: "'s \<Rightarrow> string \<Rightarrow> string option"
    and put_var :: "'s \<Rightarrow> string \<Rightarrow> string \<Rightarrow> int \<times> 's"
    and store_ok :: "'s \<Rightarrow> bool"
    and number_in :: "'s \<Rightarrow> string \<Rightarrow> bool"
    and readable :: "'s \<Rightarrow> string \<Rightarrow> bool"
  assumes put_ret: "store_ok s \<Longrightarrow> number_in s n \<Longrightarrow> fst (put_var s n (number k)) = 0"
    and put_ok: "store_ok s \<Longrightarrow> number_in s n \<Longrightarrow> store_ok (snd (put_var s n (number k)))"
    and put_number_in: "store_ok s \<Longrightarrow> number_in s n \<Longrightarrow>
      number_in (snd (put_var s n (number k))) m = number_in s m"
    and put_readable: "store_ok s \<Longrightarrow> number_in s n \<Longrightarrow>
      readable (snd (put_var s n (number k))) m = readable s m"
    and put_get: "store_ok s \<Longrightarrow> number_in s n \<Longrightarrow> k < 2 ^ 32 \<Longrightarrow>
      \<exists>t. get_var (snd (put_var s n (number k))) n = Some t \<and> t \<noteq> [] \<and> simple_strtoul t 0 = of_nat k"
    and put_other: "store_ok s \<Longrightarrow> number_in s n \<Longrightarrow> readable s m \<Longrightarrow> m \<noteq> n \<Longrightarrow>
      get_var (snd (put_var s n (number k))) m = get_var s m"
    and number_readable: "number_in s n \<Longrightarrow> readable s n"

definition env_get :: "env \<Rightarrow> string \<Rightarrow> string option" where
  "env_get e name = fst (getenv e name)"

definition env_put :: "env \<Rightarrow> string \<Rightarrow> string \<Rightarrow> int \<times> env" where
  "env_put e name val = setenv e name (Some val)"

definition env_store_ok :: "env \<Rightarrow> bool" where
  "env_store_ok e \<longleftrightarrow> device_aliases e = []"

definition env_readable :: "env \<Rightarrow> string \<Rightarrow> bool" where
  "env_readable e name \<longleftrightarrow> plain name \<or> dev_lookup e name = None \<or> number_var e name"

lemma stores_number_set:
  assumes "stores_number p"
  obtains p' t where "param_set p (Some v) = (0, p')" and "stores_number p'"
    and "shown_text p' = Some t"
    and "\<And>k. v = number k \<Longrightarrow> k < 2 ^ 32 \<Longrightarrow> t = number k"
proof -
  show thesis
  proof (cases "\<exists>w. p_data p = Generic_data w")
    case True
    with assms show thesis
      by (intro that [of "p\<lparr>p_data := Generic_data (Some v)\<rparr>" v])
        (auto simp: stores_number_def param_set_def bobject_param_set_generic_def shown_text_def param_get_defs)
  next
    case False
    define w where "w = low32 (simple_strtoul v 0)"
    have num: "number (unat (ucast w :: u32)) = number k" if "v = number k" "k < 2 ^ 32" for k
    proof -
      have "ucast w = (of_nat k :: u32)"
        using that by (simp add: w_def low32_def simple_strtoul_number unsigned_of_nat take_bit_nat_eq_self)
      then show ?thesis using that by (simp add: unat_of_nat take_bit_nat_eq_self)
    qed
    from False assms show thesis
      by (intro that [of "p\<lparr>p_data := Int_data w Fmt_u\<rparr>" "fmt_u (ucast w)"])
        (auto simp: stores_number_def param_set_def param_int_set_def param_notify_def shown_text_def param_get_defs
          print_int_def w_def [symmetric] fmt_u_def num)
  qed
qed

lemma env_put_number:
  assumes "env_store_ok e" and "number_var e n"
  obtains p p' t where "dev_lookup e n = Some p" and "env_put e n v = (0, snd (env_put e n v))"
    and "env_store_ok (snd (env_put e n v))" and "contexts (snd (env_put e n v)) = contexts e"
    and "\<And>m. dev_lookup (snd (env_put e n v)) m = (if m = n then Some p' else dev_lookup e m)"
    and "stores_number p'" and "shown_text p' = Some t"
    and "\<And>k. v = number k \<Longrightarrow> k < 2 ^ 32 \<Longrightarrow> t = number k"
proof -
  from assms obtain p where p: "dev_lookup e n = Some p" "stores_number p" "device_aliases e = []"
    by (auto simp: number_var_def env_store_ok_def split: option.splits)
  obtain ret e' where e': "setenv e n (Some v) = (ret, e')" by fastforce
  have ro: "\<not> p_flag_ro p" using p(2) by (simp add: stores_number_def)
  note set = setenv_number_var [OF p(3,1) ro e']
  obtain p' t where "param_set p (Some v) = (0, p')" "stores_number p'"
    "shown_text p' = Some t" "\<And>k. v = number k \<Longrightarrow> k < 2 ^ 32 \<Longrightarrow> t = number k"
    using stores_number_set [OF p(2), of v] by blast
  with p set e' show thesis
    by (intro that [of p p' t]) (auto simp: env_put_def env_store_ok_def)
qed

lemma getenv_plain: "plain name \<Longrightarrow> contexts e' = contexts e \<Longrightarrow> fst (getenv e' name) = fst (getenv e name)"
  by (auto simp: getenv_def split: list.splits option.splits)

lemma getenv_dotted_None:
  "dev_lookup e name = None \<Longrightarrow> \<not> plain name \<Longrightarrow> fst (getenv e name) = None"
  by (simp add: dev_lookup_None_param getenv_def dev_getenv_def dev_getenv_loop_None strchr_def plain_def)

lemma number_not_empty [simp]: "number k \<noteq> []"
  by (simp add: number_def)

interpretation env_vars: var_store env_get env_put env_store_ok number_var env_readable
proof
  fix e :: env and n m :: string and k :: nat
  show "number_var e n \<Longrightarrow> env_readable e n" by (simp add: env_readable_def)
  assume ok: "env_store_ok e" and num: "number_var e n"
  obtain p p' t where put: "dev_lookup e n = Some p" "env_put e n (number k) = (0, snd (env_put e n (number k)))"
    "env_store_ok (snd (env_put e n (number k)))"  "contexts (snd (env_put e n (number k))) = contexts e"
    and look: "\<And>m. dev_lookup (snd (env_put e n (number k))) m = (if m = n then Some p' else dev_lookup e m)"
    and p': "stores_number p'" "shown_text p' = Some t"
    and t: "\<And>j. number k = number j \<Longrightarrow> j < 2 ^ 32 \<Longrightarrow> t = number j"
    using env_put_number [OF ok num, of "number k"] by metis
  show "fst (env_put e n (number k)) = 0" by (metis fst_conv put(2))
  show "env_store_ok (snd (env_put e n (number k)))" by (rule put(3))
  show in_same: "number_var (snd (env_put e n (number k))) m = number_var e m" for m
    using num p'(1) by (auto simp: number_var_def look put(1))
  show "env_readable (snd (env_put e n (number k))) m = env_readable e m"
    using in_same look put(1) num by (auto simp: env_readable_def)
  show "\<exists>t. env_get (snd (env_put e n (number k))) n = Some t \<and> t \<noteq> []
      \<and> simple_strtoul t 0 = of_nat k" if "k < 2 ^ 32"
    using getenv_number_var [OF _ p'(1), of "snd (env_put e n (number k))" n] look p'(2) t [OF refl that]
    by (simp add: env_get_def simple_strtoul_number)
  show "env_get (snd (env_put e n (number k))) m = env_get e m" if r: "env_readable e m" and ne: "m \<noteq> n"
  proof -
    consider "plain m" | "\<not> plain m" "dev_lookup e m = None"
      | q where "dev_lookup e m = Some q" "stores_number q"
      using r by (auto simp: env_readable_def number_var_def split: option.splits)
    then show ?thesis
    proof cases
      case 1
      then show ?thesis unfolding env_get_def using put(4) by (rule getenv_plain)
    next
      case 2
      then show ?thesis using ne look [of m] by (simp add: env_get_def getenv_dotted_None)
    next
      case (3 q)
      then show ?thesis using ne look [of m] by (simp add: env_get_def getenv_number_var)
    qed
  qed
qed

end
