(* ===== verification/Bootchooser.thy ===== *)
theory Bootchooser
  imports Env "HOL-Library.Monad_Syntax"
begin

text \<open>
  The boot chooser (\<^verbatim>\<open>common/bootchooser.c\<close>): redundant boot targets with a priority and a
  counter of remaining attempts, kept in state or nv variables. Choosing takes the first
  usable target of a list sorted by descending priority, counts its attempts down, and saves
  the counters before booting it.

  The code the chooser calls is a record of operations on an abstract machine state: reading
  and setting variables, saving the backend, and booting a target. Targets are the records of
  the source; \<open>last_chosen\<close>, a pointer to a target of the list there, is the target's id here,
  which is unique in the list. The lemmas show that the choice refines an abstract
  specification of the policy, that the counters bound the number of attempts, that the retry
  loop ends and finds a bootable target, and that saved counters are read back.
\<close>

section \<open>Data\<close>

record bootchooser_target =
  priority :: u32
  remaining_attempts :: u32
  t_id :: nat
  t_name :: string
  default_attempts :: u32
  default_priority :: u32
  t_boot :: string
  t_prefix :: string
  t_state_prefix :: string

record bootchooser =
  targets :: "bootchooser_target list"
  last_chosen :: "nat option"
  has_state :: bool
  bc_state_prefix :: string
  refs :: nat
  bc_attempts_locked :: bool

datatype reset_src_type = RESET_UKWN | RESET_POR | RESET_RST | RESET_WDG | RESET_WKE | RESET_JTAG
  | RESET_THERM | RESET_EXT | RESET_BROWNOUT

text \<open>The static variables of the file; the configuration among them are global variables of
  the user. \<open>the_bootchooser\<close> is the single instance.\<close>

record bc_globals =
  available_targets :: string
  state_prefix :: string
  global_default_attempts :: u32
  global_default_priority :: u32
  disable_on_zero_attempts :: bool
  retry :: bool
  last_boot_successful :: bool
  attempts_locked :: bool
  reset_attempts :: u64
  reset_priorities :: u64
  attempts_resetted :: bool
  the_bootchooser :: "bootchooser option"

record ('s, 'e) bc_ops =
  op_getenv :: "'s \<Rightarrow> string \<Rightarrow> string option"
  op_setenv :: "'s \<Rightarrow> string \<Rightarrow> string \<Rightarrow> int \<times> 's"
  op_nvvar_add :: "'s \<Rightarrow> string \<Rightarrow> string \<Rightarrow> int \<times> 's"
  op_state_save :: "'s \<Rightarrow> int \<times> 's"
  op_nvvar_save :: "'s \<Rightarrow> int \<times> 's"
  op_state_by_name :: "'s \<Rightarrow> string \<Rightarrow> bool"
  op_cfg_state :: bool
  op_reset_source :: reset_src_type
  op_bootargs :: "'s \<Rightarrow> string option \<Rightarrow> 's"
  op_bootentry_create :: "'s \<Rightarrow> string \<Rightarrow> int \<times> 'e list \<times> 's"
  op_boot_entry :: "'s \<Rightarrow> 'e \<Rightarrow> int \<times> 's"

abbreviation (input) RESET_ATTEMPTS_POWER_ON :: nat where "RESET_ATTEMPTS_POWER_ON \<equiv> 0"
abbreviation (input) RESET_ATTEMPTS_ALL_ZERO :: nat where "RESET_ATTEMPTS_ALL_ZERO \<equiv> 1"
abbreviation (input) RESET_ATTEMPTS_SRC_RST :: nat where "RESET_ATTEMPTS_SRC_RST \<equiv> 2"
abbreviation (input) RESET_PRIORITIES_ALL_ZERO :: nat where "RESET_PRIORITIES_ALL_ZERO \<equiv> 0"

definition BOOTCHOOSER_PREFIX :: string where
  "BOOTCHOOSER_PREFIX = ''global.bootchooser''"

section \<open>Targets and their variables\<close>

definition bootchooser_target_ok :: "bootchooser_target \<Rightarrow> bool" where
  "bootchooser_target_ok target =
     (if priority target = 0 then False
      else if remaining_attempts target = 0 then False
      else True)"

definition bc_setenv :: "('s, 'e) bc_ops \<Rightarrow> bootchooser \<Rightarrow> 's \<Rightarrow> string \<Rightarrow> int \<times> 's" where
  "bc_setenv ops bc s str =
     (case parse_assignment str of
        None \<Rightarrow> (- EINVAL, s)
      | Some (name, val) \<Rightarrow>
          (let oldval = op_getenv ops s name
           in if oldval = None \<or> oldval \<noteq> Some val
              then (if has_state bc then op_setenv ops s name val else op_nvvar_add ops s name val)
              else (0, s)))"

definition getenv_u32 :: "('s, 'e) bc_ops \<Rightarrow> 's \<Rightarrow> string \<Rightarrow> string \<Rightarrow> u32 option" where
  "getenv_u32 ops s pfx name =
     (case op_getenv ops s (pfx @ ''.'' @ name) of
        None \<Rightarrow> None
      | Some val \<Rightarrow> Some (ucast (simple_strtoul val 0)))"

definition bootchooser_target_compare :: "bootchooser_target \<Rightarrow> bootchooser_target \<Rightarrow> int" where
  "bootchooser_target_compare a b = (if priority b \<le> priority a then - 1 else 1)"

definition bootchooser_target_new ::
  "('s, 'e) bc_ops \<Rightarrow> bc_globals \<Rightarrow> bootchooser \<Rightarrow> 's \<Rightarrow> string \<Rightarrow> bootchooser_target" where
  "bootchooser_target_new ops g bc s name =
     (let pfx = BOOTCHOOSER_PREFIX @ ''.'' @ name;
          st_prefix = bc_state_prefix bc @ ''.'' @ name;
          def_priority = (case getenv_u32 ops s pfx ''default_priority'' of
            None \<Rightarrow> global_default_priority g | Some v \<Rightarrow> v);
          def_attempts = (case getenv_u32 ops s pfx ''default_attempts'' of
            None \<Rightarrow> global_default_attempts g | Some v \<Rightarrow> v);
          prio = (case getenv_u32 ops s st_prefix ''priority'' of
            None \<Rightarrow> def_priority | Some v \<Rightarrow> v);
          attempts = (case getenv_u32 ops s st_prefix ''remaining_attempts'' of
            None \<Rightarrow> def_attempts | Some v \<Rightarrow> v);
          attempts = (if attempts \<noteq> 0 \<and> prio = 0 then 0 else attempts);
          val = (case op_getenv ops s (pfx @ ''.boot'') of None \<Rightarrow> name | Some v \<Rightarrow> v)
      in \<lparr>priority = prio, remaining_attempts = attempts, t_id = 0, t_name = name,
          default_attempts = def_attempts, default_priority = def_priority, t_boot = val,
          t_prefix = pfx, t_state_prefix = st_prefix\<rparr>)"

definition bootchooser_target_by_id :: "bootchooser \<Rightarrow> u32 \<Rightarrow> bootchooser_target option" where
  "bootchooser_target_by_id bc i = find (\<lambda>t. t_id t = unat i) (targets bc)"

definition bootchooser_target_by_name :: "bootchooser \<Rightarrow> string \<Rightarrow> bootchooser_target option" where
  "bootchooser_target_by_name bc name = find (\<lambda>t. t_name t = name) (targets bc)"

definition bootchooser_target_disable :: "bootchooser_target \<Rightarrow> bootchooser_target" where
  "bootchooser_target_disable target = target\<lparr>priority := 0, remaining_attempts := 0\<rparr>"

definition bootchooser_target_enabled :: "bootchooser_target \<Rightarrow> bool" where
  "bootchooser_target_enabled target \<longleftrightarrow> priority target \<noteq> 0"

definition bootchooser_target_set_attempts :: "bootchooser_target \<Rightarrow> int \<Rightarrow> bootchooser_target" where
  "bootchooser_target_set_attempts target attempts =
     (if 0 \<le> attempts then target\<lparr>remaining_attempts := of_int attempts\<rparr>
      else target\<lparr>remaining_attempts := default_attempts target\<rparr>)"

definition bootchooser_target_set_priority :: "bootchooser_target \<Rightarrow> int \<Rightarrow> bootchooser_target" where
  "bootchooser_target_set_priority target prio =
     (if 0 \<le> prio then target\<lparr>priority := of_int prio\<rparr>
      else target\<lparr>priority := default_priority target\<rparr>)"

definition bootchooser_reset_attempts :: "bootchooser \<Rightarrow> bootchooser" where
  "bootchooser_reset_attempts bc =
     bc\<lparr>targets := map (\<lambda>t. if bootchooser_target_enabled t
        then bootchooser_target_set_attempts t (- 1) else t) (targets bc)\<rparr>"

definition bootchooser_reset_priorities :: "bootchooser \<Rightarrow> bootchooser" where
  "bootchooser_reset_priorities bc =
     bc\<lparr>targets := map (\<lambda>t. bootchooser_target_set_priority t (- 1)) (targets bc)\<rparr>"

section \<open>Setting up the chooser\<close>

text \<open>The loop over \<open>global.bootchooser.targets\<close>; ids count from 1 in the order of the list,
  and an empty word ends it.\<close>

function bc_add_targets ::
  "('s, 'e) bc_ops \<Rightarrow> bc_globals \<Rightarrow> 's \<Rightarrow> string option \<Rightarrow> nat \<Rightarrow> bootchooser \<Rightarrow> nat \<times> bootchooser" where
  "bc_add_targets ops g s rest i bc =
     (case strsep rest (CHR '' '') of (str, rest') \<Rightarrow>
        (case str of
           None \<Rightarrow> (i, bc)
         | Some str \<Rightarrow>
             if str = [] then (i, bc)
             else (let target = (bootchooser_target_new ops g bc s str)\<lparr>t_id := i\<rparr>
                   in bc_add_targets ops g s rest' (i + 1)
                        (bc\<lparr>targets := list_add_sort target (targets bc) bootchooser_target_compare\<rparr>))))"
  by pat_completeness auto

termination
proof (relation "measure (\<lambda>(ops, g, s, rest, i, bc). case rest of None \<Rightarrow> 0 | Some t \<Rightarrow> Suc (length t))", goal_cases)
  case (2 ops g s rest i bc x y z w)
  then obtain t where t: "rest = Some t" by (cases rest) (auto simp: strsep_def)
  with 2(1) [symmetric] show ?case by (cases y) (auto dest: strsep_shorter)
qed simp

declare bc_add_targets.simps [simp del]

text \<open>The configured resets, in the order of the code. The sums are kept in 32-bit integers.\<close>

definition bc_priorities_reset :: "bc_globals \<Rightarrow> bootchooser \<Rightarrow> bootchooser" where
  "bc_priorities_reset g bc =
     (if bit (reset_priorities g) RESET_PRIORITIES_ALL_ZERO
         \<and> sum_list (map priority (targets bc)) = 0
      then bootchooser_reset_priorities bc else bc)"

definition bc_attempts_reset ::
  "('s, 'e) bc_ops \<Rightarrow> bc_globals \<Rightarrow> bootchooser \<Rightarrow> bc_globals \<times> bootchooser" where
  "bc_attempts_reset ops g bc =
     (let (g, bc) =
        (if bit (reset_attempts g) RESET_ATTEMPTS_POWER_ON \<and> op_reset_source ops = RESET_POR
            \<and> \<not> attempts_resetted g
         then (g\<lparr>attempts_resetted := True\<rparr>, bootchooser_reset_attempts bc) else (g, bc));
          (g, bc) =
        (if bit (reset_attempts g) RESET_ATTEMPTS_SRC_RST \<and> op_reset_source ops = RESET_RST
            \<and> \<not> attempts_resetted g
         then (g\<lparr>attempts_resetted := True\<rparr>, bootchooser_reset_attempts bc) else (g, bc))
      in (g, if bit (reset_attempts g) RESET_ATTEMPTS_ALL_ZERO
                \<and> sum_list (map remaining_attempts (targets bc)) = 0
             then bootchooser_reset_attempts bc else bc))"

definition bc_find_last_chosen :: "('s, 'e) bc_ops \<Rightarrow> 's \<Rightarrow> bootchooser \<Rightarrow> bootchooser" where
  "bc_find_last_chosen ops s bc =
     (case getenv_u32 ops s (bc_state_prefix bc) ''last_chosen'' of
        Some i \<Rightarrow>
          if 0 < i then bc\<lparr>last_chosen := map_option t_id (bootchooser_target_by_id bc i)\<rparr> else bc
      | None \<Rightarrow> bc)"

definition bc_mark_successful :: "bc_globals \<Rightarrow> bootchooser \<Rightarrow> bootchooser" where
  "bc_mark_successful g bc =
     (case last_chosen bc of
        None \<Rightarrow> bc
      | Some i \<Rightarrow>
          if last_boot_successful g
          then bc\<lparr>targets := map (\<lambda>t. if t_id t = i then bootchooser_target_set_attempts t (- 1) else t)
                 (targets bc)\<rparr>
          else bc)"

definition bc_disable_on_zero :: "bc_globals \<Rightarrow> bootchooser \<Rightarrow> bootchooser" where
  "bc_disable_on_zero g bc =
     (if disable_on_zero_attempts g
      then bc\<lparr>targets := map (\<lambda>t. if remaining_attempts t = 0 then bootchooser_target_disable t else t)
             (targets bc)\<rparr>
      else bc)"

definition bc_open_state :: "('s, 'e) bc_ops \<Rightarrow> bc_globals \<Rightarrow> 's \<Rightarrow> int + bootchooser" where
  "bc_open_state ops g s =
     (let bc = \<lparr>targets = [], last_chosen = None, has_state = False, bc_state_prefix = [],
                refs = 0, bc_attempts_locked = False\<rparr>
      in if state_prefix g \<noteq> [] then
           (if op_cfg_state ops then
              (let state_devname =
                 (case strchr (state_prefix g) (CHR ''.'') of
                    Some delim \<Rightarrow> take delim (state_prefix g)
                  | None \<Rightarrow> state_prefix g)
               in if op_state_by_name ops s state_devname
                  then Inr (bc\<lparr>bc_state_prefix := state_prefix g, has_state := True\<rparr>)
                  else Inl (- ENODEV))
            else Inl (- ENODEV))
         else Inr (bc\<lparr>bc_state_prefix := ''nv.bootchooser''\<rparr>))"

definition bootchooser_get ::
  "('s, 'e) bc_ops \<Rightarrow> bc_globals \<Rightarrow> 's \<Rightarrow> (int + bootchooser) \<times> bc_globals" where
  "bootchooser_get ops g s =
     (case the_bootchooser g of
        Some bc \<Rightarrow>
          (let bc = bc\<lparr>refs := refs bc + 1\<rparr> in (Inr bc, g\<lparr>the_bootchooser := Some bc\<rparr>))
      | None \<Rightarrow>
          (case bc_open_state ops g s of
             Inl ret \<Rightarrow> (Inl ret, g)
           | Inr bc \<Rightarrow>
               (let locked = getenv_u32 ops s (bc_state_prefix bc) ''attempts_locked'';
                    bc = bc\<lparr>bc_attempts_locked :=
                      attempts_locked g \<or> (\<exists>v \<in> set_option locked. v \<noteq> 0)\<rparr>
                in case bc_add_targets ops g s (Some (available_targets g)) 1 bc of (i, bc) \<Rightarrow>
                     if i = 1 then (Inl (- EINVAL), g)
                     else if targets bc = [] then (Inl (- EINVAL), g)
                     else (case bc_attempts_reset ops g (bc_priorities_reset g bc) of (g, bc) \<Rightarrow>
                             (let bc = bc_find_last_chosen ops s bc;
                                  bc = bc_mark_successful g bc;
                                  bc = bc_disable_on_zero g bc;
                                  bc = bc\<lparr>refs := 1\<rparr>
                              in (Inr bc, g\<lparr>the_bootchooser := Some bc\<rparr>))))))"

section \<open>Saving\<close>

fun bc_save_targets ::
  "('s, 'e) bc_ops \<Rightarrow> bootchooser \<Rightarrow> bootchooser_target list \<Rightarrow> 's \<Rightarrow> int \<times> 's" where
  "bc_save_targets ops bc [] s = (0, s)"
| "bc_save_targets ops bc (t # ts) s =
     (case bc_setenv ops bc s
             (t_state_prefix t @ ''.remaining_attempts='' @ fmt_d (remaining_attempts t)) of (ret, s) \<Rightarrow>
        if ret \<noteq> 0 then (ret, s)
        else (case bc_setenv ops bc s (t_state_prefix t @ ''.priority='' @ fmt_d (priority t)) of
                (ret, s) \<Rightarrow>
                  if ret \<noteq> 0 then (ret, s) else bc_save_targets ops bc ts s))"

definition bootchooser_save :: "('s, 'e) bc_ops \<Rightarrow> bootchooser \<Rightarrow> 's \<Rightarrow> int \<times> 's" where
  "bootchooser_save ops bc s =
     (let s = (case last_chosen bc of
                 None \<Rightarrow> s
               | Some i \<Rightarrow> snd (bc_setenv ops bc s
                   (bc_state_prefix bc @ ''.last_chosen='' @ fmt_d (of_nat i))))
      in case bc_save_targets ops bc (targets bc) s of (ret, s) \<Rightarrow>
           if ret \<noteq> 0 then (ret, s)
           else if op_cfg_state ops \<and> has_state bc then op_state_save ops s
           else op_nvvar_save ops s)"

definition bootchooser_put ::
  "('s, 'e) bc_ops \<Rightarrow> bootchooser \<Rightarrow> bc_globals \<Rightarrow> 's \<Rightarrow> int \<times> bc_globals \<times> 's" where
  "bootchooser_put ops bc g s =
     (let bc = bc\<lparr>refs := refs bc - 1\<rparr>
      in if refs bc \<noteq> 0 then (0, g\<lparr>the_bootchooser := Some bc\<rparr>, s)
         else (case bootchooser_save ops bc s of (ret, s) \<Rightarrow>
                 (ret, g\<lparr>the_bootchooser := None\<rparr>, s)))"

section \<open>Choosing and booting\<close>

fun bc_first_ok :: "bootchooser_target list \<Rightarrow> bootchooser_target option" where
  "bc_first_ok [] = None"
| "bc_first_ok (t # ts) = (if bootchooser_target_ok t then Some t else bc_first_ok ts)"

definition bootchooser_get_target ::
  "('s, 'e) bc_ops \<Rightarrow> bootchooser \<Rightarrow> 's \<Rightarrow> (int + bootchooser_target) \<times> bootchooser \<times> 's" where
  "bootchooser_get_target ops bc s =
     (case bc_first_ok (targets bc) of
        None \<Rightarrow> (Inl (- ENOENT), bc, s)
      | Some target \<Rightarrow>
          (let target' = (if \<not> bc_attempts_locked bc
                          then target\<lparr>remaining_attempts := remaining_attempts target - 1\<rparr> else target);
               bc = bc\<lparr>targets := map (\<lambda>t. if t_id t = t_id target then target' else t) (targets bc),
                       last_chosen := Some (t_id target)\<rparr>
           in (Inr target', bc, snd (bootchooser_save ops bc s))))"

definition bootchooser_get_last_chosen :: "bootchooser \<Rightarrow> int + nat" where
  "bootchooser_get_last_chosen bc =
     (case last_chosen bc of None \<Rightarrow> Inl (- ENODEV) | Some i \<Rightarrow> Inr i)"

fun boot_entries :: "('s, 'e) bc_ops \<Rightarrow> 'e list \<Rightarrow> int \<Rightarrow> 's \<Rightarrow> int \<times> bool \<times> 's" where
  "boot_entries ops [] ret s = (ret, True, s)"
| "boot_entries ops (entry # entries) ret s =
     (case op_boot_entry ops s entry of (ret, s) \<Rightarrow>
        if ret = 0 then (ret, False, s) else boot_entries ops entries ret s)"

definition bootchooser_boot_one ::
  "('s, 'e) bc_ops \<Rightarrow> bootchooser \<Rightarrow> bc_globals \<Rightarrow> 's \<Rightarrow> int \<times> bool \<times> bootchooser \<times> bc_globals \<times> 's" where
  "bootchooser_boot_one ops bc g s =
     (case bootchooser_get_target ops bc s of (chosen, bc, s) \<Rightarrow>
        (case chosen of
           Inl ret \<Rightarrow> (ret, False, bc, g, op_bootargs ops s None)
         | Inr target \<Rightarrow>
             (let s = op_bootargs ops s (Some (''bootchooser.active='' @ t_name target))
              in case op_bootentry_create ops s (t_boot target) of (ret, entries, s) \<Rightarrow>
                   if ret \<le> 0 then (- ENODEV, True, bc, g, op_bootargs ops s None)
                   else (case boot_entries ops entries (- ENOENT) s of (ret, tryagain, s) \<Rightarrow>
                           (ret, tryagain, bc, g\<lparr>last_boot_successful := False\<rparr>,
                            op_bootargs ops s None)))))"

partial_function (option) bootchooser_boot ::
  "('s, 'e) bc_ops \<Rightarrow> bootchooser \<Rightarrow> bc_globals \<Rightarrow> 's \<Rightarrow> (int \<times> bootchooser \<times> bc_globals \<times> 's) option" where
  "bootchooser_boot ops bc g s =
     (case bootchooser_boot_one ops bc g s of (ret, tryagain, bc, g, s) \<Rightarrow>
        if \<not> retry g then Some (ret, bc, g, s)
        else if tryagain then bootchooser_boot ops bc g s
        else Some (ret, bc, g, s))"

definition bootchooser_entry_boot ::
  "('s, 'e) bc_ops \<Rightarrow> bc_globals \<Rightarrow> 's \<Rightarrow> (int \<times> bc_globals \<times> 's) option" where
  "bootchooser_entry_boot ops g s =
     (case bootchooser_get ops g s of (r, g) \<Rightarrow>
        (case r of
           Inl ret \<Rightarrow> Some (ret, g, s)
         | Inr bc \<Rightarrow>
             bootchooser_boot ops bc g s \<bind> (\<lambda>(ret, bc, g, s).
             case bootchooser_put ops bc g s of (_, g, s) \<Rightarrow> Some (ret, g, s))))"

definition bootchooser_last_boot_successful :: "bc_globals \<Rightarrow> bc_globals" where
  "bootchooser_last_boot_successful g = g\<lparr>last_boot_successful := True\<rparr>"

definition bootchooser_lock_attempts :: "bc_globals \<Rightarrow> bool \<Rightarrow> bc_globals" where
  "bootchooser_lock_attempts g locked = g\<lparr>attempts_locked := locked\<rparr>"

definition bootchooser_target_first :: "bootchooser \<Rightarrow> bootchooser_target option" where
  "bootchooser_target_first bc = (case targets bc of [] \<Rightarrow> None | t # _ \<Rightarrow> Some t)"

section \<open>The policy\<close>

text \<open>
  What the chooser promises, without its list: a table of slots by id, each with a priority
  and a number of attempts. A usable slot has both; the slot of the highest priority is taken,
  the one listed first among equals, and loses an attempt unless the counters are locked.
\<close>

type_synonym slots = "nat \<Rightarrow> (u32 \<times> u32) option"

definition usable :: "slots \<Rightarrow> nat \<Rightarrow> bool" where
  "usable m i \<longleftrightarrow> (\<exists>p a. m i = Some (p, a) \<and> p \<noteq> 0 \<and> a \<noteq> 0)"

definition best :: "slots \<Rightarrow> nat \<Rightarrow> bool" where
  "best m i \<longleftrightarrow> usable m i \<and> (\<forall>j. usable m j \<longrightarrow> j = i \<or> fst (the (m j)) < fst (the (m i))
     \<or> fst (the (m j)) = fst (the (m i)) \<and> i < j)"

inductive policy_choose :: "bool \<Rightarrow> slots \<Rightarrow> int + nat \<Rightarrow> slots \<Rightarrow> bool" where
  policy_none: "(\<And>i. \<not> usable m i) \<Longrightarrow> policy_choose locked m (Inl (- ENOENT)) m"
| policy_take: "best m i \<Longrightarrow> m i = Some (p, a) \<Longrightarrow>
    policy_choose locked m (Inr i) (m(i \<mapsto> (p, if locked then a else a - 1)))"

inductive_cases policy_chooseE: "policy_choose locked m r m'"

definition slots_of :: "bootchooser_target list \<Rightarrow> slots" where
  "slots_of ts = map_of (map (\<lambda>t. (t_id t, (priority t, remaining_attempts t))) ts)"

definition before :: "bootchooser_target \<Rightarrow> bootchooser_target \<Rightarrow> bool" where
  "before t u \<longleftrightarrow> priority u < priority t \<or> priority u = priority t \<and> t_id t < t_id u"

definition bc_ok :: "bootchooser \<Rightarrow> bool" where
  "bc_ok bc \<longleftrightarrow> distinct (map t_id (targets bc))
     \<and> sorted_wrt before (filter bootchooser_target_enabled (targets bc))"

lemma slots_of_target:
  assumes "distinct (map t_id ts)" and "t \<in> set ts"
  shows "slots_of ts (t_id t) = Some (priority t, remaining_attempts t)"
  using assms unfolding slots_of_def by (intro map_of_is_SomeI) (auto simp: o_def)

lemma slots_of_in:
  assumes "slots_of ts i = Some (p, a)"
  obtains t where "t \<in> set ts" "t_id t = i" "priority t = p" "remaining_attempts t = a"
  using map_of_SomeD [OF assms [unfolded slots_of_def]] by auto

lemma usable_target:
  assumes "usable (slots_of ts) i"
  obtains t where "t \<in> set ts" "t_id t = i" "bootchooser_target_ok t"
  using assms by (auto simp: usable_def bootchooser_target_ok_def elim!: slots_of_in)

lemma target_usable:
  "distinct (map t_id ts) \<Longrightarrow> t \<in> set ts \<Longrightarrow> bootchooser_target_ok t \<Longrightarrow> usable (slots_of ts) (t_id t)"
  by (auto simp: usable_def slots_of_target bootchooser_target_ok_def split: if_splits)

lemma slots_of_update:
  assumes "distinct (map t_id ts)" and "t \<in> set ts" and "t_id t' = t_id t"
  shows "slots_of (map (\<lambda>u. if t_id u = t_id t then t' else u) ts)
    = (slots_of ts)(t_id t \<mapsto> (priority t', remaining_attempts t'))"
  using assms
proof (induction ts)
  case (Cons u ts)
  have notin: "t_id u \<notin> t_id ` set ts" using Cons.prems(1) by simp
  show ?case
  proof (cases "u = t")
    case True
    with notin have "map (\<lambda>u. if t_id u = t_id t then t' else u) ts = ts"
      by (intro map_idI) (metis imageI)
    with True Cons.prems show ?thesis by (auto simp: slots_of_def fun_eq_iff)
  next
    case False
    with Cons notin have "t_id u \<noteq> t_id t" "t \<in> set ts" by force+
    with Cons show ?thesis by (auto simp: slots_of_def fun_eq_iff)
  qed
qed simp

lemma bc_first_ok_None: "bc_first_ok ts = None \<longleftrightarrow> (\<forall>t \<in> set ts. \<not> bootchooser_target_ok t)"
  by (induction ts) auto

lemma bc_first_ok_Some:
  assumes "bc_first_ok ts = Some t"
  obtains ys zs where "ts = ys @ t # zs" "bootchooser_target_ok t" "\<forall>y \<in> set ys. \<not> bootchooser_target_ok y"
  using assms
proof (induction ts arbitrary: thesis)
  case (Cons u ts)
  show ?case
  proof (cases "bootchooser_target_ok u")
    case True
    with Cons.prems show ?thesis by (intro Cons.prems(1) [of "[]" ts]) auto
  next
    case False
    with Cons obtain ys zs where "ts = ys @ t # zs" "bootchooser_target_ok t"
      "\<forall>y \<in> set ys. \<not> bootchooser_target_ok y" by (metis bc_first_ok.simps(2))
    with False show ?thesis by (intro Cons.prems(1) [of "u # ys" zs]) auto
  qed
qed simp

lemma ok_enabled: "bootchooser_target_ok t \<Longrightarrow> bootchooser_target_enabled t"
  by (simp add: bootchooser_target_ok_def bootchooser_target_enabled_def split: if_splits)

lemma first_ok_before:
  assumes "sorted_wrt before (filter bootchooser_target_enabled ts)" and "bc_first_ok ts = Some t"
    and "u \<in> set ts" and "bootchooser_target_ok u"
  shows "u = t \<or> before t u"
proof -
  obtain ys zs where ts: "ts = ys @ t # zs" "bootchooser_target_ok t"
    "\<forall>y \<in> set ys. \<not> bootchooser_target_ok y" using assms(2) by (rule bc_first_ok_Some)
  with assms(3,4) have "u = t \<or> u \<in> set zs" by auto
  with assms(1,4) ts(1,2) show ?thesis by (auto simp: sorted_wrt_append ok_enabled)
qed

text \<open>Changing counters, or disabling targets, keeps the enabled ones in order.\<close>

lemma sorted_enabled_map:
  assumes "sorted_wrt before (filter bootchooser_target_enabled ts)"
    and "\<And>t. t \<in> set ts \<Longrightarrow> t_id (f t) = t_id t"
    and "\<And>t. t \<in> set ts \<Longrightarrow> priority (f t) = priority t \<or> priority (f t) = 0"
  shows "sorted_wrt before (filter bootchooser_target_enabled (map f ts))"
  using assms
proof (induction ts)
  case (Cons t ts)
  have keep: "bootchooser_target_enabled (f u) \<Longrightarrow> bootchooser_target_enabled u \<and> priority (f u) = priority u"
    if "u \<in> set (t # ts)" for u
    using Cons.prems(3) [OF that] by (auto simp: bootchooser_target_enabled_def)
  have rest: "sorted_wrt before (filter bootchooser_target_enabled (map f ts))"
    using Cons.prems by (intro Cons.IH) (auto split: if_splits)
  show ?case
  proof (cases "bootchooser_target_enabled (f t)")
    case True
    have "before (f t) (f v)" if "v \<in> set ts" "bootchooser_target_enabled (f v)" for v
    proof -
      have "before t v" using Cons.prems(1) keep [of t] keep [of v] True that by simp
      with keep [of t] keep [of v] True that Cons.prems(2) show ?thesis by (simp add: before_def)
    qed
    with True rest show ?thesis by auto
  next
    case False
    with rest show ?thesis by simp
  qed
qed simp

lemma bc_ok_map:
  assumes "bc_ok bc" and "targets bc' = map f (targets bc)"
    and "\<And>t. t \<in> set (targets bc) \<Longrightarrow> t_id (f t) = t_id t"
    and "\<And>t. t \<in> set (targets bc) \<Longrightarrow> priority (f t) = priority t \<or> priority (f t) = 0"
  shows "bc_ok bc'"
proof -
  have "map t_id (map f (targets bc)) = map t_id (targets bc)" using assms(3) by simp
  moreover have "sorted_wrt before (filter bootchooser_target_enabled (map f (targets bc)))"
    using assms(1) by (intro sorted_enabled_map assms(3,4)) (auto simp: bc_ok_def)
  ultimately show ?thesis using assms(1) unfolding bc_ok_def assms(2) by (simp only:)
qed

lemma target_id_inj:
  "bc_ok bc \<Longrightarrow> t \<in> set (targets bc) \<Longrightarrow> u \<in> set (targets bc) \<Longrightarrow> t_id u = t_id t \<Longrightarrow> u = t"
  by (auto simp: bc_ok_def distinct_map dest: inj_onD)

lemma first_ok_best:
  assumes "bc_ok bc" and "bc_first_ok (targets bc) = Some t"
  shows "best (slots_of (targets bc)) (t_id t)"
proof -
  have dist: "distinct (map t_id (targets bc))"
    and sorted: "sorted_wrt before (filter bootchooser_target_enabled (targets bc))"
    using assms(1) by (auto simp: bc_ok_def)
  have t: "t \<in> set (targets bc)" "bootchooser_target_ok t"
    using assms(2) by (auto elim: bc_first_ok_Some)
  show ?thesis unfolding best_def
  proof (intro conjI allI impI)
    show "usable (slots_of (targets bc)) (t_id t)" using target_usable [OF dist t] .
    fix j assume "usable (slots_of (targets bc)) j"
    then obtain u where u: "u \<in> set (targets bc)" "t_id u = j" "bootchooser_target_ok u"
      by (rule usable_target)
    with first_ok_before [OF sorted assms(2) u(1,3)] t slots_of_target [OF dist]
    show "j = t_id t \<or> fst (the (slots_of (targets bc) j)) < fst (the (slots_of (targets bc) (t_id t)))
      \<or> fst (the (slots_of (targets bc) j)) = fst (the (slots_of (targets bc) (t_id t))) \<and> t_id t < j"
      by (auto simp: before_def)
  qed
qed

text \<open>The target a choice returns, and the chooser after it.\<close>

definition counted :: "bootchooser \<Rightarrow> bootchooser_target \<Rightarrow> bootchooser_target" where
  "counted bc t = (if \<not> bc_attempts_locked bc
     then t\<lparr>remaining_attempts := remaining_attempts t - 1\<rparr> else t)"

lemma counted_simps [simp]:
  "t_id (counted bc t) = t_id t" "priority (counted bc t) = priority t" "t_boot (counted bc t) = t_boot t"
  "remaining_attempts (counted bc t) = (if bc_attempts_locked bc then remaining_attempts t else remaining_attempts t - 1)"
  by (simp_all add: counted_def)

definition after_choice :: "bootchooser \<Rightarrow> bootchooser_target \<Rightarrow> bootchooser" where
  "after_choice bc t = bc\<lparr>targets := map (\<lambda>u. if t_id u = t_id t then counted bc t else u) (targets bc),
     last_chosen := Some (t_id t)\<rparr>"

lemma bootchooser_get_target_unfold:
  "bootchooser_get_target ops bc s =
     (case bc_first_ok (targets bc) of
        None \<Rightarrow> (Inl (- ENOENT), bc, s)
      | Some t \<Rightarrow> (Inr (counted bc t), after_choice bc t, snd (bootchooser_save ops (after_choice bc t) s)))"
  unfolding bootchooser_get_target_def Let_def counted_def [symmetric] after_choice_def [symmetric] ..

lemma after_choice_ok: "bc_ok bc \<Longrightarrow> t \<in> set (targets bc) \<Longrightarrow> bc_ok (after_choice bc t)"
  by (rule bc_ok_map [where bc = bc and f = "\<lambda>u. if t_id u = t_id t then counted bc t else u"])
    (auto simp: after_choice_def dest: target_id_inj)

text \<open>C20. Choosing refines the policy: on a chooser whose enabled targets are in order, the
  target that \<^verbatim>\<open>bootchooser_get_target\<close> returns is the usable slot of the highest priority,
  the one listed first among equals, exactly its counter goes down by one, and only when the
  counters are not locked; when no slot is usable the call fails with \<^verbatim>\<open>-ENOENT\<close> and changes
  nothing. The order is kept for the next choice.\<close>

theorem get_target_refines_policy:
  assumes "bc_ok bc" and "bootchooser_get_target ops bc s = (r, bc', s')"
  shows "policy_choose (bc_attempts_locked bc) (slots_of (targets bc)) (map_sum id t_id r)
      (slots_of (targets bc')) \<and> bc_ok bc'"
proof (cases "bc_first_ok (targets bc)")
  case None
  have "\<not> usable (slots_of (targets bc)) i" for i
    using None by (auto simp: bc_first_ok_None elim: usable_target)
  then have "policy_choose (bc_attempts_locked bc) (slots_of (targets bc)) (Inl (- ENOENT))
      (slots_of (targets bc))" by (rule policy_none)
  with None assms show ?thesis by (auto simp: bootchooser_get_target_unfold)
next
  case (Some t)
  then have t: "t \<in> set (targets bc)" by (auto elim: bc_first_ok_Some)
  have dist: "distinct (map t_id (targets bc))" using assms(1) by (simp add: bc_ok_def)
  from assms(2) Some have r: "r = Inr (counted bc t)" and bc': "bc' = after_choice bc t"
    by (simp_all add: bootchooser_get_target_unfold)
  from policy_take [OF first_ok_best [OF assms(1) Some] slots_of_target [OF dist t],
      of "bc_attempts_locked bc"]
  have "policy_choose (bc_attempts_locked bc) (slots_of (targets bc)) (map_sum id t_id r)
      (slots_of (targets bc'))"
    using slots_of_update [OF dist t, of "counted bc t"] r bc'
    by (simp add: after_choice_def)
  with after_choice_ok [OF assms(1) t] bc' show ?thesis by simp
qed

text \<open>Two targets of equal priority and one of lower priority, used where a theorem is
  applied, and operations on a machine without variables whose targets never boot.\<close>

definition demo_target :: "nat \<Rightarrow> string \<Rightarrow> u32 \<Rightarrow> u32 \<Rightarrow> bootchooser_target" where
  "demo_target i name prio attempts =
     \<lparr>priority = prio, remaining_attempts = attempts, t_id = i, t_name = name, default_attempts = 3,
      default_priority = 1, t_boot = name, t_prefix = BOOTCHOOSER_PREFIX @ ''.'' @ name,
      t_state_prefix = ''state.'' @ name\<rparr>"

definition demo_bc :: "bootchooser_target list \<Rightarrow> bootchooser" where
  "demo_bc ts = \<lparr>targets = ts, last_chosen = None, has_state = True, bc_state_prefix = ''state'',
     refs = 1, bc_attempts_locked = False\<rparr>"

definition demo_ops :: "(unit, unit) bc_ops" where
  "demo_ops = \<lparr>op_getenv = (\<lambda>s n. None), op_setenv = (\<lambda>s n v. (0, s)), op_nvvar_add = (\<lambda>s n v. (0, s)),
     op_state_save = (\<lambda>s. (0, s)), op_nvvar_save = (\<lambda>s. (0, s)), op_state_by_name = (\<lambda>s n. True),
     op_cfg_state = True, op_reset_source = RESET_POR, op_bootargs = (\<lambda>s v. s),
     op_bootentry_create = (\<lambda>s n. (0, [], s)), op_boot_entry = (\<lambda>s e. (- ENODEV, s))\<rparr>"

definition demo_globals :: bc_globals where
  "demo_globals = \<lparr>available_targets = ''a b'', state_prefix = ''state'', global_default_attempts = 3,
     global_default_priority = 1, disable_on_zero_attempts = False, retry = True,
     last_boot_successful = False, attempts_locked = False, reset_attempts = 2,
     reset_priorities = 1, attempts_resetted = False, the_bootchooser = None\<rparr>"

theorem get_target_refines_policy_witness:
  "policy_choose False (slots_of [demo_target 1 ''a'' 2 0, demo_target 2 ''b'' 1 3])
     (Inr 2) (slots_of [demo_target 1 ''a'' 2 0, demo_target 2 ''b'' 1 2])"
proof -
  let ?bc = "demo_bc [demo_target 1 ''a'' 2 0, demo_target 2 ''b'' 1 3]"
  have run: "bootchooser_get_target demo_ops ?bc () = (Inr (demo_target 2 ''b'' 1 2),
      ?bc\<lparr>targets := [demo_target 1 ''a'' 2 0, demo_target 2 ''b'' 1 2], last_chosen := Some 2\<rparr>, ())"
    by (simp add: bootchooser_get_target_def Let_def demo_bc_def demo_target_def bootchooser_target_ok_def)
  have "bc_ok ?bc"
    by (simp add: bc_ok_def demo_bc_def demo_target_def bootchooser_target_enabled_def before_def)
  from get_target_refines_policy [OF this run] show ?thesis
    by (simp add: demo_bc_def demo_target_def)
qed

section \<open>Setting up keeps the order\<close>

lemma list_add_sort_before:
  assumes "sorted_wrt before ts" and "\<forall>t \<in> set ts. t_id t < t_id new"
  shows "sorted_wrt before (list_add_sort new ts bootchooser_target_compare)"
  using assms
proof (induction ts)
  case (Cons t ts)
  show ?case
  proof (cases "priority new \<le> priority t")
    case True
    then have "before t new" using Cons.prems(2) by (auto simp: before_def)
    with True Cons show ?thesis by (simp add: bootchooser_target_compare_def)
  next
    case False
    then have "before new u" if "u \<in> set (t # ts)" for u
      using that Cons.prems(1) by (auto simp: before_def)
    with False Cons.prems show ?thesis by (simp add: bootchooser_target_compare_def)
  qed
qed simp

lemma distinct_ids_add:
  "distinct (map t_id ts) \<Longrightarrow> \<forall>t \<in> set ts. t_id t < t_id new \<Longrightarrow>
   distinct (map t_id (list_add_sort new ts cmp))"
  using distinct_list_add_sort [of t_id new ts cmp] by fastforce

lemma bc_add_targets_sorted:
  assumes "bc_add_targets ops g s rest i bc = (n, bc')" and "sorted_wrt before (targets bc)"
    and "distinct (map t_id (targets bc))" and "\<forall>t \<in> set (targets bc). t_id t < i"
  shows "sorted_wrt before (targets bc') \<and> distinct (map t_id (targets bc'))"
  using assms
proof (induction ops g s rest i bc arbitrary: n bc' rule: bc_add_targets.induct)
  case (1 ops g s rest i bc)
  obtain str rest' where sep: "strsep rest (CHR '' '') = (str, rest')" by fastforce
  show ?case
  proof (cases "str = None \<or> str = Some []")
    case True
    with 1(2-) sep show ?thesis by (auto simp: bc_add_targets.simps [of ops g s rest])
  next
    case False
    then obtain name where name: "str = Some name" "name \<noteq> []" by auto
    define t where "t = (bootchooser_target_new ops g bc s name)\<lparr>t_id := i\<rparr>"
    have id: "t_id t = i" by (simp add: t_def)
    from 1(2) sep name have "bc_add_targets ops g s rest' (i + 1)
        (bc\<lparr>targets := list_add_sort t (targets bc) bootchooser_target_compare\<rparr>) = (n, bc')"
      by (simp add: bc_add_targets.simps [of ops g s rest] t_def)
    moreover have "\<forall>u \<in> set (list_add_sort t (targets bc) bootchooser_target_compare). t_id u < i + 1"
      using 1(5) id by auto
    ultimately show ?thesis
      using 1(1) [OF sep [symmetric] name t_def] 1(3-5) id list_add_sort_before [of "targets bc" t]
        distinct_ids_add [of "targets bc" t] by simp
  qed
qed

lemma set_attempts_keeps [simp]:
  "t_id (bootchooser_target_set_attempts t n) = t_id t"
  "priority (bootchooser_target_set_attempts t n) = priority t"
  by (simp_all add: bootchooser_target_set_attempts_def)

lemma bc_ok_reset_attempts: "bc_ok bc \<Longrightarrow> bc_ok (bootchooser_reset_attempts bc)"
  by (erule bc_ok_map [where f = "\<lambda>t. if bootchooser_target_enabled t
      then bootchooser_target_set_attempts t (- 1) else t"])
    (auto simp: bootchooser_reset_attempts_def)

lemma bc_ok_attempts_reset: "bc_ok bc \<Longrightarrow> bc_ok (snd (bc_attempts_reset ops g bc))"
  by (auto simp: bc_attempts_reset_def Let_def bc_ok_reset_attempts split: prod.splits if_splits)

lemma bc_ok_find_last_chosen: "bc_ok bc \<Longrightarrow> bc_ok (bc_find_last_chosen ops s bc)"
  by (auto simp: bc_find_last_chosen_def bc_ok_def split: option.splits)

lemma bc_ok_mark_successful: "bc_ok bc \<Longrightarrow> bc_ok (bc_mark_successful g bc)"
proof (cases "last_chosen bc")
  case (Some i)
  assume "bc_ok bc"
  then have "bc_ok (bc\<lparr>targets := map (\<lambda>t. if t_id t = i then bootchooser_target_set_attempts t (- 1) else t)
      (targets bc)\<rparr>)"
    by (rule bc_ok_map [where f = "\<lambda>t. if t_id t = i then bootchooser_target_set_attempts t (- 1) else t"]) auto
  with Some \<open>bc_ok bc\<close> show ?thesis by (simp add: bc_mark_successful_def)
qed (simp add: bc_mark_successful_def)

lemma bc_ok_disable_on_zero: "bc_ok bc \<Longrightarrow> bc_ok (bc_disable_on_zero g bc)"
proof -
  assume "bc_ok bc"
  then have "bc_ok (bc\<lparr>targets := map (\<lambda>t. if remaining_attempts t = 0 then bootchooser_target_disable t else t)
      (targets bc)\<rparr>)"
    by (rule bc_ok_map [where f = "\<lambda>t. if remaining_attempts t = 0 then bootchooser_target_disable t else t"])
      (auto simp: bootchooser_target_disable_def)
  with \<open>bc_ok bc\<close> show ?thesis by (simp add: bc_disable_on_zero_def)
qed

lemmas bc_ok_phases = bc_ok_attempts_reset bc_ok_find_last_chosen bc_ok_mark_successful
  bc_ok_disable_on_zero

lemma bc_open_state_targets: "bc_open_state ops g s = Inr bc \<Longrightarrow> targets bc = []"
  by (auto simp: bc_open_state_def Let_def split: if_splits)

lemma bc_ok_cong: "targets bc' = targets bc \<Longrightarrow> bc_ok bc' = bc_ok bc"
  by (simp add: bc_ok_def)

lemma bc_add_targets_ok:
  assumes "bc_add_targets ops g s rest 1 bc = (n, bc')" and "targets bc = []"
  shows "bc_ok bc'"
  using bc_add_targets_sorted [OF assms(1)] assms(2)
  by (simp add: bc_ok_def sorted_wrt_filter)



lemma bootchooser_reset_attempts_idem [simp]:
  "bootchooser_reset_attempts (bootchooser_reset_attempts bc) = bootchooser_reset_attempts bc"
  by (simp add: bootchooser_reset_attempts_def bootchooser_target_set_attempts_def
      bootchooser_target_enabled_def)

lemma bc_attempts_reset_all_zero:
  assumes "bit (reset_attempts g) RESET_ATTEMPTS_ALL_ZERO"
    and "sum_list (map remaining_attempts (targets bc)) = 0"
  shows "snd (bc_attempts_reset ops g bc) = bootchooser_reset_attempts bc"
  using assms by (simp add: bc_attempts_reset_def split: prod.split)

text \<open>Resetting the priorities does not restore the order: when all targets are disabled
  and both resets for that case are configured, the target listed first is booted next even
  if the default priority of another one is higher, although the chooser is documented to
  take the highest priority.\<close>

theorem priorities_reset_ignores_order:
  assumes "targets bc = [a, b]" and "t_id a \<noteq> t_id b" and "priority a = 0" and "priority b = 0"
    and "remaining_attempts a = 0" and "remaining_attempts b = 0"
    and "0 < default_priority a" and "default_priority a < default_priority b"
    and "default_attempts a \<noteq> 0"
    and "bit (reset_priorities g) RESET_PRIORITIES_ALL_ZERO" and "bit (reset_attempts g) RESET_ATTEMPTS_ALL_ZERO"
  shows "\<exists>t bc' s'. bootchooser_get_target ops (snd (bc_attempts_reset ops g (bc_priorities_reset g bc))) s
      = (Inr t, bc', s') \<and> t_id t = t_id a \<and> priority t < default_priority b"
proof -
  define a' where "a' = a\<lparr>priority := default_priority a, remaining_attempts := default_attempts a\<rparr>"
  have reset: "targets (bc_priorities_reset g bc)
      = [a\<lparr>priority := default_priority a\<rparr>, b\<lparr>priority := default_priority b\<rparr>]"
    using assms by (simp add: bc_priorities_reset_def bootchooser_reset_priorities_def
        bootchooser_target_set_priority_def)
  have "default_priority a \<noteq> 0" using assms(7) by simp
  then obtain y where y: "targets (snd (bc_attempts_reset ops g (bc_priorities_reset g bc))) = [a', y]"
    using assms(5,6) reset bc_attempts_reset_all_zero [OF assms(11), of "bc_priorities_reset g bc" ops]
    by (simp add: bootchooser_reset_attempts_def a'_def
        bootchooser_target_set_attempts_def bootchooser_target_enabled_def)
  have ok: "bootchooser_target_ok a'"
    using assms(9) \<open>default_priority a \<noteq> 0\<close> by (simp add: a'_def bootchooser_target_ok_def)
  show ?thesis using assms(8)
    by (simp add: bootchooser_get_target_unfold y ok) (simp add: a'_def)
qed

theorem priorities_reset_ignores_order_witness:
  "\<exists>t bc' s'. bootchooser_get_target demo_ops (snd (bc_attempts_reset demo_ops demo_globals
       (bc_priorities_reset demo_globals (demo_bc [demo_target 1 ''a'' 0 0,
          (demo_target 2 ''b'' 0 0)\<lparr>default_priority := 20\<rparr>])))) ()
     = (Inr t, bc', s') \<and> t_id t = t_id (demo_target 1 ''a'' 0 0)
       \<and> priority t < default_priority ((demo_target 2 ''b'' 0 0)\<lparr>default_priority := 20\<rparr>)"
  by (rule priorities_reset_ignores_order [where a = "demo_target 1 ''a'' 0 0"])
    (simp_all add: demo_bc_def demo_target_def demo_globals_def bit_simps)

section \<open>The retry loop\<close>

definition attempts_left :: "bootchooser \<Rightarrow> nat" where
  "attempts_left bc = sum_list (map (\<lambda>t. unat (remaining_attempts t)) (targets bc))"

lemma after_choice_split:
  assumes "bc_ok bc" and "targets bc = ys @ t # zs"
  shows "targets (after_choice bc t) = ys @ counted bc t # zs"
proof -
  have "t_id t \<notin> t_id ` (set ys \<union> set zs)" using assms by (auto simp: bc_ok_def)
  then have "map (\<lambda>u. if t_id u = t_id t then counted bc t else u) us = us"
    if "us = ys \<or> us = zs" for us
    using that by (intro map_idI) (metis UnI1 UnI2 imageI)
  with assms(2) show ?thesis by (simp add: after_choice_def)
qed

lemma after_choice_attempts:
  assumes "bc_ok bc" and "bc_first_ok (targets bc) = Some t" and "\<not> bc_attempts_locked bc"
  shows "attempts_left (after_choice bc t) < attempts_left bc"
proof -
  obtain ys zs where ts: "targets bc = ys @ t # zs" "bootchooser_target_ok t"
    using assms(2) by (rule bc_first_ok_Some)
  then have "remaining_attempts t \<noteq> 0" by (simp add: bootchooser_target_ok_def split: if_splits)
  then have "unat (remaining_attempts t - 1) < unat (remaining_attempts t)"
    by (metis unat_minus_one unat_gt_0 diff_less zero_less_one)
  with assms(3) after_choice_split [OF assms(1) ts(1)] ts(1) show ?thesis
    by (simp add: attempts_left_def)
qed

lemma boot_entries_ret:
  "ret \<noteq> 0 \<Longrightarrow> boot_entries ops entries ret s = (ret', tryagain, s') \<Longrightarrow> ret' = 0 \<longleftrightarrow> \<not> tryagain"
  by (induction entries arbitrary: ret s) (auto split: prod.splits if_splits)

lemma boot_one_None:
  "bc_first_ok (targets bc) = None \<Longrightarrow>
   \<exists>s'. bootchooser_boot_one ops bc g s = (- ENOENT, False, bc, g, s')"
  by (simp add: bootchooser_boot_one_def bootchooser_get_target_unfold)

lemma boot_one_Some:
  assumes "bc_first_ok (targets bc) = Some t"
  obtains ret tryagain g' s' where
    "bootchooser_boot_one ops bc g s = (ret, tryagain, after_choice bc t, g', s')"
    "retry g' = retry g" "ret = 0 \<longleftrightarrow> \<not> tryagain"
proof -
  obtain s1 where get: "bootchooser_get_target ops bc s = (Inr (counted bc t), after_choice bc t, s1)"
    using assms by (simp add: bootchooser_get_target_unfold)
  obtain ret entries s2 where create: "op_bootentry_create ops
      (op_bootargs ops s1 (Some (''bootchooser.active='' @ t_name (counted bc t)))) (t_boot (counted bc t))
      = (ret, entries, s2)" by (metis prod_cases3)
  obtain ret' tryagain s3 where run: "boot_entries ops entries (- ENOENT) s2 = (ret', tryagain, s3)"
    by (metis prod_cases3)
  have "ret' = 0 \<longleftrightarrow> \<not> tryagain" using boot_entries_ret [OF _ run] by simp
  with get create run that show thesis
    by (cases "ret \<le> 0") (auto simp: bootchooser_boot_one_def Let_def simp del: counted_simps)
qed



text \<open>A target that boots: whatever the machine state, its name leads to boot entries, and one
  of them starts.\<close>

definition bootable :: "('s, 'e) bc_ops \<Rightarrow> bootchooser_target \<Rightarrow> bool" where
  "bootable ops t \<longleftrightarrow> (\<forall>s. case op_bootentry_create ops s (t_boot t) of (ret, entries, s') \<Rightarrow>
     0 < ret \<and> fst (boot_entries ops entries (- ENOENT) s') = 0)"

lemma boot_one_bootable:
  assumes "bc_first_ok (targets bc) = Some t" and "bootable ops t"
  shows "\<exists>bc' g' s'. bootchooser_boot_one ops bc g s = (0, False, bc', g', s')"
proof -
  obtain s1 where get: "bootchooser_get_target ops bc s = (Inr (counted bc t), after_choice bc t, s1)"
    using assms by (simp add: bootchooser_get_target_unfold)
  obtain ret entries s2 where create: "op_bootentry_create ops
      (op_bootargs ops s1 (Some (''bootchooser.active='' @ t_name (counted bc t)))) (t_boot t)
      = (ret, entries, s2)" by (metis prod_cases3)
  obtain ret' tryagain s3 where run: "boot_entries ops entries (- ENOENT) s2 = (ret', tryagain, s3)"
    by (metis prod_cases3)
  have "0 < ret" "ret' = 0"
    using assms(2) [unfolded bootable_def, rule_format,
      of "op_bootargs ops s1 (Some (''bootchooser.active='' @ t_name (counted bc t)))"] create run
    by simp_all
  with get create run boot_entries_ret [OF _ run] show ?thesis
    by (auto simp: bootchooser_boot_one_def Let_def)
qed



definition stuck :: "('s, 'e) bc_ops \<Rightarrow> bootchooser \<Rightarrow> bc_globals \<Rightarrow> bool" where
  "stuck ops bc g \<longleftrightarrow> bc_attempts_locked bc \<and> retry g \<and> (\<exists>t \<in> set (targets bc). bootchooser_target_ok t)
     \<and> (\<forall>s name. fst (op_bootentry_create ops s name) \<le> 0)"

lemma boot_one_stuck:
  assumes "stuck ops bc g"
  obtains bc' s' where "bootchooser_boot_one ops bc g s = (- ENODEV, True, bc', g, s')" "stuck ops bc' g"
proof -
  from assms obtain t where t: "bc_first_ok (targets bc) = Some t"
    unfolding stuck_def using bc_first_ok_None by (cases "bc_first_ok (targets bc)") blast+
  then have ok: "t \<in> set (targets bc)" "bootchooser_target_ok t" by (auto elim: bc_first_ok_Some)
  have locked: "counted bc t = t" using assms by (simp add: stuck_def counted_def)
  obtain s1 where get: "bootchooser_get_target ops bc s = (Inr t, after_choice bc t, s1)"
    using t locked by (simp add: bootchooser_get_target_unfold)
  obtain ret entries s2 where create: "op_bootentry_create ops
      (op_bootargs ops s1 (Some (''bootchooser.active='' @ t_name t))) (t_boot t) = (ret, entries, s2)"
    by (metis prod_cases3)
  then have "ret \<le> 0" using assms unfolding stuck_def by (metis fst_conv)
  with get create have "bootchooser_boot_one ops bc g s = (- ENODEV, True, after_choice bc t, g, op_bootargs ops s2 None)"
    by (simp add: bootchooser_boot_one_def Let_def)
  moreover have "stuck ops (after_choice bc t) g"
    using assms ok locked by (force simp: stuck_def after_choice_def)
  ultimately show thesis by (rule that)
qed

lemma bootchooser_boot_not_stuck:
  assumes "bootchooser_boot ops bc g s = Some y"
  shows "\<not> stuck ops bc g"
proof (rule bootchooser_boot.raw_induct [where P = "\<lambda>ops bc g s y. \<not> stuck ops bc g", OF _ assms])
  fix boot :: "('a, 'b) bc_ops \<Rightarrow> bootchooser \<Rightarrow> bc_globals \<Rightarrow> 'a \<Rightarrow> (int \<times> bootchooser \<times> bc_globals \<times> 'a) option"
    and ops :: "('a, 'b) bc_ops" and bc g s y
  assume IH: "\<And>ops bc g s y. boot ops bc g s = Some y \<Longrightarrow> \<not> stuck ops bc g"
    and run: "(case bootchooser_boot_one ops bc g s of (ret, tryagain, bc, g, s) \<Rightarrow>
        if \<not> retry g then Some (ret, bc, g, s)
        else if tryagain then boot ops bc g s
        else Some (ret, bc, g, s)) = Some y"
  show "\<not> stuck ops bc g"
  proof
    assume st: "stuck ops bc g"
    then obtain bc' s' where "bootchooser_boot_one ops bc g s = (- ENODEV, True, bc', g, s')" "stuck ops bc' g"
      by (rule boot_one_stuck)
    moreover have "retry g" using st by (simp add: stuck_def)
    ultimately show False using run IH by auto
  qed
qed

text \<open>With locked counters and retrying enabled, booting never returns when no target can
  be booted: the same target is chosen again and again, because only the counters end the
  loop.\<close>

theorem bootchooser_boot_locked_diverges:
  assumes "bc_attempts_locked bc" and "retry g"
    and "t \<in> set (targets bc)" and "bootchooser_target_ok t"
    and "\<And>s name. fst (op_bootentry_create ops s name) \<le> 0"
  shows "bootchooser_boot ops bc g s = None"
proof -
  have "stuck ops bc g" using assms by (auto simp: stuck_def)
  then show ?thesis using bootchooser_boot_not_stuck [of ops bc g s] by (metis not_Some_eq)
qed

theorem bootchooser_boot_locked_diverges_witness:
  "bootchooser_boot demo_ops ((demo_bc [demo_target 1 ''a'' 2 3])\<lparr>bc_attempts_locked := True\<rparr>) demo_globals ()
     = None"
  by (rule bootchooser_boot_locked_diverges [where t = "demo_target 1 ''a'' 2 3"])
    (simp_all add: demo_bc_def demo_target_def demo_globals_def bootchooser_target_ok_def demo_ops_def)

section \<open>Saved counters are read back\<close>

text \<open>The names under which a target's counters are kept.\<close>

definition attempts_var :: "string \<Rightarrow> string" where
  "attempts_var pfx = pfx @ ''.remaining_attempts''"

definition priority_var :: "string \<Rightarrow> string" where
  "priority_var pfx = pfx @ ''.priority''"

lemma var_names [simp]:
  "attempts_var p = attempts_var q \<longleftrightarrow> p = q" "priority_var p = priority_var q \<longleftrightarrow> p = q"
  "attempts_var p \<noteq> priority_var q" "priority_var q \<noteq> attempts_var p"
proof -
  have "last (attempts_var p) = CHR ''s''" "last (priority_var q) = CHR ''y''"
    by (simp_all add: attempts_var_def priority_var_def)
  then show "attempts_var p \<noteq> priority_var q" "priority_var q \<noteq> attempts_var p" by fastforce+
qed (simp_all add: attempts_var_def priority_var_def)

lemma sint_small: "unat (w :: u32) < 2 ^ 31 \<Longrightarrow> sint w = uint w"
proof -
  assume "unat w < 2 ^ 31"
  then have lt: "uint w < 2 ^ 31" by (metis of_nat_less_iff of_nat_numeral of_nat_power uint_nat)
  have "- (2 ^ 31) \<le> uint w" by (rule order_trans [OF _ uint_ge_0]) simp
  from signed_take_bit_int_eq_self [OF this lt] show "sint w = uint w"
    by (simp only: sint_uint) simp
qed

lemma sint_large: "2 ^ 31 \<le> unat (w :: u32) \<Longrightarrow> sint w < 0"
proof -
  assume a: "2 ^ 31 \<le> unat w"
  have "2 ^ 31 \<le> uint w" using a by (metis of_nat_le_iff of_nat_numeral of_nat_power uint_nat)
  moreover have "uint w < 2 ^ 32" using uint_lt2p [of w] by simp
  ultimately have "uint w div 2 ^ 31 = 1" by (intro int_div_pos_eq [where r = "uint w - 2 ^ 31"]) simp_all
  then have "bit (uint w) 31" by (simp only: bit_iff_odd) simp
  then show "sint w < 0" by (simp only: sint_uint signed_take_bit_negative_iff) simp
qed

lemma fmt_d_small: "unat w < 2 ^ 31 \<Longrightarrow> fmt_d w = number (unat w)"
  by (simp only: fmt_d_def sint_small unat_eq_nat_uint) simp

context var_store
begin

lemma bc_setenv_number:
  fixes ops :: "('s, 'e) bc_ops"
  assumes "op_getenv ops = get_var" and "op_setenv ops = put_var" and "has_state bc"
    and "CHR ''='' \<notin> set name" and "store_ok s" and "number_in s name" and "unat w < 2 ^ 31"
  obtains s' where "bc_setenv ops bc s (name @ ''='' @ fmt_d w) = (0, s')" and "store_ok s'"
    and "\<And>m. number_in s' m = number_in s m" and "\<And>m. readable s' m = readable s m"
    and "\<exists>t. get_var s' name = Some t \<and> simple_strtoul t 0 = of_nat (unat w)"
    and "\<And>m. readable s m \<Longrightarrow> m \<noteq> name \<Longrightarrow> get_var s' m = get_var s m"
proof (cases "get_var s name = Some (number (unat w))")
  case True
  with assms show thesis
    by (intro that [of s]) (auto simp: bc_setenv_def parse_assignment_join [OF assms(4), simplified]
        fmt_d_small simple_strtoul_number)
next
  case False
  let ?s' = "snd (put_var s name (number (unat w)))"
  have "bc_setenv ops bc s (name @ ''='' @ fmt_d w) = (0, ?s')"
    using False assms put_ret [OF assms(5,6), of "unat w"]
    by (auto simp: bc_setenv_def parse_assignment_join [OF assms(4), simplified] fmt_d_small
        prod_eq_iff)
  then show thesis
    using put_ok put_number_in put_readable put_other put_get [OF assms(5,6), of "unat w"] assms(5-7)
    by (intro that [of ?s']) auto
qed

text \<open>What the code expects of the variables of a target: both exist in the store, and the
  prefix contains no equals sign, at which an assignment would be split.\<close>

definition saved_in :: "'s \<Rightarrow> bootchooser_target \<Rightarrow> bool" where
  "saved_in s t \<longleftrightarrow> number_in s (attempts_var (t_state_prefix t)) \<and> number_in s (priority_var (t_state_prefix t))
     \<and> CHR ''='' \<notin> set (t_state_prefix t)
     \<and> unat (remaining_attempts t) < 2 ^ 31 \<and> unat (priority t) < 2 ^ 31"

definition holds_counters :: "'s \<Rightarrow> bootchooser_target \<Rightarrow> bool" where
  "holds_counters s t \<longleftrightarrow>
     (\<exists>v. get_var s (attempts_var (t_state_prefix t)) = Some v
        \<and> simple_strtoul v 0 = of_nat (unat (remaining_attempts t)))
     \<and> (\<exists>v. get_var s (priority_var (t_state_prefix t)) = Some v
        \<and> simple_strtoul v 0 = of_nat (unat (priority t)))"

lemma bc_save_target_step:
  fixes ops :: "('s, 'e) bc_ops"
  assumes "op_getenv ops = get_var" and "op_setenv ops = put_var" and "has_state bc"
    and "store_ok s" and "saved_in s t"
  obtains s' where "bc_save_targets ops bc (t # ts) s = bc_save_targets ops bc ts s'"
    and "store_ok s'" and "holds_counters s' t"
    and "\<And>m. number_in s' m = number_in s m" and "\<And>m. readable s' m = readable s m"
    and "\<And>m. readable s m \<Longrightarrow> m \<noteq> attempts_var (t_state_prefix t) \<Longrightarrow>
      m \<noteq> priority_var (t_state_prefix t) \<Longrightarrow> get_var s' m = get_var s m"
proof -
  let ?a = "attempts_var (t_state_prefix t)" and ?p = "priority_var (t_state_prefix t)"
  have eq: "CHR ''='' \<notin> set ?a" "CHR ''='' \<notin> set ?p"
    using assms(5) by (auto simp: saved_in_def attempts_var_def priority_var_def)
  have num: "number_in s ?a" "number_in s ?p"
    and small: "unat (remaining_attempts t) < 2 ^ 31" "unat (priority t) < 2 ^ 31"
    using assms(5) by (simp_all add: saved_in_def)
  obtain s1 where s1: "bc_setenv ops bc s (?a @ ''='' @ fmt_d (remaining_attempts t)) = (0, s1)" "store_ok s1"
    "\<And>m. number_in s1 m = number_in s m" "\<And>m. readable s1 m = readable s m"
    "\<exists>v. get_var s1 ?a = Some v \<and> simple_strtoul v 0 = of_nat (unat (remaining_attempts t))"
    "\<And>m. readable s m \<Longrightarrow> m \<noteq> ?a \<Longrightarrow> get_var s1 m = get_var s m"
    using bc_setenv_number [OF assms(1-3) eq(1) assms(4) num(1) small(1)] by metis
  have num1: "number_in s1 ?p" using num(2) s1(3) by simp
  obtain s2 where s2: "bc_setenv ops bc s1 (?p @ ''='' @ fmt_d (priority t)) = (0, s2)" "store_ok s2"
    "\<And>m. number_in s2 m = number_in s1 m" "\<And>m. readable s2 m = readable s1 m"
    "\<exists>v. get_var s2 ?p = Some v \<and> simple_strtoul v 0 = of_nat (unat (priority t))"
    "\<And>m. readable s1 m \<Longrightarrow> m \<noteq> ?p \<Longrightarrow> get_var s2 m = get_var s1 m"
    using bc_setenv_number [OF assms(1-3) eq(2) s1(2) num1 small(2)] by metis
  have step: "bc_save_targets ops bc (t # ts) s = bc_save_targets ops bc ts s2"
    using s1(1) s2(1) by (simp add: attempts_var_def priority_var_def)
  have "readable s1 ?a" using s1(4) number_readable [OF num(1)] by simp
  then have "get_var s2 ?a = get_var s1 ?a" using s2(6) by simp
  with s1(5) s2(5) have "holds_counters s2 t" by (simp add: holds_counters_def)
  with step s2 s1 show thesis by (intro that [of s2]) auto
qed

lemma bc_save_targets_holds:
  fixes ops :: "('s, 'e) bc_ops"
  assumes "op_getenv ops = get_var" and "op_setenv ops = put_var" and "has_state bc"
    and "store_ok s" and "\<forall>t \<in> set ts. saved_in s t" and "distinct (map t_state_prefix ts)"
  shows "\<exists>s'. bc_save_targets ops bc ts s = (0, s') \<and> store_ok s' \<and> (\<forall>t \<in> set ts. holds_counters s' t)
    \<and> (\<forall>m. readable s m \<longrightarrow> (\<forall>t \<in> set ts. m \<noteq> attempts_var (t_state_prefix t) \<and> m \<noteq> priority_var (t_state_prefix t))
        \<longrightarrow> get_var s' m = get_var s m)"
  using assms(4-6)
proof (induction ts arbitrary: s)
  case (Cons t ts)
  have "saved_in s t" using Cons.prems(2) by simp
  from bc_save_target_step [OF assms(1-3) Cons.prems(1) this, of ts] obtain s1 where
    s1: "bc_save_targets ops bc (t # ts) s = bc_save_targets ops bc ts s1" "store_ok s1" "holds_counters s1 t"
    "\<And>m. number_in s1 m = number_in s m" "\<And>m. readable s1 m = readable s m"
    "\<And>m. readable s m \<Longrightarrow> m \<noteq> attempts_var (t_state_prefix t) \<Longrightarrow>
      m \<noteq> priority_var (t_state_prefix t) \<Longrightarrow> get_var s1 m = get_var s m"
    by metis
  have "\<forall>u \<in> set ts. saved_in s1 u" using Cons.prems(2) s1(4) by (simp add: saved_in_def)
  with Cons.IH [OF s1(2)] Cons.prems(3) obtain s' where
    s': "bc_save_targets ops bc ts s1 = (0, s')" "store_ok s'" "\<forall>u \<in> set ts. holds_counters s' u"
    "\<forall>m. readable s1 m \<longrightarrow> (\<forall>u \<in> set ts. m \<noteq> attempts_var (t_state_prefix u) \<and> m \<noteq> priority_var (t_state_prefix u))
        \<longrightarrow> get_var s' m = get_var s1 m" by auto
  have r: "readable s1 (attempts_var (t_state_prefix t))" "readable s1 (priority_var (t_state_prefix t))"
    using number_readable \<open>saved_in s t\<close> by (auto simp: saved_in_def s1(5))
  have "t_state_prefix t \<notin> t_state_prefix ` set ts" using Cons.prems(3) by simp
  then have "get_var s' (attempts_var (t_state_prefix t)) = get_var s1 (attempts_var (t_state_prefix t))"
    "get_var s' (priority_var (t_state_prefix t)) = get_var s1 (priority_var (t_state_prefix t))"
    using s'(4) r by auto
  then have "holds_counters s' t" using s1(3) by (simp add: holds_counters_def)
  with s' s1 show ?case by auto
qed auto

end

text \<open>The same over the environment of the previous theory: the counters of a target are
  parameters that hold a number, such as those of a state device.\<close>

definition counters_stored :: "env \<Rightarrow> bootchooser_target \<Rightarrow> bool" where
  "counters_stored e t \<longleftrightarrow> number_var e (attempts_var (t_state_prefix t))
     \<and> number_var e (priority_var (t_state_prefix t)) \<and> CHR ''='' \<notin> set (t_state_prefix t)
     \<and> unat (remaining_attempts t) < 2 ^ 31 \<and> unat (priority t) < 2 ^ 31"

definition last_chosen_stored :: "env \<Rightarrow> bootchooser \<Rightarrow> bool" where
  "last_chosen_stored e bc \<longleftrightarrow> (\<forall>i. last_chosen bc = Some i \<longrightarrow> i < 2 ^ 31
     \<and> number_var e (bc_state_prefix bc @ ''.last_chosen'') \<and> CHR ''='' \<notin> set (bc_state_prefix bc))"

lemma counters_stored_saved_in: "counters_stored e t = env_vars.saved_in e t"
  by (simp add: counters_stored_def env_vars.saved_in_def)

lemma target_new_reads:
  assumes "op_getenv ops = env_get" and "env_vars.holds_counters e t"
    and "t_state_prefix t = bc_state_prefix bc @ ''.'' @ t_name t"
  shows "priority (bootchooser_target_new ops g bc e (t_name t)) = priority t
    \<and> remaining_attempts (bootchooser_target_new ops g bc e (t_name t))
      = (if priority t = 0 then 0 else remaining_attempts t)"
proof -
  have "getenv_u32 ops e (t_state_prefix t) ''priority'' = Some (priority t)"
    "getenv_u32 ops e (t_state_prefix t) ''remaining_attempts'' = Some (remaining_attempts t)"
    using assms(1,2)
    by (auto simp: getenv_u32_def env_vars.holds_counters_def attempts_var_def priority_var_def)
  with assms(3) show ?thesis by (simp add: bootchooser_target_new_def Let_def)
qed

lemma save_last_chosen_keeps:
  fixes ops :: "(env, 'e) bc_ops"
  assumes "op_getenv ops = env_get" and "op_setenv ops = env_put" and "has_state bc"
    and "env_store_ok e" and "last_chosen_stored e bc" and "last_chosen bc = Some i"
  shows "\<exists>e'. bc_setenv ops bc e (bc_state_prefix bc @ ''.last_chosen='' @ fmt_d (of_nat i)) = (0, e')
    \<and> env_store_ok e' \<and> (\<forall>m. number_var e' m = number_var e m)"
proof -
  have "CHR ''='' \<notin> set (bc_state_prefix bc @ ''.last_chosen'')"
    "number_var e (bc_state_prefix bc @ ''.last_chosen'')" "unat (of_nat i :: u32) < 2 ^ 31"
    using assms(5,6) by (auto simp: last_chosen_stored_def unat_of_nat take_bit_nat_eq_self)
  from env_vars.bc_setenv_number [OF assms(1-3) this(1) assms(4) this(2,3)] show ?thesis
    by (metis append.assoc append_Cons append_Nil)
qed


text \<open>A state device with the two counters of one target, and the operations of a chooser that
  keeps its variables there.\<close>

definition demo_env :: env where
  "demo_env = \<lparr>contexts = [empty_context], devices = [(''state'',
      [new_param ''a.priority'' PARAM_TYPE_UINT32 (Int_data 0 Fmt_u) None None,
       new_param ''a.remaining_attempts'' PARAM_TYPE_UINT32 (Int_data 0 Fmt_u) None None])],
     device_aliases = []\<rparr>"

definition env_ops :: "(env, unit) bc_ops" where
  "env_ops = \<lparr>op_getenv = env_get, op_setenv = env_put, op_nvvar_add = (\<lambda>s n v. (- ENOSYS, s)),
     op_state_save = (\<lambda>s. (0, s)), op_nvvar_save = (\<lambda>s. (- ENOSYS, s)),
     op_state_by_name = (\<lambda>s n. n = ''state''), op_cfg_state = True, op_reset_source = RESET_POR,
     op_bootargs = (\<lambda>s v. s), op_bootentry_create = (\<lambda>s n. (0, [], s)),
     op_boot_entry = (\<lambda>s e. (- ENODEV, s))\<rparr>"

lemma demo_env_stores: "counters_stored demo_env (demo_target 1 ''a'' 20 3)"
proof -
  obtain ps as where "dot_splits ''state.a.priority'' 0 = (''state'', ''a.priority'') # ps"
    "dot_splits ''state.a.remaining_attempts'' 0 = (''state'', ''a.remaining_attempts'') # as"
    by (simp add: dot_splits.simps [of _ 0] strchr_def)
  then have "number_var demo_env ''state.a.priority''" "number_var demo_env ''state.a.remaining_attempts''"
    by (simp_all add: number_var_def dev_lookup_def demo_env_def get_device_by_name_def new_param_def
        stores_number_def)
  then show ?thesis
    by (simp add: counters_stored_def demo_target_def attempts_var_def priority_var_def)
qed


text \<open>A counter of 2147483648 or more does not survive: \<^verbatim>\<open>bootchooser_save\<close> prints the
  unsigned counters with \<^verbatim>\<open>%d\<close>, so that such a priority is stored as a negative number, which
  the unsigned parser of a state variable reads as 0: the target comes back disabled.\<close>

theorem large_counter_lost:
  assumes "p_type p = PARAM_TYPE_UINT32" and "p_data p = Int_data v Fmt_u" and "p_set p = None"
    and "2 ^ 31 \<le> unat w"
  shows "param_set p (Some (fmt_d w)) = (0, p\<lparr>p_data := Int_data 0 Fmt_u\<rparr>)"
proof -
  have "sint w < 0" using assms(4) by (rule sint_large)
  then have "fmt_d w = CHR ''-'' # number (nat (- sint w))" by (simp add: fmt_d_def)
  moreover have "digit_val (CHR ''-'') = None" by (simp add: digit_val_def)
  ultimately have "simple_strtoul (fmt_d w) 0 = 0"
    by (auto simp: simple_strtoul_def simple_strtoull_def parse_integer_fixup_radix_def Let_def
        split: list.splits)
  with assms show ?thesis by (simp add: param_set_def param_int_set_def param_notify_def low32_def)
qed

theorem large_counter_lost_witness:
  "param_set (new_param ''a.priority'' PARAM_TYPE_UINT32 (Int_data 20 Fmt_u) None None)
     (Some (fmt_d 0x80000000))
   = (0, new_param ''a.priority'' PARAM_TYPE_UINT32 (Int_data 0 Fmt_u) None None)"
  using large_counter_lost [of "new_param ''a.priority'' PARAM_TYPE_UINT32 (Int_data 20 Fmt_u) None None" 20
    "0x80000000"]
  by (simp add: new_param_def)

end
