(* ===== verification/Ratp.thy ===== *)
theory Ratp
  imports Crc "HOL-Library.Monad_Syntax"
begin

text \<open>
  The reliable asynchronous transfer protocol of RFC 916 (\<^verbatim>\<open>lib/ratp.c\<close>), which carries the
  remote console and file access over a serial line: packets with a header checksum and a CRC,
  stop-and-wait transfer with one-bit sequence numbers, retransmission, and the state machine
  of the RFC as one function per procedure, called in the order of the table.

  The link that the protocol runs on and the clock are a record of operations on an abstract
  state: sending a packet, receiving a character, reading the time, and the completion
  callback of a message. Sequence numbers, which are 0 or 1, are booleans, so that adding one
  modulo two is negation. The receive buffer is kept with its stale content, because a packet
  overwrites only a part of it. Loops that wait for characters or for time are
  \<open>partial_function\<close>s: \<open>None\<close> means that the wait never ends.
\<close>

section \<open>Packets\<close>

record ratp_header =
  synch :: u8
  control :: u8
  data_length :: u8
  cksum :: u8

abbreviation (input) RATP_CONTROL_SO :: u8 where "RATP_CONTROL_SO \<equiv> 0x01"
abbreviation (input) RATP_CONTROL_EOR :: u8 where "RATP_CONTROL_EOR \<equiv> 0x02"
abbreviation (input) RATP_CONTROL_AN :: u8 where "RATP_CONTROL_AN \<equiv> 0x04"
abbreviation (input) RATP_CONTROL_SN :: u8 where "RATP_CONTROL_SN \<equiv> 0x08"
abbreviation (input) RATP_CONTROL_RST :: u8 where "RATP_CONTROL_RST \<equiv> 0x10"
abbreviation (input) RATP_CONTROL_FIN :: u8 where "RATP_CONTROL_FIN \<equiv> 0x20"
abbreviation (input) RATP_CONTROL_ACK :: u8 where "RATP_CONTROL_ACK \<equiv> 0x40"
abbreviation (input) RATP_CONTROL_SYN :: u8 where "RATP_CONTROL_SYN \<equiv> 0x80"

definition flag :: "ratp_header \<Rightarrow> u8 \<Rightarrow> bool" where
  "flag hdr c \<longleftrightarrow> control hdr AND c \<noteq> 0"

datatype ratp_state =
    RATP_STATE_LISTEN
  | RATP_STATE_SYN_SENT
  | RATP_STATE_SYN_RECEIVED
  | RATP_STATE_ESTABLISHED
  | RATP_STATE_FIN_WAIT
  | RATP_STATE_LAST_ACK
  | RATP_STATE_CLOSING
  | RATP_STATE_TIME_WAIT
  | RATP_STATE_CLOSED

record ratp_message =
  m_data :: bytes
  m_eor :: bool
  m_complete :: "nat option"

record ratp_internal =
  r_state :: ratp_state
  sn_sent :: bool
  sn_received :: bool
  active :: bool
  recvbuf :: bytes
  sendbuf :: bytes
  sendbuf_len :: nat
  recvmsg :: "ratp_message list"
  sendmsg :: "ratp_message list"
  sendmsg_current :: "ratp_message option"
  timewait_timer_start :: u64
  retransmission_timer_start :: u64
  max_retransmission :: nat
  retransmission_count :: nat
  srtt :: int
  rto :: int
  status :: int
  in_ratp :: nat

record 's ratp_ops =
  op_send :: "'s \<Rightarrow> bytes \<Rightarrow> int \<times> 's"
  op_recv :: "'s \<Rightarrow> int \<times> u8 \<times> 's"
  op_time :: "'s \<Rightarrow> u64 \<times> 's"
  op_done :: "'s \<Rightarrow> nat \<Rightarrow> int \<Rightarrow> 's"

definition ratp_sn :: "ratp_header \<Rightarrow> bool" where
  "ratp_sn hdr = flag hdr RATP_CONTROL_SN"

definition ratp_an :: "ratp_header \<Rightarrow> bool" where
  "ratp_an hdr = flag hdr RATP_CONTROL_AN"

definition ratp_set_sn :: "bool \<Rightarrow> u8" where
  "ratp_set_sn sn = (if sn then RATP_CONTROL_SN else 0)"

definition ratp_set_an :: "bool \<Rightarrow> u8" where
  "ratp_set_an an = (if an then RATP_CONTROL_AN else 0)"

definition ratp_set_next_sn :: "bool \<Rightarrow> u8" where
  "ratp_set_next_sn sn = ratp_set_sn (\<not> sn)"

definition ratp_set_next_an :: "bool \<Rightarrow> u8" where
  "ratp_set_next_an an = ratp_set_an (\<not> an)"

definition ratp_header_ok :: "ratp_header \<Rightarrow> bool" where
  "ratp_header_ok h \<longleftrightarrow> control h + data_length h + cksum h = 0xff"

definition ratp_has_data :: "ratp_header \<Rightarrow> bool" where
  "ratp_has_data hdr =
     (if flag hdr RATP_CONTROL_SO then True
      else if \<not> flag hdr (RATP_CONTROL_SYN OR RATP_CONTROL_RST OR RATP_CONTROL_FIN)
              \<and> data_length hdr \<noteq> 0 then True
      else False)"

definition ratp_create_packet :: "u8 \<Rightarrow> u8 \<Rightarrow> ratp_header" where
  "ratp_create_packet c len =
     \<lparr>synch = 0x1, control = c, data_length = len, cksum = (c + len) XOR 0xff\<rparr>"

text \<open>A header at the start of a buffer.\<close>

definition hdr_bytes :: "ratp_header \<Rightarrow> bytes" where
  "hdr_bytes h = [synch h, control h, data_length h, cksum h]"

definition hdr_of :: "bytes \<Rightarrow> ratp_header" where
  "hdr_of pkt = \<lparr>synch = pkt ! 0, control = pkt ! 1, data_length = pkt ! 2, cksum = pkt ! 3\<rparr>"

section \<open>Sending\<close>

abbreviation (input) MSECOND :: u64 where "MSECOND \<equiv> 1000000"

definition is_timeout :: "'s ratp_ops \<Rightarrow> 's \<Rightarrow> u64 \<Rightarrow> u64 \<Rightarrow> bool \<times> 's" where
  "is_timeout ops s start offset =
     (case op_time ops s of (now, s) \<Rightarrow> (sint (start + offset - now) < 0, s))"

definition ratp_send_pkt ::
  "'s ratp_ops \<Rightarrow> ratp_internal \<times> 's \<Rightarrow> bytes \<Rightarrow> int \<times> ratp_internal \<times> 's" where
  "ratp_send_pkt ops rs pkt =
     (case rs of (ri, s) \<Rightarrow>
        (let hdr = hdr_of pkt;
             (ri, s) =
               (if ratp_has_data hdr \<or> flag hdr (RATP_CONTROL_SYN OR RATP_CONTROL_RST OR RATP_CONTROL_FIN)
                then (case op_time ops s of (now, s) \<Rightarrow>
                        (ri\<lparr>sendbuf := pkt @ drop (length pkt) (sendbuf ri), sn_sent := ratp_sn hdr, sendbuf_len := length pkt,
                            retransmission_timer_start := now, retransmission_count := 0\<rparr>, s))
                else (ri, s))
         in case op_send ops s pkt of (ret, s) \<Rightarrow> (ret, ri, s)))"

definition ratp_send_hdr ::
  "'s ratp_ops \<Rightarrow> ratp_internal \<times> 's \<Rightarrow> u8 \<Rightarrow> int \<times> ratp_internal \<times> 's" where
  "ratp_send_hdr ops rs c = ratp_send_pkt ops rs (hdr_bytes (ratp_create_packet c 0))"

section \<open>Receiving\<close>

partial_function (option) ratp_recv_char_loop ::
  "'s ratp_ops \<Rightarrow> 's \<Rightarrow> u64 \<Rightarrow> u64 \<Rightarrow> (int \<times> u8 \<times> 's) option" where
  "ratp_recv_char_loop ops s start offset =
     (case op_recv ops s of (ret, b, s) \<Rightarrow>
        if ret < 0 \<and> ret \<noteq> - EAGAIN then Some (ret, 0, s)
        else if ret = 0 then Some (0, b, s)
        else (case is_timeout ops s start offset of (expired, s) \<Rightarrow>
                if expired then Some (- EAGAIN, 0, s) else ratp_recv_char_loop ops s start offset))"

declare ratp_recv_char_loop.simps [code]

definition ratp_recv_char :: "'s ratp_ops \<Rightarrow> 's \<Rightarrow> nat \<Rightarrow> (int \<times> u8 \<times> 's) option" where
  "ratp_recv_char ops s poll_timeout_ms =
     (case op_time ops s of (start, s) \<Rightarrow>
        ratp_recv_char_loop ops s start (of_nat poll_timeout_ms * MSECOND))"

text \<open>Characters before a packet are skipped.\<close>

partial_function (option) ratp_recv_synch ::
  "'s ratp_ops \<Rightarrow> ratp_internal \<times> 's \<Rightarrow> (int \<times> ratp_internal \<times> 's) option" where
  "ratp_recv_synch ops rs =
     do { (ret, b, s) \<leftarrow> ratp_recv_char ops (snd rs) 0;
          if ret < 0 then Some (ret, fst rs, s)
          else (let ri = (fst rs)\<lparr>recvbuf := (recvbuf (fst rs))[0 := b]\<rparr>
                in if b \<noteq> 1 then ratp_recv_synch ops (ri, s) else Some (0, ri, s)) }"

declare ratp_recv_synch.simps [code]

fun ratp_recv_bytes ::
  "'s ratp_ops \<Rightarrow> ratp_internal \<times> 's \<Rightarrow> nat \<Rightarrow> nat \<Rightarrow> nat \<Rightarrow> (int \<times> ratp_internal \<times> 's) option" where
  "ratp_recv_bytes ops (ri, s) off 0 poll_timeout_ms = Some (0, ri, s)"
| "ratp_recv_bytes ops (ri, s) off (Suc n) poll_timeout_ms =
     do { (ret, b, s) \<leftarrow> ratp_recv_char ops s poll_timeout_ms;
          if ret < 0 then Some (ret, ri, s)
          else ratp_recv_bytes ops (ri\<lparr>recvbuf := (recvbuf ri)[off := b]\<rparr>, s) (off + 1) n poll_timeout_ms }"

definition ratp_recv_pkt_header ::
  "'s ratp_ops \<Rightarrow> ratp_internal \<times> 's \<Rightarrow> nat \<Rightarrow> (int \<times> ratp_internal \<times> 's) option" where
  "ratp_recv_pkt_header ops rs poll_timeout_ms =
     do { (ret, rs) \<leftarrow> ratp_recv_synch ops rs;
          if ret < 0 then Some (ret, rs)
          else do {
            (ret, ri, s) \<leftarrow> ratp_recv_bytes ops rs 1 3 poll_timeout_ms;
            if ret < 0 then Some (ret, ri, s)
            else if \<not> ratp_header_ok (hdr_of (recvbuf ri)) then Some (- EAGAIN, ri, s)
            else Some (0, ri, s) } }"

definition ratp_recv_pkt_data ::
  "'s ratp_ops \<Rightarrow> ratp_internal \<times> 's \<Rightarrow> u8 \<Rightarrow> nat \<Rightarrow> (int \<times> ratp_internal \<times> 's) option" where
  "ratp_recv_pkt_data ops rs len poll_timeout_ms =
     do { (ret, ri, s) \<leftarrow> ratp_recv_bytes ops rs 4 (unat len + 2) poll_timeout_ms;
          if ret < 0 then Some (ret, ri, s)
          else (let crc_expect = crc_itu_t 0 (subbuf 4 (unat len) (recvbuf ri));
                    crc_read = of_be16 (subbuf (4 + unat len) 2 (recvbuf ri))
                in if crc_expect \<noteq> crc_read then Some (- EBADMSG, ri, s) else Some (0, ri, s)) }"

definition ratp_recv_pkt ::
  "'s ratp_ops \<Rightarrow> ratp_internal \<times> 's \<Rightarrow> nat \<Rightarrow> (int \<times> ratp_internal \<times> 's) option" where
  "ratp_recv_pkt ops rs poll_timeout_ms =
     do { (ret, ri, s) \<leftarrow> ratp_recv_pkt_header ops rs poll_timeout_ms;
          if ret < 0 then Some (ret, ri, s)
          else if flag (hdr_of (recvbuf ri))
                    (RATP_CONTROL_SO OR RATP_CONTROL_RST OR RATP_CONTROL_SYN OR RATP_CONTROL_FIN)
          then Some (0, ri, s)
          else if data_length (hdr_of (recvbuf ri)) \<noteq> 0
          then ratp_recv_pkt_data ops (ri, s) (data_length (hdr_of (recvbuf ri))) poll_timeout_ms
          else Some (0, ri, s) }"

section \<open>Helpers of the state machine\<close>

definition ratp_an_expected :: "ratp_internal \<Rightarrow> ratp_header \<Rightarrow> bool" where
  "ratp_an_expected ri hdr \<longleftrightarrow> ratp_an hdr = (\<not> sn_sent ri)"

definition ratp_sn_expected :: "ratp_internal \<Rightarrow> ratp_header \<Rightarrow> bool" where
  "ratp_sn_expected ri hdr \<longleftrightarrow> ratp_sn hdr = (\<not> sn_received ri)"

definition ratp_state_change :: "ratp_internal \<Rightarrow> ratp_state \<Rightarrow> ratp_internal" where
  "ratp_state_change ri st = ri\<lparr>r_state := st\<rparr>"

definition ratp_send_ack ::
  "'s ratp_ops \<Rightarrow> ratp_internal \<times> 's \<Rightarrow> ratp_header \<Rightarrow> int \<times> ratp_internal \<times> 's" where
  "ratp_send_ack ops rs hdr =
     (let c = ratp_set_sn (ratp_an hdr) OR ratp_set_next_an (ratp_sn hdr) OR RATP_CONTROL_ACK
      in ratp_send_hdr ops rs c)"

text \<open>The packet of a message, with the control byte prepared by the caller: a message of one
  byte travels in the length field.\<close>

definition ratp_data_packet :: "u8 \<Rightarrow> ratp_message \<Rightarrow> bytes" where
  "ratp_data_packet c msg =
     (let data = m_data msg; len = length data;
          c = (if m_eor msg then c OR RATP_CONTROL_EOR else c)
      in if len > 1 then
           hdr_bytes (ratp_create_packet c (of_nat len)) @ data @ be16 (crc_itu_t 0 data)
         else if len = 1 then hdr_bytes (ratp_create_packet (c OR RATP_CONTROL_SO) (data ! 0))
         else hdr_bytes (ratp_create_packet c (of_nat len)))"

definition ratp_send_next_data ::
  "'s ratp_ops \<Rightarrow> ratp_internal \<times> 's \<Rightarrow> int \<times> ratp_internal \<times> 's" where
  "ratp_send_next_data ops rs =
     (case rs of (ri, s) \<Rightarrow>
        if sendmsg_current ri \<noteq> None then (- EBUSY, ri, s)
        else (case sendmsg ri of
                [] \<Rightarrow> (0, ri, s)
              | msg # rest \<Rightarrow>
                  (let ri = ri\<lparr>sendmsg_current := Some msg, sendmsg := rest\<rparr>;
                       c = ratp_set_next_sn (sn_sent ri) OR ratp_set_next_an (sn_received ri)
                             OR RATP_CONTROL_ACK;
                       ri = ri\<lparr>retransmission_count := 0\<rparr>
                   in (0, snd (ratp_send_pkt ops (ri, s) (ratp_data_packet c msg))))))"

definition ratp_start_time_wait_timer :: "'s ratp_ops \<Rightarrow> ratp_internal \<times> 's \<Rightarrow> ratp_internal \<times> 's" where
  "ratp_start_time_wait_timer ops rs =
     (case rs of (ri, s) \<Rightarrow>
        (case op_time ops s of (now, s) \<Rightarrow> (ri\<lparr>timewait_timer_start := now\<rparr>, s)))"

text \<open>C division of integers truncates towards zero.\<close>

definition cdiv :: "int \<Rightarrow> int \<Rightarrow> int" where
  "cdiv a b = (if 0 \<le> a then a div b else - ((- a) div b))"

definition ratp_msg_done ::
  "'s ratp_ops \<Rightarrow> ratp_internal \<times> 's \<Rightarrow> ratp_message \<Rightarrow> int \<Rightarrow> ratp_internal \<times> 's" where
  "ratp_msg_done ops rs msg st =
     (case rs of (ri, s) \<Rightarrow>
        (let (ri, s) =
           (if st = 0 then
              (case op_time ops s of (now, s) \<Rightarrow>
                 (let rtt = sint (ucast ((now - retransmission_timer_start ri) div MSECOND) :: u32);
                      sr = cdiv (8 * srtt ri + (10 - 8) * rtt) 10
                  in (ri\<lparr>srtt := sr, rto := max 200 (cdiv (15 * sr) 10)\<rparr>, s)))
            else (ri, s))
         in case m_complete msg of None \<Rightarrow> (ri, s) | Some ctx \<Rightarrow> (ri, op_done ops s ctx st)))"

section \<open>The procedures of the state machine\<close>

text \<open>Each procedure examines the packet in the receive buffer; a result other than 0 ends the
  processing of the packet.\<close>

definition ratp_behaviour_a :: "'s ratp_ops \<Rightarrow> ratp_internal \<times> 's \<Rightarrow> ratp_internal \<times> 's" where
  "ratp_behaviour_a ops rs =
     (let hdr = hdr_of (recvbuf (fst rs))
      in if flag hdr RATP_CONTROL_RST then rs
         else if flag hdr RATP_CONTROL_ACK then
           (let c = RATP_CONTROL_RST;
                c = (if flag hdr RATP_CONTROL_AN then c OR RATP_CONTROL_SN else c)
            in snd (ratp_send_hdr ops rs c))
         else if flag hdr RATP_CONTROL_SYN then
           (let c = RATP_CONTROL_SYN OR RATP_CONTROL_ACK;
                c = (if \<not> flag hdr RATP_CONTROL_SN then c OR RATP_CONTROL_AN else c)
            in case snd (ratp_send_pkt ops rs (hdr_bytes (ratp_create_packet c 255))) of (ri, s) \<Rightarrow>
                 (ratp_state_change ri RATP_STATE_SYN_RECEIVED, s))
         else rs)"

definition ratp_behaviour_b :: "'s ratp_ops \<Rightarrow> ratp_internal \<times> 's \<Rightarrow> ratp_internal \<times> 's" where
  "ratp_behaviour_b ops rs =
     (case rs of (ri, s) \<Rightarrow>
        (let hdr = hdr_of (recvbuf ri)
         in if flag hdr RATP_CONTROL_ACK \<and> \<not> ratp_an_expected ri hdr then
              (if \<not> flag hdr RATP_CONTROL_RST
               then snd (ratp_send_hdr ops (ri, s) (RATP_CONTROL_RST OR ratp_set_sn (ratp_an hdr)))
               else (ri, s))
            else if flag hdr RATP_CONTROL_RST then
              (if flag hdr RATP_CONTROL_ACK
               then (ratp_state_change (ri\<lparr>status := - ECONNREFUSED\<rparr>) RATP_STATE_CLOSED, s)
               else (ri, s))
            else if flag hdr RATP_CONTROL_SYN then
              (let ri = ri\<lparr>sn_received := ratp_sn hdr\<rparr>
               in if flag hdr RATP_CONTROL_ACK then
                    (let ri = ratp_state_change ri RATP_STATE_ESTABLISHED
                     in if sendmsg ri = [] \<or> sendmsg_current ri \<noteq> None
                        then snd (ratp_send_ack ops (ri, s) hdr)
                        else snd (ratp_send_next_data ops (ri, s)))
                  else
                    (let c = ratp_set_next_an (ratp_sn hdr) OR RATP_CONTROL_SYN OR RATP_CONTROL_ACK
                     in case snd (ratp_send_pkt ops (ri, s) (hdr_bytes (ratp_create_packet c 255))) of
                          (ri, s) \<Rightarrow> (ratp_state_change ri RATP_STATE_SYN_RECEIVED, s)))
            else (ri, s)))"

definition ratp_behaviour_c1 :: "'s ratp_ops \<Rightarrow> ratp_internal \<times> 's \<Rightarrow> int \<times> ratp_internal \<times> 's" where
  "ratp_behaviour_c1 ops rs =
     (let hdr = hdr_of (recvbuf (fst rs))
      in if ratp_sn_expected (fst rs) hdr then (0, rs)
         else if \<not> flag hdr RATP_CONTROL_RST \<and> \<not> flag hdr RATP_CONTROL_FIN then
           (case ratp_send_ack ops rs hdr of (ret, rs) \<Rightarrow> if ret \<noteq> 0 then (ret, rs) else (1, rs))
         else (1, rs))"

definition ratp_behaviour_c2 :: "'s ratp_ops \<Rightarrow> ratp_internal \<times> 's \<Rightarrow> int \<times> ratp_internal \<times> 's" where
  "ratp_behaviour_c2 ops rs =
     (let hdr = hdr_of (recvbuf (fst rs))
      in if ratp_sn_expected (fst rs) hdr then (0, rs)
         else if flag hdr RATP_CONTROL_RST \<or> flag hdr RATP_CONTROL_FIN then (1, rs)
         else if flag hdr RATP_CONTROL_SYN then
           (let ri = (fst rs)\<lparr>status := - ECONNRESET\<rparr>;
                c = RATP_CONTROL_RST OR RATP_CONTROL_ACK OR ratp_set_sn (ratp_an hdr)
                      OR ratp_set_next_an (ratp_sn hdr)
            in case snd (ratp_send_hdr ops (ri, snd rs) c) of (ri, s) \<Rightarrow>
                 (1, ratp_state_change (ri\<lparr>sendbuf_len := 0\<rparr>) RATP_STATE_CLOSED, s))
         else (case ratp_send_ack ops rs hdr of (ret, rs) \<Rightarrow> if ret \<noteq> 0 then (ret, rs) else (1, rs)))"

definition ratp_behaviour_d1 :: "ratp_internal \<times> 's \<Rightarrow> int \<times> ratp_internal \<times> 's" where
  "ratp_behaviour_d1 rs =
     (case rs of (ri, s) \<Rightarrow>
        if \<not> flag (hdr_of (recvbuf ri)) RATP_CONTROL_RST then (0, ri, s)
        else if \<not> active ri then (1, ratp_state_change ri RATP_STATE_LISTEN, s)
        else (1, ratp_state_change (ri\<lparr>status := - ECONNREFUSED, sendbuf_len := 0\<rparr>) RATP_STATE_CLOSED, s))"

definition ratp_behaviour_d2 :: "ratp_internal \<times> 's \<Rightarrow> int \<times> ratp_internal \<times> 's" where
  "ratp_behaviour_d2 rs =
     (case rs of (ri, s) \<Rightarrow>
        if \<not> flag (hdr_of (recvbuf ri)) RATP_CONTROL_RST then (0, ri, s)
        else (0, ratp_state_change (ri\<lparr>status := - ECONNRESET, sendbuf_len := 0\<rparr>) RATP_STATE_CLOSED, s))"

definition ratp_behaviour_d3 :: "ratp_internal \<times> 's \<Rightarrow> int \<times> ratp_internal \<times> 's" where
  "ratp_behaviour_d3 rs =
     (case rs of (ri, s) \<Rightarrow>
        if \<not> flag (hdr_of (recvbuf ri)) RATP_CONTROL_RST then (0, ri, s)
        else (1, ratp_state_change ri RATP_STATE_CLOSED, s))"

definition ratp_behaviour_e :: "'s ratp_ops \<Rightarrow> ratp_internal \<times> 's \<Rightarrow> int \<times> ratp_internal \<times> 's" where
  "ratp_behaviour_e ops rs =
     (let hdr = hdr_of (recvbuf (fst rs))
      in if \<not> flag hdr RATP_CONTROL_SYN then (0, rs)
         else (let ri = (fst rs)\<lparr>status := - ECONNRESET\<rparr>;
                   c = (if flag hdr RATP_CONTROL_ACK
                        then RATP_CONTROL_RST OR ratp_set_sn (ratp_an hdr) else RATP_CONTROL_RST)
               in case snd (ratp_send_hdr ops (ri, snd rs) c) of (ri, s) \<Rightarrow>
                    (1, ratp_state_change (ri\<lparr>sendbuf_len := 0\<rparr>) RATP_STATE_CLOSED, s)))"

definition ratp_behaviour_f1 :: "'s ratp_ops \<Rightarrow> ratp_internal \<times> 's \<Rightarrow> int \<times> ratp_internal \<times> 's" where
  "ratp_behaviour_f1 ops rs =
     (case rs of (ri, s) \<Rightarrow>
        (let hdr = hdr_of (recvbuf ri)
         in if \<not> flag hdr RATP_CONTROL_ACK then (1, ri, s)
            else if ratp_an_expected ri hdr then (0, ri\<lparr>sendbuf_len := 0\<rparr>, s)
            else (case snd (ratp_send_hdr ops (ri, s) (RATP_CONTROL_RST OR ratp_set_sn (ratp_an hdr))) of
                    (ri, s) \<Rightarrow>
                      if active ri
                      then (1, (ratp_state_change ri RATP_STATE_CLOSED)\<lparr>status := - ECONNREFUSED\<rparr>, s)
                      else (1, ratp_state_change ri RATP_STATE_LISTEN, s))))"

definition ratp_behaviour_f2 :: "'s ratp_ops \<Rightarrow> ratp_internal \<times> 's \<Rightarrow> int \<times> ratp_internal \<times> 's" where
  "ratp_behaviour_f2 ops rs =
     (case rs of (ri, s) \<Rightarrow>
        (let hdr = hdr_of (recvbuf ri)
         in if \<not> flag hdr RATP_CONTROL_ACK then (1, ri, s)
            else if ratp_an_expected ri hdr then
              (case (case sendmsg_current ri of
                       None \<Rightarrow> (ri, s)
                     | Some msg \<Rightarrow> ratp_msg_done ops (ri, s) msg 0) of
                 (ri, s) \<Rightarrow> (0, ri\<lparr>sendmsg_current := None, sendbuf_len := 0\<rparr>, s))
            else (0, ri, s)))"

definition ratp_behaviour_f3 :: "ratp_internal \<times> 's \<Rightarrow> int \<times> ratp_internal \<times> 's" where
  "ratp_behaviour_f3 rs =
     (if \<not> flag (hdr_of (recvbuf (fst rs))) RATP_CONTROL_ACK then (1, rs) else (0, rs))"

definition ratp_behaviour_g :: "'s ratp_ops \<Rightarrow> ratp_internal \<times> 's \<Rightarrow> ratp_internal \<times> 's" where
  "ratp_behaviour_g ops rs =
     (let hdr = hdr_of (recvbuf (fst rs))
      in if flag hdr RATP_CONTROL_RST then rs
         else (let c = (if flag hdr RATP_CONTROL_ACK
                        then RATP_CONTROL_RST OR ratp_set_sn (ratp_an hdr)
                        else RATP_CONTROL_RST OR ratp_set_next_an (ratp_sn hdr) OR RATP_CONTROL_ACK)
               in snd (ratp_send_hdr ops rs c)))"

text \<open>The receive queue: the length field decides what is copied from the buffer.\<close>

definition msg_recv :: "ratp_internal \<Rightarrow> ratp_internal" where
  "msg_recv ri =
     (let hdr = hdr_of (recvbuf ri);
          buf = (if data_length hdr \<noteq> 0 then subbuf 4 (unat (data_length hdr)) (recvbuf ri)
                 else [data_length hdr])
      in ri\<lparr>recvmsg := recvmsg ri
           @ [\<lparr>m_data = buf, m_eor = flag hdr RATP_CONTROL_EOR, m_complete = None\<rparr>]\<rparr>)"

definition ratp_behaviour_i1 :: "'s ratp_ops \<Rightarrow> ratp_internal \<times> 's \<Rightarrow> int \<times> ratp_internal \<times> 's" where
  "ratp_behaviour_i1 ops rs =
     (case rs of (ri, s) \<Rightarrow>
        (let hdr = hdr_of (recvbuf ri)
         in if \<not> ratp_has_data hdr then (1, ri, s)
            else (let ri = msg_recv (ri\<lparr>sn_received := ratp_sn hdr\<rparr>)
                  in if sendmsg ri = [] \<or> sendmsg_current ri \<noteq> None
                     then (0, snd (ratp_send_ack ops (ri, s) hdr))
                     else (0, snd (ratp_send_next_data ops (ri, s))))))"

definition ratp_behaviour_h1 :: "'s ratp_ops \<Rightarrow> ratp_internal \<times> 's \<Rightarrow> int \<times> ratp_internal \<times> 's" where
  "ratp_behaviour_h1 ops rs =
     (case rs of (ri, s) \<Rightarrow> ratp_behaviour_i1 ops (ratp_state_change ri RATP_STATE_ESTABLISHED, s))"

definition ratp_behaviour_h2 :: "'s ratp_ops \<Rightarrow> ratp_internal \<times> 's \<Rightarrow> int \<times> ratp_internal \<times> 's" where
  "ratp_behaviour_h2 ops rs =
     (let hdr = hdr_of (recvbuf (fst rs))
      in if \<not> flag hdr RATP_CONTROL_FIN then (0, rs)
         else (let ri = (fst rs)\<lparr>status := - ENETDOWN\<rparr>;
                   c = ratp_set_sn (ratp_an hdr) OR ratp_set_next_an (ratp_sn hdr)
                         OR RATP_CONTROL_FIN OR RATP_CONTROL_ACK
               in case snd (ratp_send_hdr ops (ri, snd rs) c) of (ri, s) \<Rightarrow>
                    (1, (ratp_state_change ri RATP_STATE_LAST_ACK)\<lparr>sn_received := ratp_sn hdr\<rparr>, s)))"

definition ratp_behaviour_h3 :: "'s ratp_ops \<Rightarrow> ratp_internal \<times> 's \<Rightarrow> int \<times> ratp_internal \<times> 's" where
  "ratp_behaviour_h3 ops rs =
     (let hdr = hdr_of (recvbuf (fst rs))
      in if \<not> flag hdr RATP_CONTROL_FIN then (1, rs)
         else if ratp_has_data hdr then
           (let c = ratp_set_sn (ratp_an hdr) OR ratp_set_next_an (ratp_sn hdr)
                      OR RATP_CONTROL_RST OR RATP_CONTROL_ACK
            in case snd (ratp_send_hdr ops rs c) of (ri, s) \<Rightarrow>
                 (1, ratp_state_change (ri\<lparr>status := - ECONNRESET, sendbuf_len := 0\<rparr>) RATP_STATE_CLOSED, s))
         else
           (let c = ratp_set_sn (ratp_an hdr) OR ratp_set_next_an (ratp_sn hdr) OR RATP_CONTROL_ACK;
                expected = ratp_an_expected (fst rs) hdr
            in case snd (ratp_send_hdr ops rs c) of (ri, s) \<Rightarrow>
                 if expected
                 then (1, ratp_start_time_wait_timer ops (ratp_state_change ri RATP_STATE_TIME_WAIT, s))
                 else (1, ratp_state_change ri RATP_STATE_CLOSING, s)))"

definition ratp_behaviour_h4 :: "ratp_internal \<times> 's \<Rightarrow> int \<times> ratp_internal \<times> 's" where
  "ratp_behaviour_h4 rs =
     (case rs of (ri, s) \<Rightarrow>
        if ratp_an_expected ri (hdr_of (recvbuf ri))
        then (1, ratp_state_change (ri\<lparr>sendbuf_len := 0\<rparr>) RATP_STATE_CLOSED, s)
        else (1, ri, s))"

definition ratp_behaviour_h5 :: "'s ratp_ops \<Rightarrow> ratp_internal \<times> 's \<Rightarrow> int \<times> ratp_internal \<times> 's" where
  "ratp_behaviour_h5 ops rs =
     (case rs of (ri, s) \<Rightarrow>
        if ratp_an_expected ri (hdr_of (recvbuf ri))
        then (0, ratp_start_time_wait_timer ops
               (ratp_state_change (ri\<lparr>sendbuf_len := 0\<rparr>) RATP_STATE_TIME_WAIT, s))
        else (0, ri, s))"

definition ratp_behaviour_h6 :: "'s ratp_ops \<Rightarrow> ratp_internal \<times> 's \<Rightarrow> int \<times> ratp_internal \<times> 's" where
  "ratp_behaviour_h6 ops rs =
     (let hdr = hdr_of (recvbuf (fst rs))
      in if \<not> flag hdr RATP_CONTROL_ACK then (1, rs)
         else if \<not> flag hdr RATP_CONTROL_FIN then (1, rs)
         else (let c = ratp_set_next_sn (ratp_an hdr) OR RATP_CONTROL_ACK
               in (0, ratp_start_time_wait_timer ops (snd (ratp_send_hdr ops rs c)))))"

text \<open>The table of the RFC: the procedures of a state run in turn until one of them ends the
  processing.\<close>

fun ratp_run ::
  "(ratp_internal \<times> 's \<Rightarrow> int \<times> ratp_internal \<times> 's) list \<Rightarrow> ratp_internal \<times> 's \<Rightarrow> int \<times> ratp_internal \<times> 's" where
  "ratp_run [] rs = (0, rs)"
| "ratp_run (f # fs) rs = (case f rs of (ret, rs) \<Rightarrow> if ret \<noteq> 0 then (ret, rs) else ratp_run fs rs)"

definition ratp_state_machine :: "'s ratp_ops \<Rightarrow> ratp_internal \<times> 's \<Rightarrow> int \<times> ratp_internal \<times> 's" where
  "ratp_state_machine ops rs =
     (case r_state (fst rs) of
        RATP_STATE_LISTEN \<Rightarrow> (0, ratp_behaviour_a ops rs)
      | RATP_STATE_SYN_SENT \<Rightarrow> (0, ratp_behaviour_b ops rs)
      | RATP_STATE_SYN_RECEIVED \<Rightarrow>
          ratp_run [ratp_behaviour_c1 ops, ratp_behaviour_d1, ratp_behaviour_e ops,
            ratp_behaviour_f1 ops, ratp_behaviour_h1 ops] rs
      | RATP_STATE_ESTABLISHED \<Rightarrow>
          ratp_run [ratp_behaviour_c2 ops, ratp_behaviour_d2, ratp_behaviour_e ops,
            ratp_behaviour_f2 ops, ratp_behaviour_h2 ops, ratp_behaviour_i1 ops] rs
      | RATP_STATE_FIN_WAIT \<Rightarrow>
          ratp_run [ratp_behaviour_c2 ops, ratp_behaviour_d2, ratp_behaviour_e ops,
            ratp_behaviour_f3, ratp_behaviour_h3 ops] rs
      | RATP_STATE_LAST_ACK \<Rightarrow>
          ratp_run [ratp_behaviour_c2 ops, ratp_behaviour_d3, ratp_behaviour_e ops,
            ratp_behaviour_f3, ratp_behaviour_h4] rs
      | RATP_STATE_CLOSING \<Rightarrow>
          ratp_run [ratp_behaviour_c2 ops, ratp_behaviour_d3, ratp_behaviour_e ops,
            ratp_behaviour_f3, ratp_behaviour_h5 ops] rs
      | RATP_STATE_TIME_WAIT \<Rightarrow>
          ratp_run [ratp_behaviour_d3, ratp_behaviour_e ops, ratp_behaviour_f3,
            ratp_behaviour_h6 ops] rs
      | RATP_STATE_CLOSED \<Rightarrow> (0, ratp_behaviour_g ops rs))"

section \<open>Polling\<close>

text \<open>What happens to a received packet: outside the time-wait period it goes through the state
  machine. A negative result ends the poll.\<close>

definition ratp_poll_packet :: "'s ratp_ops \<Rightarrow> ratp_internal \<times> 's \<Rightarrow> int \<times> ratp_internal \<times> 's" where
  "ratp_poll_packet ops rs =
     (case rs of (ri, s) \<Rightarrow>
        (case (if r_state ri = RATP_STATE_TIME_WAIT
               then is_timeout ops s (timewait_timer_start ri) (of_int (srtt ri * 2) * MSECOND)
               else (False, s)) of
           (expired, s) \<Rightarrow>
             if expired then (- ECONNRESET, ri, s)
             else (case ratp_state_machine ops (ri, s) of (ret, ri, s) \<Rightarrow>
                     if ret < 0 then (ret, ri, s)
                     else if status ri < 0 then (status ri, ri, s)
                     else (0, ri, s))))"

definition ratp_retransmit :: "'s ratp_ops \<Rightarrow> ratp_internal \<times> 's \<Rightarrow> int \<times> ratp_internal \<times> 's" where
  "ratp_retransmit ops rs =
     (case rs of (ri, s) \<Rightarrow>
        (case (if sendbuf_len ri \<noteq> 0
               then is_timeout ops s (retransmission_timer_start ri) (of_int (rto ri) * MSECOND)
               else (False, s)) of
           (expired, s) \<Rightarrow>
             if \<not> expired then (0, ri, s)
             else (let ri = ri\<lparr>retransmission_count := retransmission_count ri + 1\<rparr>
                   in if retransmission_count ri = max_retransmission ri
                      then (- ETIMEDOUT, ri\<lparr>status := - ETIMEDOUT, r_state := RATP_STATE_CLOSED\<rparr>, s)
                      else (case op_time ops s of (now, s) \<Rightarrow>
                              (let ri = ri\<lparr>retransmission_timer_start := now\<rparr>
                               in case op_send ops s (take (sendbuf_len ri) (sendbuf ri)) of (ret, s) \<Rightarrow>
                                    (ret, ri, s))))))"

definition ratp_poll_next :: "'s ratp_ops \<Rightarrow> ratp_internal \<times> 's \<Rightarrow> ratp_internal \<times> 's" where
  "ratp_poll_next ops rs =
     (if sendbuf_len (fst rs) = 0 \<and> sendmsg (fst rs) \<noteq> [] then snd (ratp_send_next_data ops rs) else rs)"

definition ratp_poll_rest :: "'s ratp_ops \<Rightarrow> int \<Rightarrow> ratp_internal \<times> 's \<Rightarrow> int \<times> ratp_internal \<times> 's" where
  "ratp_poll_rest ops ret rs =
     (case (if ret = 0 then ratp_poll_packet ops rs else (0, rs)) of (ret, rs) \<Rightarrow>
        if ret < 0 then (ret, rs)
        else (case ratp_retransmit ops rs of (ret, rs) \<Rightarrow>
                if ret \<noteq> 0 then (ret, rs) else (0, ratp_poll_next ops rs)))"

definition ratp_poll_internal ::
  "'s ratp_ops \<Rightarrow> ratp_internal \<times> 's \<Rightarrow> (int \<times> ratp_internal \<times> 's) option" where
  "ratp_poll_internal ops rs =
     do { (ret, rs) \<leftarrow> ratp_recv_pkt ops ((fst rs)\<lparr>in_ratp := in_ratp (fst rs) + 1\<rparr>, snd rs) 100;
          (case ratp_poll_rest ops ret rs of (ret, ri, s) \<Rightarrow>
             Some (ret, ri\<lparr>in_ratp := in_ratp ri - 1\<rparr>, s)) }"

definition ratp_poll ::
  "'s ratp_ops \<Rightarrow> ratp_internal option \<times> 's \<Rightarrow> (int \<times> ratp_internal option \<times> 's) option" where
  "ratp_poll ops link =
     (case link of
        (None, s) \<Rightarrow> Some (- ENETDOWN, None, s)
      | (Some ri, s) \<Rightarrow>
          do { (ret, ri, s) \<leftarrow> ratp_poll_internal ops (ri, s); Some (ret, Some ri, s) })"

section \<open>The interface of the protocol\<close>

definition ratp_new :: "bool \<Rightarrow> bytes \<Rightarrow> bytes \<Rightarrow> ratp_internal" where
  "ratp_new act rbuf sbuf =
     \<lparr>r_state = RATP_STATE_LISTEN, sn_sent = False, sn_received = False, active = act, recvbuf = rbuf,
      sendbuf = sbuf, sendbuf_len = 0, recvmsg = [], sendmsg = [], sendmsg_current = None,
      timewait_timer_start = 0, retransmission_timer_start = 0, max_retransmission = 100,
      retransmission_count = 0, srtt = 100, rto = 200, status = 0, in_ratp = 0\<rparr>"

partial_function (option) ratp_establish_loop ::
  "'s ratp_ops \<Rightarrow> ratp_internal \<times> 's \<Rightarrow> u64 \<Rightarrow> nat \<Rightarrow> (int \<times> ratp_internal \<times> 's) option" where
  "ratp_establish_loop ops rs start timeout_ms =
     do { (ret, ri, s) \<leftarrow> ratp_poll_internal ops rs;
          if ret < 0 then Some (ret, ri, s)
          else if r_state ri = RATP_STATE_ESTABLISHED then Some (0, ri, s)
          else (case (if timeout_ms \<noteq> 0 then is_timeout ops s start (MSECOND * of_nat timeout_ms)
                      else (False, s)) of
                  (expired, s) \<Rightarrow>
                    if expired then Some (- ETIMEDOUT, ri, s)
                    else ratp_establish_loop ops (ri, s) start timeout_ms) }"

declare ratp_establish_loop.simps [code]

text \<open>The two buffers of 512 bytes come uninitialised from the allocator; their content is an
  argument.\<close>

definition ratp_establish ::
  "'s ratp_ops \<Rightarrow> 's \<Rightarrow> bytes \<Rightarrow> bytes \<Rightarrow> bool \<Rightarrow> nat \<Rightarrow> (int \<times> ratp_internal option \<times> 's) option" where
  "ratp_establish ops s rbuf sbuf act timeout_ms =
     (let ri = (ratp_new act rbuf sbuf)\<lparr>in_ratp := 1\<rparr>;
          (ri, s) = (if act then (case snd (ratp_send_hdr ops (ri, s) RATP_CONTROL_SYN) of (ri, s) \<Rightarrow>
                                    (ratp_state_change ri RATP_STATE_SYN_SENT, s))
                     else (ri, s))
      in case op_time ops s of (start, s) \<Rightarrow>
           do { (ret, ri, s) \<leftarrow> ratp_establish_loop ops (ri, s) start timeout_ms;
                let ri = ri\<lparr>in_ratp := in_ratp ri - 1\<rparr>;
                Some (ret, if ret \<noteq> 0 then None else Some ri, s) })"

partial_function (option) ratp_close_loop ::
  "'s ratp_ops \<Rightarrow> ratp_internal \<times> 's \<Rightarrow> u64 \<Rightarrow> (ratp_internal \<times> 's) option" where
  "ratp_close_loop ops rs start =
     (case is_timeout ops (snd rs) start (of_int (srtt (fst rs)) * MSECOND * 2) of (expired, s) \<Rightarrow>
        if expired then Some (fst rs, s)
        else do { (ret, ri, s) \<leftarrow> ratp_poll_internal ops (fst rs, s);
                  ratp_close_loop ops (ri, s) start })"

declare ratp_close_loop.simps [code]

definition ratp_close :: "'s ratp_ops \<Rightarrow> ratp_internal option \<times> 's \<Rightarrow> (ratp_internal option \<times> 's) option" where
  "ratp_close ops link =
     (case link of
        (None, s) \<Rightarrow> Some (None, s)
      | (Some ri, s) \<Rightarrow>
          do { (ri, s) \<leftarrow>
                 (if r_state ri = RATP_STATE_ESTABLISHED \<or> r_state ri = RATP_STATE_SYN_RECEIVED then
                    (let ri = ratp_state_change ri RATP_STATE_FIN_WAIT;
                         c = ratp_set_next_sn (sn_sent ri) OR ratp_set_next_an (sn_received ri)
                               OR RATP_CONTROL_FIN OR RATP_CONTROL_ACK;
                         (ri, s) = snd (ratp_send_pkt ops (ri, s) (hdr_bytes (ratp_create_packet c 0)))
                     in case op_time ops s of (start, s) \<Rightarrow> ratp_close_loop ops (ri, s) start)
                  else Some (ri, s));
               Some (None, snd (fold (\<lambda>msg rs. ratp_msg_done ops rs msg (- ECONNRESET)) (sendmsg ri) (ri, s))) })"

text \<open>Messages are cut into packets of at most 255 bytes; the last one carries the end of
  record mark and the callback.\<close>

function ratp_split :: "bytes \<Rightarrow> nat option \<Rightarrow> ratp_message list" where
  "ratp_split data complete =
     (let now = min (length data) 255
      in if length data \<le> 255 then [\<lparr>m_data = data, m_eor = True, m_complete = complete\<rparr>]
         else \<lparr>m_data = take now data, m_eor = False, m_complete = None\<rparr> # ratp_split (drop now data) complete)"
  by pat_completeness auto

termination
  by (relation "measure (\<lambda>(data, complete). length data)") auto

declare ratp_split.simps [simp del]

definition ratp_send_complete :: "ratp_internal option \<Rightarrow> bytes \<Rightarrow> nat option \<Rightarrow> int \<times> ratp_internal option" where
  "ratp_send_complete link data complete =
     (case link of
        None \<Rightarrow> (- ENETDOWN, None)
      | Some ri \<Rightarrow>
          if r_state ri \<noteq> RATP_STATE_ESTABLISHED then (- ENETDOWN, Some ri)
          else if data = [] then (- EINVAL, Some ri)
          else (0, Some (ri\<lparr>sendmsg := sendmsg ri @ ratp_split data complete\<rparr>)))"

definition ratp_send :: "ratp_internal option \<Rightarrow> bytes \<Rightarrow> int \<times> ratp_internal option" where
  "ratp_send link data = ratp_send_complete link data None"

text \<open>The first loop of \<^verbatim>\<open>ratp_recv\<close> adds up the lengths to the first end of record; the second
  copies every queued message into the buffer of that size. A copy that leaves the buffer is
  \<open>None\<close>.\<close>

fun ratp_record_len :: "ratp_message list \<Rightarrow> nat option" where
  "ratp_record_len [] = None"
| "ratp_record_len (msg # msgs) =
     (if m_eor msg then Some (length (m_data msg))
      else map_option (\<lambda>n. length (m_data msg) + n) (ratp_record_len msgs))"

fun ratp_copy_msgs :: "bytes \<Rightarrow> nat \<Rightarrow> ratp_message list \<Rightarrow> bytes option" where
  "ratp_copy_msgs data pos [] = Some data"
| "ratp_copy_msgs data pos (msg # msgs) =
     do { data \<leftarrow> memcpy_to data pos (m_data msg);
          ratp_copy_msgs data (pos + length (m_data msg)) msgs }"

definition ratp_recv :: "ratp_internal option \<Rightarrow> (int \<times> bytes \<times> ratp_internal option) option" where
  "ratp_recv link =
     (case link of
        None \<Rightarrow> Some (- ENETDOWN, [], None)
      | Some ri \<Rightarrow>
          if r_state ri \<noteq> RATP_STATE_ESTABLISHED then Some (- ENETDOWN, [], Some ri)
          else (case ratp_record_len (recvmsg ri) of
                  None \<Rightarrow> Some (- EAGAIN, [], Some ri)
                | Some len \<Rightarrow>
                    do { data \<leftarrow> ratp_copy_msgs (replicate len 0) 0 (recvmsg ri);
                         Some (0, data, Some (ri\<lparr>recvmsg := []\<rparr>)) }))"

definition ratp_closed :: "ratp_internal option \<Rightarrow> bool" where
  "ratp_closed link = (case link of None \<Rightarrow> True | Some ri \<Rightarrow> r_state ri = RATP_STATE_CLOSED)"

definition ratp_busy :: "ratp_internal option \<Rightarrow> bool" where
  "ratp_busy link = (case link of None \<Rightarrow> False | Some ri \<Rightarrow> in_ratp ri \<noteq> 0)"

section \<open>Packets on the line\<close>

lemma hdr_of_bytes [simp]: "hdr_of (hdr_bytes h @ rest) = h"
  by (simp add: hdr_of_def hdr_bytes_def)

lemma hdr_of_bytes' [simp]: "hdr_of (hdr_bytes h) = h"
  by (simp add: hdr_of_def hdr_bytes_def)

lemma length_hdr_bytes [simp]: "length (hdr_bytes h) = 4"
  by (simp add: hdr_bytes_def)

lemma complement_sum: "(x :: u8) + (x XOR 0xff) = 0xff"
proof -
  have "(0xff :: u8) = - 1" by simp
  then show ?thesis by (simp only: bit.xor_one_right not_eq_complement) simp
qed

lemma create_packet_ok [simp]: "ratp_header_ok (ratp_create_packet c len)"
  using complement_sum [of "c + len"] by (simp add: ratp_header_ok_def ratp_create_packet_def)

text \<open>The header checksum accepts every header that is created and rejects every damage to
  a single byte of it: if one of control, length and checksum differs from an accepted header,
  the header is refused.\<close>

theorem header_checksum_detects:
  assumes "ratp_header_ok h" and "h' \<noteq> h"
    and "h' = h\<lparr>control := x\<rparr> \<or> h' = h\<lparr>data_length := x\<rparr> \<or> h' = h\<lparr>cksum := x\<rparr>"
  shows "\<not> ratp_header_ok h' \<and> ratp_header_ok (ratp_create_packet (control h) (data_length h))"
proof (intro conjI notI create_packet_ok)
  assume ok': "ratp_header_ok h'"
  have sum: "control h' + data_length h' + cksum h' = control h + data_length h + cksum h"
    using assms(1) ok' unfolding ratp_header_ok_def by (rule trans [OF _ sym, rotated])
  from assms(3) have "h' = h"
  proof (elim disjE)
    assume "h' = h\<lparr>control := x\<rparr>"
    with sum show ?thesis by (cases h) (simp only: add_right_cancel ratp_header.simps)
  next
    assume "h' = h\<lparr>data_length := x\<rparr>"
    with sum show ?thesis by (cases h) (simp only: add_right_cancel add_left_cancel ratp_header.simps)
  next
    assume "h' = h\<lparr>cksum := x\<rparr>"
    with sum show ?thesis by (cases h) (simp only: add_left_cancel ratp_header.simps)
  qed
  with assms(2) show False ..
qed

theorem header_checksum_detects_witness:
  "\<not> ratp_header_ok \<lparr>synch = 1, control = 0x40, data_length = 1, cksum = 0xbf\<rparr>"
proof -
  let ?h = "ratp_create_packet 0x40 0"
  have eq: "?h\<lparr>data_length := 1\<rparr> = \<lparr>synch = 1, control = 0x40, data_length = 1, cksum = 0xbf\<rparr>"
    by (simp add: ratp_create_packet_def)
  have ne: "?h\<lparr>data_length := 1\<rparr> \<noteq> ?h" by (simp add: ratp_create_packet_def)
  show ?thesis
    using header_checksum_detects [OF create_packet_ok ne, of 1] eq by simp
qed

end
