(* ===== verification/Ratp_Wire.thy ===== *)
theory Ratp_Wire
  imports Ratp
begin

text \<open>
  Packets on a serial line. The protocol relies on little of the line and of the clock: a
  character that has arrived is delivered, an idle line answers \<open>- EAGAIN\<close>, neither
  receiving nor reading the time sends anything, and waiting ends. The locale
  \<open>serial_line\<close> states this contract; from it follow that every reception returns, and that
  the packet of a message is taken from the line unchanged, whatever noise came before it.
\<close>

section \<open>Shape of a data packet\<close>

abbreviation (input) plain_control :: "u8 \<Rightarrow> bool" where
  "plain_control c \<equiv> c AND 0xb1 = 0"

text \<open>A control byte is plain if none of the flags single octet, reset, synchronise and finish is
  set. \<open>msg_control\<close> is the control byte that the packet of a message gets.\<close>

definition msg_control :: "u8 \<Rightarrow> ratp_message \<Rightarrow> u8" where
  "msg_control c msg = (if m_eor msg then c OR RATP_CONTROL_EOR else c)"

lemma plain_msg_control: "plain_control c \<Longrightarrow> plain_control (msg_control c msg)"
  by (simp add: msg_control_def bit.conj_disj_distrib2)

lemma data_packet_long:
  "1 < length (m_data msg) \<Longrightarrow> ratp_data_packet c msg
    = hdr_bytes (ratp_create_packet (msg_control c msg) (of_nat (length (m_data msg))))
      @ m_data msg @ be16 (crc_itu_t 0 (m_data msg))"
  by (simp add: ratp_data_packet_def msg_control_def Let_def)

lemma data_packet_single:
  "m_data msg = [b] \<Longrightarrow> ratp_data_packet c msg
    = hdr_bytes (ratp_create_packet (msg_control c msg OR RATP_CONTROL_SO) b)"
  by (simp add: ratp_data_packet_def msg_control_def Let_def)

lemma create_packet_fields [simp]:
  "synch (ratp_create_packet c len) = 1" "control (ratp_create_packet c len) = c"
  "data_length (ratp_create_packet c len) = len"
  by (simp_all add: ratp_create_packet_def)

lemma flag_created [simp]: "flag (ratp_create_packet c len) k \<longleftrightarrow> c AND k \<noteq> 0"
  by (simp add: flag_def)

lemma unat_len_u8: "n \<le> 255 \<Longrightarrow> unat (of_nat n :: u8) = n"
  by (simp add: unat_of_nat take_bit_nat_eq_self)

lemma so_set: "(x OR RATP_CONTROL_SO) AND 0xb1 \<noteq> (0 :: u8)"
proof -
  have "bit ((x OR RATP_CONTROL_SO) AND 0xb1) 0"
    unfolding bit_and_iff bit_or_iff by simp
  then show ?thesis by (metis bit_0_eq bot_apply bot_bool_def)
qed

section \<open>The contract of a line\<close>

locale serial_line =
  fixes ops :: "'s ratp_ops"
    and ready :: "'s \<Rightarrow> bool"
    and pending :: "'s \<Rightarrow> bytes"
    and sent :: "'s \<Rightarrow> 'o"
    and patience :: "'s \<Rightarrow> u64 \<Rightarrow> u64 \<Rightarrow> nat"
  assumes recv_next: "ready s \<Longrightarrow> pending s = b # bs \<Longrightarrow>
      \<exists>s'. op_recv ops s = (0, b, s') \<and> pending s' = bs \<and> sent s' = sent s \<and> ready s'"
    and recv_idle: "ready s \<Longrightarrow> pending s = [] \<Longrightarrow>
      \<exists>b s'. op_recv ops s = (- EAGAIN, b, s') \<and> pending s' = [] \<and> sent s' = sent s \<and> ready s'
        \<and> (\<forall>start offset. patience s' start offset = patience s start offset)"
    and read_time: "ready s \<Longrightarrow> op_time ops s = (now, s') \<Longrightarrow>
      pending s' = pending s \<and> sent s' = sent s \<and> ready s'"
    and wait_ends: "ready s \<Longrightarrow> is_timeout ops s start offset = (False, s') \<Longrightarrow>
      patience s' start offset < patience s start offset"
begin

lemma timeout_keeps:
  assumes "ready s" and "is_timeout ops s start offset = (expired, s')"
  shows "pending s' = pending s \<and> sent s' = sent s \<and> ready s'"
  using assms read_time [OF assms(1)] by (auto simp: is_timeout_def split: prod.splits)

lemma recv_char_next:
  assumes "ready s" and "pending s = b # bs"
  shows "\<exists>s'. ratp_recv_char ops s t = Some (0, b, s') \<and> pending s' = bs \<and> sent s' = sent s \<and> ready s'"
proof -
  obtain now s1 where time: "op_time ops s = (now, s1)" by fastforce
  with read_time assms have s1: "pending s1 = b # bs" "sent s1 = sent s" "ready s1" by auto
  from recv_next [OF s1(3,1)] obtain s2 where
    "op_recv ops s1 = (0, b, s2)" "pending s2 = bs" "sent s2 = sent s1" "ready s2" by blast
  with s1(2) time show ?thesis
    unfolding ratp_recv_char_def by (subst ratp_recv_char_loop.simps) simp
qed

lemma recv_char_loop_idle:
  assumes "ready s" and "pending s = []"
  shows "\<exists>s'. ratp_recv_char_loop ops s start offset = Some (- EAGAIN, 0, s')
    \<and> pending s' = [] \<and> sent s' = sent s \<and> ready s'"
  using assms
proof (induction "patience s start offset" arbitrary: s rule: less_induct)
  case less
  from recv_idle [OF less.prems] obtain b s1 where recv: "op_recv ops s = (- EAGAIN, b, s1)"
    and s1: "pending s1 = []" "sent s1 = sent s" "ready s1"
    and same: "patience s1 start offset = patience s start offset" by blast
  obtain expired s2 where timeout: "is_timeout ops s1 start offset = (expired, s2)" by fastforce
  with timeout_keeps s1 have s2: "pending s2 = []" "sent s2 = sent s" "ready s2" by auto
  show ?case
  proof (cases expired)
    case True
    with recv timeout s2 show ?thesis by (subst ratp_recv_char_loop.simps) simp
  next
    case False
    with wait_ends [OF s1(3), of start offset s2] timeout same have "patience s2 start offset < patience s start offset" by simp
    with less.hyps [of s2] s2 False recv timeout show ?thesis by (subst ratp_recv_char_loop.simps) simp
  qed
qed

lemma recv_char_idle:
  assumes "ready s" and "pending s = []"
  shows "\<exists>s'. ratp_recv_char ops s t = Some (- EAGAIN, 0, s') \<and> pending s' = [] \<and> sent s' = sent s \<and> ready s'"
proof -
  obtain now s1 where time: "op_time ops s = (now, s1)" by fastforce
  with read_time assms have "pending s1 = []" "sent s1 = sent s" "ready s1" by auto
  with recv_char_loop_idle [of s1] time show ?thesis by (simp add: ratp_recv_char_def)
qed

text \<open>Every reception returns, keeps everything of the endpoint but the content of the receive
  buffer, and sends nothing.\<close>

definition receives :: "ratp_internal \<Rightarrow> 's \<Rightarrow> (int \<times> ratp_internal \<times> 's) option \<Rightarrow> bool" where
  "receives ri s res \<longleftrightarrow> (\<exists>ret buf s'. res = Some (ret, ri\<lparr>recvbuf := buf\<rparr>, s') \<and> ret \<le> 0
     \<and> length buf = length (recvbuf ri) \<and> ready s' \<and> sent s' = sent s)"

lemma receivesI:
  assumes "ret \<le> 0" "length buf = length (recvbuf ri)" "ready s'" "sent s' = sent s"
  shows "receives ri s (Some (ret, ri\<lparr>recvbuf := buf\<rparr>, s'))"
  using assms by (auto simp: receives_def)

lemma receives_stay:
  assumes "ret \<le> 0" "ready s'" "sent s' = sent s"
  shows "receives ri s (Some (ret, ri, s'))"
  using receivesI [of ret "recvbuf ri" ri s' s] assms by simp

lemma receives_cong:
  assumes "receives (ri\<lparr>recvbuf := buf\<rparr>) s1 res" "length buf = length (recvbuf ri)" "sent s1 = sent s"
  shows "receives ri s res"
  using assms by (auto simp: receives_def)

lemma receives_bind:
  assumes "receives ri s res"
    and "\<And>ret buf s'. ret \<le> 0 \<Longrightarrow> length buf = length (recvbuf ri) \<Longrightarrow> ready s' \<Longrightarrow> sent s' = sent s \<Longrightarrow>
      receives (ri\<lparr>recvbuf := buf\<rparr>) s' (k (ret, ri\<lparr>recvbuf := buf\<rparr>, s'))"
  shows "receives ri s (res \<bind> k)"
proof -
  from assms(1) obtain ret buf s' where "res = Some (ret, ri\<lparr>recvbuf := buf\<rparr>, s')" and
    ok: "ret \<le> 0" "length buf = length (recvbuf ri)" "ready s'" "sent s' = sent s"
    by (auto simp: receives_def)
  with assms(2) [OF ok] receives_cong [OF _ ok(2,4)] show ?thesis by simp
qed

lemma recv_char_cases:
  assumes "ready s"
  obtains b s' where "ratp_recv_char ops s t = Some (0, b, s')" "ready s'" "sent s' = sent s"
      "length (pending s') < length (pending s)"
  | s' where "ratp_recv_char ops s t = Some (- EAGAIN, 0, s')" "ready s'" "sent s' = sent s"
  using recv_char_idle [OF assms, of t] recv_char_next [OF assms, of _ _ t]
  by (cases "pending s") fastforce+

lemma recv_synch_returns:
  assumes "ready s"
  shows "receives ri s (ratp_recv_synch ops (ri, s))"
  using assms
proof (induction "length (pending s)" arbitrary: s ri rule: less_induct)
  case less
  from less.prems show ?case
  proof (cases rule: recv_char_cases [where t = 0])
    case (1 b s')
    have "receives (ri\<lparr>recvbuf := (recvbuf ri)[0 := b]\<rparr>) s'
        (ratp_recv_synch ops (ri\<lparr>recvbuf := (recvbuf ri)[0 := b]\<rparr>, s'))"
      by (rule less.hyps [OF 1(4,2)])
    then have "receives ri s (ratp_recv_synch ops (ri\<lparr>recvbuf := (recvbuf ri)[0 := b]\<rparr>, s'))"
      by (rule receives_cong) (simp_all add: 1)
    with 1 show ?thesis by (subst ratp_recv_synch.simps) (simp add: receivesI Let_def)
  next
    case (2 s')
    then show ?thesis by (subst ratp_recv_synch.simps) (simp add: receives_stay)
  qed
qed

lemma recv_bytes_returns:
  assumes "ready s"
  shows "receives ri s (ratp_recv_bytes ops (ri, s) off n t)"
  using assms
proof (induction n arbitrary: s ri off)
  case 0
  then show ?case by (simp add: receives_stay)
next
  case (Suc n)
  from Suc.prems show ?case
  proof (cases rule: recv_char_cases [where t = t])
    case (1 b s')
    have "receives ri s (ratp_recv_bytes ops (ri\<lparr>recvbuf := (recvbuf ri)[off := b]\<rparr>, s') (off + 1) n t)"
      by (rule receives_cong [OF Suc.IH [OF 1(2)]]) (simp_all add: 1)
    with 1 show ?thesis by simp
  next
    case (2 s')
    then show ?thesis by (simp add: receives_stay)
  qed
qed

lemma recv_pkt_returns:
  assumes "ready s"
  shows "receives ri s (ratp_recv_pkt ops (ri, s) t)"
proof -
  have header: "receives ri s (ratp_recv_pkt_header ops (ri, s) t)"
    unfolding ratp_recv_pkt_header_def
    by (rule receives_bind [OF recv_synch_returns [OF assms]])
      (auto simp: receives_stay intro!: receives_bind [OF recv_bytes_returns])
  have data: "receives ri s (ratp_recv_pkt_data ops (ri, s) len t)" if "ready s" for ri s len
    unfolding ratp_recv_pkt_data_def
    by (rule receives_bind [OF recv_bytes_returns [OF that]]) (simp add: receives_stay Let_def)
  show ?thesis
    unfolding ratp_recv_pkt_def
    by (rule receives_bind [OF header]) (simp add: receives_stay data)
qed

text \<open>Characters that have arrived are stored one after the other.\<close>

lemma recv_synch_noise:
  assumes "ready s" and "pending s = noise @ 1 # rest" and "1 \<notin> set noise"
  shows "\<exists>s'. ratp_recv_synch ops (ri, s) = Some (0, ri\<lparr>recvbuf := (recvbuf ri)[0 := 1]\<rparr>, s')
    \<and> pending s' = rest \<and> sent s' = sent s \<and> ready s'"
  using assms
proof (induction noise arbitrary: s ri)
  case Nil
  with recv_char_next [of s 1 rest 0] show ?case by (subst ratp_recv_synch.simps) auto
next
  case (Cons b noise)
  with recv_char_next [of s b "noise @ 1 # rest" 0] obtain s1 where
    s1: "ratp_recv_char ops s 0 = Some (0, b, s1)" "pending s1 = noise @ 1 # rest" "sent s1 = sent s" "ready s1"
    by auto
  with Cons.IH [of s1 "ri\<lparr>recvbuf := (recvbuf ri)[0 := b]\<rparr>"] Cons.prems(3) s1 show ?case
    by (subst ratp_recv_synch.simps) auto
qed

lemma recv_bytes_arrived:
  assumes "ready s" and "pending s = bs @ rest" and "off + length bs \<le> length (recvbuf ri)"
  shows "\<exists>s'. ratp_recv_bytes ops (ri, s) off (length bs) t
      = Some (0, ri\<lparr>recvbuf := take off (recvbuf ri) @ bs @ drop (off + length bs) (recvbuf ri)\<rparr>, s')
    \<and> pending s' = rest \<and> sent s' = sent s \<and> ready s'"
  using assms
proof (induction bs arbitrary: ri s off)
  case Nil
  then show ?case by simp
next
  case (Cons b bs)
  define ri1 where "ri1 = ri\<lparr>recvbuf := (recvbuf ri)[off := b]\<rparr>"
  from Cons.prems recv_char_next [of s b "bs @ rest" t] obtain s1 where
    s1: "ratp_recv_char ops s t = Some (0, b, s1)" "pending s1 = bs @ rest" "sent s1 = sent s" "ready s1"
    by auto
  have take1: "take (off + 1) (recvbuf ri1) = take off (recvbuf ri) @ [b]"
    using Cons.prems(3) by (simp add: ri1_def take_Suc_conv_app_nth)
  have drop1: "drop (off + 1 + length bs) (recvbuf ri1) = drop (off + length (b # bs)) (recvbuf ri)"
    by (simp add: ri1_def)
  have "off + 1 + length bs \<le> length (recvbuf ri1)" using Cons.prems(3) by (simp add: ri1_def)
  with Cons.IH [OF s1(4,2), of "off + 1" ri1] obtain s2 where
    "ratp_recv_bytes ops (ri1, s1) (off + 1) (length bs) t
      = Some (0, ri1\<lparr>recvbuf := take off (recvbuf ri) @ (b # bs) @ drop (off + length (b # bs)) (recvbuf ri)\<rparr>, s2)"
    "pending s2 = rest" "sent s2 = sent s" "ready s2"
    unfolding take1 drop1 s1(3) by auto
  with s1 show ?case by (simp add: ri1_def)
qed

lemma recv_pkt_header_arrived:
  assumes "ready s" and "pending s = noise @ hdr_bytes h @ rest" and "1 \<notin> set noise"
    and "synch h = 1" and "ratp_header_ok h" and "4 \<le> length (recvbuf ri)"
  shows "\<exists>s'. ratp_recv_pkt_header ops (ri, s) t
      = Some (0, ri\<lparr>recvbuf := hdr_bytes h @ drop 4 (recvbuf ri)\<rparr>, s')
    \<and> pending s' = rest \<and> sent s' = sent s \<and> ready s'"
proof -
  define bs where "bs = [control h, data_length h, cksum h]"
  define ri1 where "ri1 = ri\<lparr>recvbuf := (recvbuf ri)[0 := 1]\<rparr>"
  have "pending s = noise @ 1 # bs @ rest" using assms(2,4) by (simp add: bs_def hdr_bytes_def)
  from recv_synch_noise [OF assms(1) this assms(3), of ri] obtain s1 where
    s1: "ratp_recv_synch ops (ri, s) = Some (0, ri1, s1)" "pending s1 = bs @ rest" "sent s1 = sent s" "ready s1"
    by (auto simp: ri1_def)
  have len: "length bs = 3" "1 + (3 :: nat) = 4" by (simp_all add: bs_def)
  have buf: "take 1 (recvbuf ri1) @ bs @ drop 4 (recvbuf ri1) = hdr_bytes h @ drop 4 (recvbuf ri)"
    using assms(4,6) by (cases "recvbuf ri") (simp_all add: ri1_def bs_def hdr_bytes_def)
  have upd: "ri1\<lparr>recvbuf := x\<rparr> = ri\<lparr>recvbuf := x\<rparr>" for x by (simp add: ri1_def)
  have "1 + length bs \<le> length (recvbuf ri1)" using assms(6) by (simp add: len ri1_def)
  from recv_bytes_arrived [OF s1(4,2) this, of t] obtain s2 where
    "ratp_recv_bytes ops (ri1, s1) 1 3 t = Some (0, ri\<lparr>recvbuf := hdr_bytes h @ drop 4 (recvbuf ri)\<rparr>, s2)"
    "pending s2 = rest" "sent s2 = sent s" "ready s2"
    unfolding len buf upd s1(3) by blast
  with s1(1) assms(5) show ?thesis by (simp add: ratp_recv_pkt_header_def)
qed

lemma recv_pkt_bare:
  assumes "ready s" and "pending s = noise @ hdr_bytes h @ rest" and "1 \<notin> set noise"
    and "synch h = 1" and "ratp_header_ok h" and "4 \<le> length (recvbuf ri)"
    and "flag h (RATP_CONTROL_SO OR RATP_CONTROL_RST OR RATP_CONTROL_SYN OR RATP_CONTROL_FIN)
      \<or> data_length h = 0"
  shows "\<exists>s'. ratp_recv_pkt ops (ri, s) t = Some (0, ri\<lparr>recvbuf := hdr_bytes h @ drop 4 (recvbuf ri)\<rparr>, s')
    \<and> pending s' = rest \<and> sent s' = sent s \<and> ready s'"
  using recv_pkt_header_arrived [OF assms(1-6), of t] assms(7) by (auto simp: ratp_recv_pkt_def)

lemma recv_pkt_full:
  assumes "ready s" and "pending s = noise @ hdr_bytes h @ data @ be16 (crc_itu_t 0 data) @ rest" and "1 \<notin> set noise"
    and "synch h = 1" and "ratp_header_ok h" and "6 + length data \<le> length (recvbuf ri)"
    and "\<not> flag h (RATP_CONTROL_SO OR RATP_CONTROL_RST OR RATP_CONTROL_SYN OR RATP_CONTROL_FIN)"
    and "unat (data_length h) = length data" and "data \<noteq> []"
  shows "\<exists>s'. ratp_recv_pkt ops (ri, s) t
      = Some (0, ri\<lparr>recvbuf := hdr_bytes h @ data @ be16 (crc_itu_t 0 data) @ drop (6 + length data) (recvbuf ri)\<rparr>, s')
    \<and> pending s' = rest \<and> sent s' = sent s \<and> ready s'"
proof -
  define bs where "bs = data @ be16 (crc_itu_t 0 data)"
  define ri1 where "ri1 = ri\<lparr>recvbuf := hdr_bytes h @ drop 4 (recvbuf ri)\<rparr>"
  have room: "4 \<le> length (recvbuf ri)" using assms(6) by simp
  have "pending s = noise @ hdr_bytes h @ bs @ rest" using assms(2) by (simp add: bs_def)
  from recv_pkt_header_arrived [OF assms(1) this assms(3-5) room, of t] obtain s1 where
    s1: "ratp_recv_pkt_header ops (ri, s) t = Some (0, ri1, s1)" "pending s1 = bs @ rest" "sent s1 = sent s" "ready s1"
    by (auto simp: ri1_def)
  have len: "length bs = unat (data_length h) + 2" "4 + length bs = 6 + length data"
    using assms(8) by (simp_all add: bs_def)
  have buf: "take 4 (recvbuf ri1) @ bs @ drop (6 + length data) (recvbuf ri1)
      = hdr_bytes h @ data @ be16 (crc_itu_t 0 data) @ drop (6 + length data) (recvbuf ri)" (is "_ = ?buf")
    using assms(6) by (simp add: ri1_def bs_def)
  have upd: "ri1\<lparr>recvbuf := x\<rparr> = ri\<lparr>recvbuf := x\<rparr>" for x by (simp add: ri1_def)
  have "4 + length bs \<le> length (recvbuf ri1)" using assms(6) by (simp add: bs_def ri1_def)
  from recv_bytes_arrived [OF s1(4,2) this, of t] obtain s2 where
    s2: "ratp_recv_bytes ops (ri1, s1) 4 (unat (data_length h) + 2) t = Some (0, ri\<lparr>recvbuf := ?buf\<rparr>, s2)"
    "pending s2 = rest" "sent s2 = sent s" "ready s2"
    unfolding len(2) unfolding len(1) buf upd s1(3) by blast
  have "hdr_of (recvbuf ri1) = h" by (simp add: ri1_def)
  moreover have "subbuf 4 (unat (data_length h)) ?buf = data"
      "subbuf (4 + unat (data_length h)) 2 ?buf = be16 (crc_itu_t 0 data)"
    using assms(8) by (simp_all add: subbuf_def)
  moreover have "data_length h \<noteq> 0" using assms(8,9) by auto
  ultimately show ?thesis using s1(1) s2 assms(7)
    by (simp add: ratp_recv_pkt_def ratp_recv_pkt_data_def del: ratp_recv_bytes.simps)
qed

lemma recv_data_packet:
  assumes "ready s" and "pending s = noise @ ratp_data_packet c msg @ rest" and "1 \<notin> set noise"
    and "plain_control c" and "m_data msg \<noteq> []" and "length (m_data msg) \<le> 255"
    and "261 \<le> length (recvbuf ri)"
  shows "\<exists>s'. ratp_recv_pkt ops (ri, s) t
      = Some (0, ri\<lparr>recvbuf := ratp_data_packet c msg @ drop (length (ratp_data_packet c msg)) (recvbuf ri)\<rparr>, s')
    \<and> pending s' = rest \<and> sent s' = sent s \<and> ready s'"
proof (cases "length (m_data msg) = 1")
  case True
  then obtain b where "m_data msg = [b]" by (auto simp: length_Suc_conv)
  note pkt = data_packet_single [OF this, of c]
  with recv_pkt_bare [OF assms(1) assms(2) [unfolded pkt] assms(3), of ri t] assms(7) so_set show ?thesis
    by (simp add: pkt)
next
  case False
  let ?h = "ratp_create_packet (msg_control c msg) (of_nat (length (m_data msg)))"
  from False assms(5) have "1 < length (m_data msg)" by (cases "m_data msg") auto
  note pkt = data_packet_long [OF this, of c]
  have "unat (of_nat (length (m_data msg)) :: u8) = length (m_data msg)"
    using assms(6) by (rule unat_len_u8)
  with recv_pkt_full [OF assms(1), of noise ?h "m_data msg" rest ri t] assms plain_msg_control [OF assms(4), of msg]
  show ?thesis by (simp add: pkt)
qed

end

section \<open>One end of a line\<close>

text \<open>The end of a line, with the characters that have arrived, the packets that were sent, the
  completion callbacks that ran, and a clock that moves on by a tick with every look at it. It
  implements the operations of \<^verbatim>\<open>struct ratp\<close> and meets the contract.\<close>

record line =
  line_in :: bytes
  line_out :: "bytes list"
  line_done :: "(nat \<times> int) list"
  line_clock :: u64
  line_tick :: u64

definition line_ops :: "line ratp_ops" where
  "line_ops = \<lparr>op_send = (\<lambda>s pkt. (0, s\<lparr>line_out := line_out s @ [pkt]\<rparr>)),
     op_recv = (\<lambda>s. case line_in s of [] \<Rightarrow> (- EAGAIN, 0, s) | b # bs \<Rightarrow> (0, b, s\<lparr>line_in := bs\<rparr>)),
     op_time = (\<lambda>s. (line_clock s, s\<lparr>line_clock := line_clock s + line_tick s\<rparr>)),
     op_done = (\<lambda>s ctx st. s\<lparr>line_done := line_done s @ [(ctx, st)]\<rparr>)\<rparr>"

definition line_ready :: "line \<Rightarrow> bool" where
  "line_ready s \<longleftrightarrow> 0 < sint (line_tick s)"

definition line_patience :: "line \<Rightarrow> u64 \<Rightarrow> u64 \<Rightarrow> nat" where
  "line_patience s start offset = nat (sint (start + offset - line_clock s) + 1)"

lemma sint_moves_on:
  assumes "0 \<le> sint (x :: u64)" and "0 < sint (t :: u64)"
  shows "sint (x - t) = sint x - sint t"
proof -
  have "sint x < 2 ^ 63" "sint t < 2 ^ 63" using sint_lt [of x] sint_lt [of t] by simp_all
  with assms have "signed_take_bit 63 (sint x - sint t) = sint x - sint t"
    by (intro signed_take_bit_int_eq_self) simp_all
  then show ?thesis by (simp add: sint_word_ariths)
qed

interpretation line: serial_line line_ops line_ready line_in
  "\<lambda>s. (line_out s, line_done s)" line_patience
proof unfold_locales
  fix s s' start offset
  assume "line_ready s" and timeout: "is_timeout line_ops s start offset = (False, s')"
  then have "0 \<le> sint (start + offset - line_clock s)" "0 < sint (line_tick s)"
    and s': "s' = s\<lparr>line_clock := line_clock s + line_tick s\<rparr>"
    by (auto simp: is_timeout_def line_ops_def line_ready_def)
  with sint_moves_on [of "start + offset - line_clock s" "line_tick s"]
  show "line_patience s' start offset < line_patience s start offset"
    by (simp add: line_patience_def algebra_simps)
qed (auto simp: line_ops_def line_ready_def line_patience_def)

end
