(* ===== verification/Ratp_States.thy ===== *)
theory Ratp_States
  imports Ratp_Wire
begin

text \<open>
  The state machine: the invariant of an endpoint, which every procedure of the table keeps,
  and the transitions between the states. The invariant contains what makes retransmission
  sound: as long as something waits for its acknowledgment, the send buffer holds a valid packet
  that carries the sequence number sent last.
\<close>

section \<open>The invariant of an endpoint\<close>

definition packet_ok :: "bytes \<Rightarrow> bool" where
  "packet_ok pkt \<longleftrightarrow>
     (let h = hdr_of pkt; len = unat (data_length h)
      in 4 \<le> length pkt \<and> synch h = 1 \<and> ratp_header_ok h
         \<and> (if flag h (RATP_CONTROL_SO OR RATP_CONTROL_RST OR RATP_CONTROL_SYN OR RATP_CONTROL_FIN) \<or> len = 0
            then length pkt = 4
            else length pkt = 6 + len
                 \<and> of_be16 (subbuf (4 + len) 2 pkt) = crc_itu_t 0 (subbuf 4 len pkt)))"

definition ratp_msg_ok :: "ratp_message \<Rightarrow> bool" where
  "ratp_msg_ok msg \<longleftrightarrow> m_data msg \<noteq> [] \<and> length (m_data msg) \<le> 255"

definition ratp_wf :: "ratp_internal \<Rightarrow> bool" where
  "ratp_wf ri \<longleftrightarrow> length (recvbuf ri) = 512 \<and> length (sendbuf ri) = 512
     \<and> (sendbuf_len ri \<noteq> 0 \<longrightarrow> sendbuf_len ri \<le> 261 \<and> packet_ok (take (sendbuf_len ri) (sendbuf ri))
          \<and> ratp_sn (hdr_of (sendbuf ri)) = sn_sent ri)
     \<and> list_all ratp_msg_ok (recvmsg ri) \<and> list_all ratp_msg_ok (sendmsg ri)
     \<and> pred_option ratp_msg_ok (sendmsg_current ri)"

lemma hdr_of_append: "4 \<le> length pkt \<Longrightarrow> hdr_of (pkt @ rest) = hdr_of pkt"
  by (cases pkt) (auto simp: hdr_of_def nth_append)

lemma packet_ok_bare:
  "c AND (RATP_CONTROL_SO OR RATP_CONTROL_RST OR RATP_CONTROL_SYN OR RATP_CONTROL_FIN) \<noteq> 0 \<or> len = 0
    \<Longrightarrow> packet_ok (hdr_bytes (ratp_create_packet c len))"
  by (auto simp: packet_ok_def Let_def)

lemma msg_flags [simp]:
  "msg_control (ratp_set_sn a OR ratp_set_an b OR RATP_CONTROL_ACK) msg AND 0xb1 = 0"
  by (cases a; cases b; cases "m_eor msg") (simp_all add: msg_control_def ratp_set_sn_def ratp_set_an_def)

lemma packet_ok_data:
  assumes "ratp_msg_ok msg" and "plain_control c"
  shows "packet_ok (ratp_data_packet c msg)" and "length (ratp_data_packet c msg) \<le> 261"
proof -
  consider b where "m_data msg = [b]" | "1 < length (m_data msg)"
    using assms(1) by (cases "m_data msg" rule: remdups_adj.cases) (auto simp: ratp_msg_ok_def)
  then have "packet_ok (ratp_data_packet c msg) \<and> length (ratp_data_packet c msg) \<le> 261"
  proof cases
    case (1 b)
    then show ?thesis using so_set by (simp add: data_packet_single packet_ok_bare)
  next
    case 2
    have "length (m_data msg) \<le> 255" using assms(1) by (simp add: ratp_msg_ok_def)
    with 2 plain_msg_control [OF assms(2), of msg] show ?thesis
      by (auto simp: data_packet_long packet_ok_def Let_def unat_len_u8 subbuf_def)
  qed
  then show "packet_ok (ratp_data_packet c msg)" "length (ratp_data_packet c msg) \<le> 261" by auto
qed

section \<open>Every procedure keeps the invariant\<close>

text \<open>Sending changes only what belongs to retransmission.\<close>

lemma send_pkt_frame [simp]:
  "r_state (fst (snd (ratp_send_pkt ops rs pkt))) = r_state (fst rs)"
  "recvbuf (fst (snd (ratp_send_pkt ops rs pkt))) = recvbuf (fst rs)"
  "recvmsg (fst (snd (ratp_send_pkt ops rs pkt))) = recvmsg (fst rs)"
  "sendmsg (fst (snd (ratp_send_pkt ops rs pkt))) = sendmsg (fst rs)"
  "sendmsg_current (fst (snd (ratp_send_pkt ops rs pkt))) = sendmsg_current (fst rs)"
  "sn_received (fst (snd (ratp_send_pkt ops rs pkt))) = sn_received (fst rs)"
  "active (fst (snd (ratp_send_pkt ops rs pkt))) = active (fst rs)"
  "status (fst (snd (ratp_send_pkt ops rs pkt))) = status (fst rs)"
  "in_ratp (fst (snd (ratp_send_pkt ops rs pkt))) = in_ratp (fst rs)"
  by (simp_all add: ratp_send_pkt_def case_prod_beta Let_def)

lemma wf_update [simp]:
  "ratp_wf (ri\<lparr>r_state := st\<rparr>) = ratp_wf ri"
  "ratp_wf (ri\<lparr>sn_received := sn\<rparr>) = ratp_wf ri"
  "ratp_wf (ri\<lparr>status := e\<rparr>) = ratp_wf ri"
  "ratp_wf (ri\<lparr>in_ratp := n\<rparr>) = ratp_wf ri"
  "ratp_wf (ri\<lparr>srtt := x\<rparr>) = ratp_wf ri"
  "ratp_wf (ri\<lparr>rto := x\<rparr>) = ratp_wf ri"
  "ratp_wf (ri\<lparr>timewait_timer_start := now\<rparr>) = ratp_wf ri"
  "ratp_wf (ri\<lparr>retransmission_timer_start := now\<rparr>) = ratp_wf ri"
  "ratp_wf (ri\<lparr>retransmission_count := n\<rparr>) = ratp_wf ri"
  "ratp_wf ri \<Longrightarrow> ratp_wf (ri\<lparr>sendbuf_len := 0\<rparr>)"
  "ratp_wf ri \<Longrightarrow> ratp_wf (ri\<lparr>sendmsg_current := None\<rparr>)"
  "ratp_wf ri \<Longrightarrow> length buf = 512 \<Longrightarrow> ratp_wf (ri\<lparr>recvbuf := buf\<rparr>)"
  by (simp_all add: ratp_wf_def)

lemma wf_send_pkt:
  assumes "ratp_wf (fst rs)" and "packet_ok pkt" and "length pkt \<le> 261"
  shows "ratp_wf (fst (snd (ratp_send_pkt ops rs pkt)))"
proof -
  have "4 \<le> length pkt" using assms(2) by (simp add: packet_ok_def Let_def)
  then have "hdr_of (pkt @ rest) = hdr_of pkt" for rest by (rule hdr_of_append)
  with assms show ?thesis by (simp add: ratp_wf_def ratp_send_pkt_def case_prod_beta Let_def)
qed

lemma wf_send_hdr [simp]: "ratp_wf (fst rs) \<Longrightarrow> ratp_wf (fst (snd (ratp_send_hdr ops rs c)))"
  unfolding ratp_send_hdr_def by (rule wf_send_pkt) (simp_all add: packet_ok_bare)

lemma wf_send_ack [simp]: "ratp_wf (fst rs) \<Longrightarrow> ratp_wf (fst (snd (ratp_send_ack ops rs hdr)))"
  by (simp add: ratp_send_ack_def Let_def)

lemma wf_send_next_data [simp]:
  assumes "ratp_wf (fst rs)"
  shows "ratp_wf (fst (snd (ratp_send_next_data ops rs)))"
proof (cases "sendmsg_current (fst rs) = None \<and> sendmsg (fst rs) \<noteq> []")
  case True
  then obtain msg rest where msgs: "sendmsg (fst rs) = msg # rest" by (cases "sendmsg (fst rs)") auto
  define ri where "ri = (fst rs)\<lparr>sendmsg_current := Some msg, sendmsg := rest, retransmission_count := 0\<rparr>"
  let ?c = "ratp_set_next_sn (sn_sent ri) OR ratp_set_next_an (sn_received ri) OR RATP_CONTROL_ACK"
  have "ratp_wf ri" "ratp_msg_ok msg" using assms msgs by (simp_all add: ri_def ratp_wf_def)
  moreover have "plain_control ?c"
    using msg_flags [where msg = "\<lparr>m_data = [], m_eor = False, m_complete = None\<rparr>"]
    by (simp add: msg_control_def ratp_set_next_sn_def ratp_set_next_an_def)
  ultimately have "ratp_wf (fst (snd (ratp_send_pkt ops (ri, snd rs) (ratp_data_packet ?c msg))))"
    by (intro wf_send_pkt packet_ok_data) simp_all
  with True msgs show ?thesis by (simp add: ratp_send_next_data_def case_prod_beta Let_def ri_def)
qed (use assms in \<open>auto simp: ratp_send_next_data_def case_prod_beta split: list.split\<close>)

lemma send_hdr_frame [simp]:
  "r_state (fst (snd (ratp_send_hdr ops rs c))) = r_state (fst rs)"
  "recvbuf (fst (snd (ratp_send_hdr ops rs c))) = recvbuf (fst rs)"
  "recvmsg (fst (snd (ratp_send_hdr ops rs c))) = recvmsg (fst rs)"
  "sendmsg (fst (snd (ratp_send_hdr ops rs c))) = sendmsg (fst rs)"
  "sendmsg_current (fst (snd (ratp_send_hdr ops rs c))) = sendmsg_current (fst rs)"
  "sn_received (fst (snd (ratp_send_hdr ops rs c))) = sn_received (fst rs)"
  "active (fst (snd (ratp_send_hdr ops rs c))) = active (fst rs)"
  "status (fst (snd (ratp_send_hdr ops rs c))) = status (fst rs)"
  "in_ratp (fst (snd (ratp_send_hdr ops rs c))) = in_ratp (fst rs)"
  by (simp_all add: ratp_send_hdr_def)

lemma send_ack_frame [simp]:
  "r_state (fst (snd (ratp_send_ack ops rs h))) = r_state (fst rs)"
  "recvbuf (fst (snd (ratp_send_ack ops rs h))) = recvbuf (fst rs)"
  "recvmsg (fst (snd (ratp_send_ack ops rs h))) = recvmsg (fst rs)"
  "sendmsg (fst (snd (ratp_send_ack ops rs h))) = sendmsg (fst rs)"
  "status (fst (snd (ratp_send_ack ops rs h))) = status (fst rs)"
  "in_ratp (fst (snd (ratp_send_ack ops rs h))) = in_ratp (fst rs)"
  by (simp_all add: ratp_send_ack_def Let_def)

lemma send_next_data_frame [simp]:
  "r_state (fst (snd (ratp_send_next_data ops rs))) = r_state (fst rs)"
  "recvbuf (fst (snd (ratp_send_next_data ops rs))) = recvbuf (fst rs)"
  "recvmsg (fst (snd (ratp_send_next_data ops rs))) = recvmsg (fst rs)"
  "sn_received (fst (snd (ratp_send_next_data ops rs))) = sn_received (fst rs)"
  "status (fst (snd (ratp_send_next_data ops rs))) = status (fst rs)"
  "in_ratp (fst (snd (ratp_send_next_data ops rs))) = in_ratp (fst rs)"
  by (simp_all add: ratp_send_next_data_def case_prod_beta Let_def split: list.split)

lemma msg_done_frame [simp]:
  "r_state (fst (ratp_msg_done ops rs msg st)) = r_state (fst rs)"
  "recvbuf (fst (ratp_msg_done ops rs msg st)) = recvbuf (fst rs)"
  "recvmsg (fst (ratp_msg_done ops rs msg st)) = recvmsg (fst rs)"
  "status (fst (ratp_msg_done ops rs msg st)) = status (fst rs)"
  "in_ratp (fst (ratp_msg_done ops rs msg st)) = in_ratp (fst rs)"
  "ratp_wf (fst (ratp_msg_done ops rs msg st)) = ratp_wf (fst rs)"
  by (simp_all add: ratp_msg_done_def case_prod_beta Let_def split: option.split)

lemma time_wait_timer_frame [simp]:
  "r_state (fst (ratp_start_time_wait_timer ops rs)) = r_state (fst rs)"
  "recvbuf (fst (ratp_start_time_wait_timer ops rs)) = recvbuf (fst rs)"
  "recvmsg (fst (ratp_start_time_wait_timer ops rs)) = recvmsg (fst rs)"
  "status (fst (ratp_start_time_wait_timer ops rs)) = status (fst rs)"
  "in_ratp (fst (ratp_start_time_wait_timer ops rs)) = in_ratp (fst rs)"
  "ratp_wf (fst (ratp_start_time_wait_timer ops rs)) = ratp_wf (fst rs)"
  by (simp_all add: ratp_start_time_wait_timer_def case_prod_beta)

lemma wf_msg_recv [simp]:
  assumes "ratp_wf ri"
  shows "ratp_wf (msg_recv ri)"
proof -
  have "ratp_msg_ok \<lparr>m_data = subbuf 4 (unat len) (recvbuf ri), m_eor = e, m_complete = None\<rparr>"
    if "len \<noteq> 0" for len :: u8 and e
  proof -
    have "0 < unat len" using that by (metis gr0I unsigned_eq_0_iff)
    moreover have "unat len < 256" using unsigned_less [of len, where 'a = nat] by simp
    ultimately show ?thesis using assms by (simp add: ratp_msg_ok_def ratp_wf_def flip: length_greater_0_conv)
  qed
  moreover have "ratp_msg_ok \<lparr>m_data = [b], m_eor = e, m_complete = None\<rparr>" for b e
    by (simp add: ratp_msg_ok_def)
  ultimately show ?thesis using assms by (simp add: msg_recv_def Let_def ratp_wf_def)
qed

lemmas ratp_procedures =
  ratp_behaviour_a_def ratp_behaviour_b_def ratp_behaviour_c1_def ratp_behaviour_c2_def
  ratp_behaviour_d1_def ratp_behaviour_d2_def ratp_behaviour_d3_def ratp_behaviour_e_def
  ratp_behaviour_f1_def ratp_behaviour_f2_def ratp_behaviour_f3_def ratp_behaviour_g_def
  ratp_behaviour_h1_def ratp_behaviour_h2_def ratp_behaviour_h3_def ratp_behaviour_h4_def
  ratp_behaviour_h5_def ratp_behaviour_h6_def ratp_behaviour_i1_def

lemma wf_synack [simp]:
  "ratp_wf (fst rs) \<Longrightarrow> ratp_wf (fst (snd (ratp_send_pkt ops rs
     (hdr_bytes (ratp_create_packet (ratp_set_next_an sn OR 0xc0) 255)))))"
  by (rule wf_send_pkt) (auto intro!: packet_ok_bare simp: ratp_set_next_an_def ratp_set_an_def)

lemma wf_synack' [simp]:
  "ratp_wf (fst rs) \<Longrightarrow> ratp_wf (fst (snd (ratp_send_pkt ops rs (hdr_bytes (ratp_create_packet 0xc0 255)))))"
  "ratp_wf (fst rs) \<Longrightarrow> ratp_wf (fst (snd (ratp_send_pkt ops rs (hdr_bytes (ratp_create_packet 0xc4 255)))))"
  by (rule wf_send_pkt; simp add: packet_ok_bare)+

lemma wf_procedures [simp]:
  assumes "ratp_wf (fst rs)"
  shows "ratp_wf (fst (ratp_behaviour_a ops rs))" "ratp_wf (fst (ratp_behaviour_b ops rs))"
    "ratp_wf (fst (snd (ratp_behaviour_c1 ops rs)))" "ratp_wf (fst (snd (ratp_behaviour_c2 ops rs)))"
    "ratp_wf (fst (snd (ratp_behaviour_d1 rs)))" "ratp_wf (fst (snd (ratp_behaviour_d2 rs)))"
    "ratp_wf (fst (snd (ratp_behaviour_d3 rs)))" "ratp_wf (fst (snd (ratp_behaviour_e ops rs)))"
    "ratp_wf (fst (snd (ratp_behaviour_f1 ops rs)))" "ratp_wf (fst (snd (ratp_behaviour_f2 ops rs)))"
    "ratp_wf (fst (snd (ratp_behaviour_f3 rs)))" "ratp_wf (fst (ratp_behaviour_g ops rs))"
    "ratp_wf (fst (snd (ratp_behaviour_h1 ops rs)))" "ratp_wf (fst (snd (ratp_behaviour_h2 ops rs)))"
    "ratp_wf (fst (snd (ratp_behaviour_h3 ops rs)))" "ratp_wf (fst (snd (ratp_behaviour_h4 rs)))"
    "ratp_wf (fst (snd (ratp_behaviour_h5 ops rs)))" "ratp_wf (fst (snd (ratp_behaviour_h6 ops rs)))"
    "ratp_wf (fst (snd (ratp_behaviour_i1 ops rs)))"
  using assms
  by (simp_all add: ratp_procedures ratp_state_change_def case_prod_beta Let_def split: option.split)

lemma run_keeps:
  assumes "\<And>f rs. f \<in> set fs \<Longrightarrow> P rs \<Longrightarrow> P (snd (f rs))" and "P rs"
  shows "P (snd (ratp_run fs rs))"
  using assms by (induction fs arbitrary: rs) (simp_all add: case_prod_beta)

lemma wf_state_machine:
  assumes "ratp_wf (fst rs)"
  shows "ratp_wf (fst (snd (ratp_state_machine ops rs)))"
  using assms
  by (auto simp: ratp_state_machine_def simp del: ratp_run.simps
      intro!: run_keeps [where P = "\<lambda>rs. ratp_wf (fst rs)"] split: ratp_state.split)

text \<open>Whatever the line does, receiving changes only the content of the receive buffer.\<close>

definition only_recvbuf :: "ratp_internal \<Rightarrow> ratp_internal \<Rightarrow> bool" where
  "only_recvbuf ri ri' \<longleftrightarrow> ri' = ri\<lparr>recvbuf := recvbuf ri'\<rparr> \<and> length (recvbuf ri') = length (recvbuf ri)"

lemma only_recvbuf_refl [simp]: "only_recvbuf ri ri"
  by (simp add: only_recvbuf_def)

lemma only_recvbuf_trans: "only_recvbuf ri ri1 \<Longrightarrow> only_recvbuf ri1 ri2 \<Longrightarrow> only_recvbuf ri ri2"
  by (cases ri; cases ri1; cases ri2) (simp add: only_recvbuf_def)

lemma only_recvbuf_update [simp]: "only_recvbuf ri (ri\<lparr>recvbuf := (recvbuf ri)[i := b]\<rparr>)"
  by (simp add: only_recvbuf_def)

lemma recv_synch_only:
  assumes "ratp_recv_synch ops rs = Some r"
  shows "only_recvbuf (fst rs) (fst (snd r))"
proof (rule ratp_recv_synch.raw_induct [where P = "\<lambda>ops rs r. only_recvbuf (fst rs) (fst (snd r))", OF _ assms],
    goal_cases)
  case (1 recv_synch ops rs r)
  obtain ret b s where char: "ratp_recv_char ops (snd rs) 0 = Some (ret, b, s)"
    using 1(2) by (cases "ratp_recv_char ops (snd rs) 0") auto
  define ri where "ri = (fst rs)\<lparr>recvbuf := (recvbuf (fst rs))[0 := b]\<rparr>"
  have step: "only_recvbuf (fst rs) ri" by (simp add: ri_def)
  have "only_recvbuf ri (fst (snd r))" if "recv_synch ops (ri, s) = Some r"
    using 1(1) [OF that] by simp
  with 1(2) char step show ?case
    by (auto simp: Let_def ri_def [symmetric] split: if_splits intro: only_recvbuf_trans)
qed

lemma recv_bytes_only:
  "ratp_recv_bytes ops (ri, s) off n t = Some r \<Longrightarrow> only_recvbuf ri (fst (snd r))"
proof (induction n arbitrary: ri s off)
  case (Suc n)
  obtain ret b s' where char: "ratp_recv_char ops s t = Some (ret, b, s')"
    using Suc.prems by (cases "ratp_recv_char ops s t") auto
  define ri' where "ri' = ri\<lparr>recvbuf := (recvbuf ri)[off := b]\<rparr>"
  have "only_recvbuf ri ri'" by (simp add: ri'_def)
  with Suc.prems Suc.IH [of ri' s' "off + 1"] char show ?case
    by (auto simp: ri'_def [symmetric] split: if_splits intro: only_recvbuf_trans)
qed auto

lemma bind_only:
  assumes "(res \<bind> k) = Some r" and "\<And>x. res = Some x \<Longrightarrow> only_recvbuf ri (fst (snd x))"
    and "\<And>ret ri1 s1. k (ret, ri1, s1) = Some r \<Longrightarrow> only_recvbuf ri1 (fst (snd r))"
  shows "only_recvbuf ri (fst (snd r))"
proof -
  obtain ret ri1 s1 where "res = Some (ret, ri1, s1)" "k (ret, ri1, s1) = Some r"
    using assms(1) by (cases res) auto
  with assms(2,3) show ?thesis by (metis fst_conv only_recvbuf_trans snd_conv)
qed

lemma recv_pkt_only:
  assumes "ratp_recv_pkt ops (ri, s) t = Some r"
  shows "only_recvbuf ri (fst (snd r))"
proof -
  have header: "only_recvbuf ri (fst (snd r))" if "ratp_recv_pkt_header ops (ri, s) t = Some r" for r
    using that unfolding ratp_recv_pkt_header_def
    by (rule bind_only) (auto dest: recv_synch_only recv_bytes_only elim!: bind_only split: if_splits)
  have data: "only_recvbuf ri (fst (snd r))" if "ratp_recv_pkt_data ops (ri, s) len t = Some r" for ri s len r
    using that unfolding ratp_recv_pkt_data_def
    by (rule bind_only) (auto dest: recv_bytes_only simp: Let_def simp del: ratp_recv_bytes.simps split: if_splits)
  from assms show ?thesis
    unfolding ratp_recv_pkt_def
    by (rule bind_only) (auto dest: header data split: if_splits)
qed

lemma poll_cases:
  assumes "ratp_poll ops (Some ri, s) = Some (ret, link, s')"
  obtains ret1 ri1 s1 ri2 where "link = Some (ri2\<lparr>in_ratp := in_ratp ri2 - 1\<rparr>)"
    "only_recvbuf (ri\<lparr>in_ratp := in_ratp ri + 1\<rparr>) ri1" "ratp_poll_rest ops ret1 (ri1, s1) = (ret, ri2, s')"
proof -
  from assms obtain ret1 ri1 s1 where
    recv: "ratp_recv_pkt ops (ri\<lparr>in_ratp := in_ratp ri + 1\<rparr>, s) 100 = Some (ret1, ri1, s1)"
    by (auto simp: ratp_poll_def ratp_poll_internal_def Option.bind_eq_Some_conv)
  obtain ret2 ri2 s2 where "ratp_poll_rest ops ret1 (ri1, s1) = (ret2, ri2, s2)"
    by (metis prod_cases3)
  with assms recv recv_pkt_only [OF recv] that show ?thesis
    by (auto simp: ratp_poll_def ratp_poll_internal_def)
qed

lemma procedures_frame [simp]:
  "in_ratp (fst (ratp_behaviour_a ops rs)) = in_ratp (fst rs)"
  "in_ratp (fst (ratp_behaviour_b ops rs)) = in_ratp (fst rs)"
  "in_ratp (fst (snd (ratp_behaviour_c1 ops rs))) = in_ratp (fst rs)"
  "in_ratp (fst (snd (ratp_behaviour_c2 ops rs))) = in_ratp (fst rs)"
  "in_ratp (fst (snd (ratp_behaviour_d1 rs))) = in_ratp (fst rs)"
  "in_ratp (fst (snd (ratp_behaviour_d2 rs))) = in_ratp (fst rs)"
  "in_ratp (fst (snd (ratp_behaviour_d3 rs))) = in_ratp (fst rs)"
  "in_ratp (fst (snd (ratp_behaviour_e ops rs))) = in_ratp (fst rs)"
  "in_ratp (fst (snd (ratp_behaviour_f1 ops rs))) = in_ratp (fst rs)"
  "in_ratp (fst (snd (ratp_behaviour_f2 ops rs))) = in_ratp (fst rs)"
  "in_ratp (fst (snd (ratp_behaviour_f3 rs))) = in_ratp (fst rs)"
  "in_ratp (fst (ratp_behaviour_g ops rs)) = in_ratp (fst rs)"
  "in_ratp (fst (snd (ratp_behaviour_h1 ops rs))) = in_ratp (fst rs)"
  "in_ratp (fst (snd (ratp_behaviour_h2 ops rs))) = in_ratp (fst rs)"
  "in_ratp (fst (snd (ratp_behaviour_h3 ops rs))) = in_ratp (fst rs)"
  "in_ratp (fst (snd (ratp_behaviour_h4 rs))) = in_ratp (fst rs)"
  "in_ratp (fst (snd (ratp_behaviour_h5 ops rs))) = in_ratp (fst rs)"
  "in_ratp (fst (snd (ratp_behaviour_h6 ops rs))) = in_ratp (fst rs)"
  "in_ratp (fst (snd (ratp_behaviour_i1 ops rs))) = in_ratp (fst rs)"
  by (simp_all add: ratp_procedures ratp_state_change_def msg_recv_def case_prod_beta Let_def split: option.split)

lemma procedures_recvmsg [simp]:
  "recvmsg (fst (ratp_behaviour_a ops rs)) = recvmsg (fst rs)"
  "recvmsg (fst (ratp_behaviour_b ops rs)) = recvmsg (fst rs)"
  "recvmsg (fst (snd (ratp_behaviour_c1 ops rs))) = recvmsg (fst rs)"
  "recvmsg (fst (snd (ratp_behaviour_c2 ops rs))) = recvmsg (fst rs)"
  "recvmsg (fst (snd (ratp_behaviour_d1 rs))) = recvmsg (fst rs)"
  "recvmsg (fst (snd (ratp_behaviour_d2 rs))) = recvmsg (fst rs)"
  "recvmsg (fst (snd (ratp_behaviour_d3 rs))) = recvmsg (fst rs)"
  "recvmsg (fst (snd (ratp_behaviour_e ops rs))) = recvmsg (fst rs)"
  "recvmsg (fst (snd (ratp_behaviour_f1 ops rs))) = recvmsg (fst rs)"
  "recvmsg (fst (snd (ratp_behaviour_f2 ops rs))) = recvmsg (fst rs)"
  "recvmsg (fst (snd (ratp_behaviour_f3 rs))) = recvmsg (fst rs)"
  "recvmsg (fst (ratp_behaviour_g ops rs)) = recvmsg (fst rs)"
  "recvmsg (fst (snd (ratp_behaviour_h2 ops rs))) = recvmsg (fst rs)"
  "recvmsg (fst (snd (ratp_behaviour_h3 ops rs))) = recvmsg (fst rs)"
  "recvmsg (fst (snd (ratp_behaviour_h4 rs))) = recvmsg (fst rs)"
  "recvmsg (fst (snd (ratp_behaviour_h5 ops rs))) = recvmsg (fst rs)"
  "recvmsg (fst (snd (ratp_behaviour_h6 ops rs))) = recvmsg (fst rs)"
  by (simp_all add: ratp_procedures ratp_state_change_def case_prod_beta Let_def split: option.split)

definition grows :: "ratp_message list \<Rightarrow> ratp_message list \<Rightarrow> bool" where
  "grows msgs msgs' \<longleftrightarrow> msgs' = msgs \<or> (\<exists>msg. msgs' = msgs @ [msg])"

lemma grows_refl [simp]: "grows msgs msgs"
  by (simp add: grows_def)

lemma grows_received [simp]:
  "grows (recvmsg (fst rs)) (recvmsg (fst (snd (ratp_behaviour_i1 ops rs))))"
  "grows (recvmsg (fst rs)) (recvmsg (fst (snd (ratp_behaviour_h1 ops rs))))"
  by (simp_all add: ratp_procedures ratp_state_change_def msg_recv_def case_prod_beta Let_def)
    (auto simp: grows_def)

lemma state_machine_frame:
  "in_ratp (fst (snd (ratp_state_machine ops rs))) = in_ratp (fst rs)"
  "grows (recvmsg (fst rs)) (recvmsg (fst (snd (ratp_state_machine ops rs))))"
proof -
  show "in_ratp (fst (snd (ratp_state_machine ops rs))) = in_ratp (fst rs)"
    by (cases "r_state (fst rs)") (simp_all add: ratp_state_machine_def case_prod_beta)
  have i1: "grows (recvmsg (fst rs)) (recvmsg (fst (snd (ratp_behaviour_i1 ops rs'))))"
    and h1: "grows (recvmsg (fst rs)) (recvmsg (fst (snd (ratp_behaviour_h1 ops rs'))))"
    if "recvmsg (fst rs') = recvmsg (fst rs)" for rs'
    using that grows_received [of rs' ops] by simp_all
  show "grows (recvmsg (fst rs)) (recvmsg (fst (snd (ratp_state_machine ops rs))))"
    by (cases "r_state (fst rs)") (simp_all add: ratp_state_machine_def case_prod_beta i1 h1)
qed

text \<open>What follows the reception of a packet.\<close>

lemma poll_rest_keeps:
  assumes "ratp_wf (fst rs)"
  shows "ratp_wf (fst (snd (ratp_poll_rest ops ret rs)))"
proof -
  have pkt: "ratp_wf (fst (snd (ratp_poll_packet ops rs)))"
    using assms by (cases rs) (simp add: ratp_poll_packet_def case_prod_beta wf_state_machine)
  have "ratp_wf (fst (snd (ratp_retransmit ops rs')))" "ratp_wf (fst (ratp_poll_next ops rs'))"
    if "ratp_wf (fst rs')" for rs'
    using that by (auto simp: ratp_retransmit_def ratp_poll_next_def case_prod_beta Let_def)
  with assms pkt show ?thesis by (simp add: ratp_poll_rest_def case_prod_beta)
qed

lemma poll_rest_frame:
  "in_ratp (fst (snd (ratp_poll_rest ops ret rs))) = in_ratp (fst rs)"
  "grows (recvmsg (fst rs)) (recvmsg (fst (snd (ratp_poll_rest ops ret rs))))"
proof -
  have pkt: "in_ratp (fst (snd (ratp_poll_packet ops rs))) = in_ratp (fst rs)"
      "grows (recvmsg (fst rs)) (recvmsg (fst (snd (ratp_poll_packet ops rs))))"
    using state_machine_frame [where ops = ops and rs = "(fst rs, x)" for x]
    by (cases rs; simp add: ratp_poll_packet_def case_prod_beta)+
  have more: "in_ratp (fst (snd (ratp_retransmit ops rs'))) = in_ratp (fst rs')"
      "recvmsg (fst (snd (ratp_retransmit ops rs'))) = recvmsg (fst rs')"
      "in_ratp (fst (ratp_poll_next ops rs')) = in_ratp (fst rs')"
      "recvmsg (fst (ratp_poll_next ops rs')) = recvmsg (fst rs')" for rs'
    by (auto simp: ratp_retransmit_def ratp_poll_next_def case_prod_beta Let_def)
  show "in_ratp (fst (snd (ratp_poll_rest ops ret rs))) = in_ratp (fst rs)"
    "grows (recvmsg (fst rs)) (recvmsg (fst (snd (ratp_poll_rest ops ret rs))))"
    using pkt by (simp_all add: ratp_poll_rest_def case_prod_beta more)
qed

lemma poll_keeps:
  assumes "ratp_wf ri" and "ratp_poll ops (Some ri, s) = Some (ret, link, s')"
  shows "\<exists>ri'. link = Some ri' \<and> ratp_wf ri' \<and> in_ratp ri' = in_ratp ri
    \<and> (recvmsg ri' = recvmsg ri \<or> (\<exists>msg. recvmsg ri' = recvmsg ri @ [msg]))"
  using assms(2)
proof (rule poll_cases)
  fix ret1 ri1 s1 ri2
  assume link: "link = Some (ri2\<lparr>in_ratp := in_ratp ri2 - 1\<rparr>)"
    and only: "only_recvbuf (ri\<lparr>in_ratp := in_ratp ri + 1\<rparr>) ri1"
    and rest: "ratp_poll_rest ops ret1 (ri1, s1) = (ret, ri2, s')"
  from only obtain buf where ri1: "ri1 = ri\<lparr>in_ratp := in_ratp ri + 1, recvbuf := buf\<rparr>"
    and "length buf = length (recvbuf ri)"
    unfolding only_recvbuf_def by fastforce
  with assms(1) have "ratp_wf ri1" by (simp add: ratp_wf_def)
  with poll_rest_keeps [of "(ri1, s1)" ops ret1] poll_rest_frame [where ops = ops and ret = ret1 and rs = "(ri1, s1)"] rest link ri1
  show ?thesis by (simp add: grows_def)
qed


text \<open>A passive endpoint that has just been opened, and the line on which the peer's request for a
  connection has arrived.\<close>

abbreviation (input) listening :: ratp_internal where
  "listening \<equiv> ratp_new False (replicate 512 0) (replicate 512 0)"

abbreviation (input) line_with :: "bytes \<Rightarrow> line" where
  "line_with bs \<equiv> \<lparr>line_in = bs, line_out = [], line_done = [], line_clock = 0, line_tick = 1000000\<rparr>"

lemma wf_listening: "ratp_wf listening"
  by (simp add: ratp_wf_def ratp_new_def)

lemma poll_syn:
  "map_option (\<lambda>(ret, link, s). (ret, map_option r_state link, line_out s))
     (ratp_poll line_ops (Some listening, line_with [0x01, 0x80, 0, 0x7f]))
   = Some (0, Some RATP_STATE_SYN_RECEIVED, [[0x01, 0xc4, 255, 0x3c]])"
  by code_simp


section \<open>Transitions\<close>

text \<open>The transitions that packets can cause according to the procedures of the RFC.\<close>

fun ratp_successors :: "ratp_state \<Rightarrow> ratp_state set" where
  "ratp_successors RATP_STATE_LISTEN = {RATP_STATE_SYN_RECEIVED}"
| "ratp_successors RATP_STATE_SYN_SENT = {RATP_STATE_ESTABLISHED, RATP_STATE_SYN_RECEIVED, RATP_STATE_CLOSED}"
| "ratp_successors RATP_STATE_SYN_RECEIVED = {RATP_STATE_ESTABLISHED, RATP_STATE_LISTEN, RATP_STATE_CLOSED}"
| "ratp_successors RATP_STATE_ESTABLISHED = {RATP_STATE_LAST_ACK, RATP_STATE_CLOSED}"
| "ratp_successors RATP_STATE_FIN_WAIT = {RATP_STATE_TIME_WAIT, RATP_STATE_CLOSING, RATP_STATE_CLOSED}"
| "ratp_successors RATP_STATE_LAST_ACK = {RATP_STATE_CLOSED}"
| "ratp_successors RATP_STATE_CLOSING = {RATP_STATE_TIME_WAIT, RATP_STATE_CLOSED}"
| "ratp_successors RATP_STATE_TIME_WAIT = {RATP_STATE_CLOSED}"
| "ratp_successors RATP_STATE_CLOSED = {}"

text \<open>The states each procedure can lead to, as rules for any property of the state.\<close>

lemma procedures_state:
  assumes "S (r_state (fst rs))"
  shows "S RATP_STATE_SYN_RECEIVED \<Longrightarrow> S (r_state (fst (ratp_behaviour_a ops rs)))"
    "S RATP_STATE_SYN_RECEIVED \<Longrightarrow> S RATP_STATE_ESTABLISHED \<Longrightarrow> S RATP_STATE_CLOSED
      \<Longrightarrow> S (r_state (fst (ratp_behaviour_b ops rs)))"
    "S (r_state (fst (snd (ratp_behaviour_c1 ops rs))))"
    "S RATP_STATE_CLOSED \<Longrightarrow> S (r_state (fst (snd (ratp_behaviour_c2 ops rs))))"
    "S RATP_STATE_LISTEN \<Longrightarrow> S RATP_STATE_CLOSED \<Longrightarrow> S (r_state (fst (snd (ratp_behaviour_d1 rs))))"
    "S RATP_STATE_CLOSED \<Longrightarrow> S (r_state (fst (snd (ratp_behaviour_d2 rs))))"
    "S RATP_STATE_CLOSED \<Longrightarrow> S (r_state (fst (snd (ratp_behaviour_d3 rs))))"
    "S RATP_STATE_CLOSED \<Longrightarrow> S (r_state (fst (snd (ratp_behaviour_e ops rs))))"
    "S RATP_STATE_LISTEN \<Longrightarrow> S RATP_STATE_CLOSED \<Longrightarrow> S (r_state (fst (snd (ratp_behaviour_f1 ops rs))))"
    "S (r_state (fst (snd (ratp_behaviour_f2 ops rs))))" "S (r_state (fst (snd (ratp_behaviour_f3 rs))))"
    "S (r_state (fst (ratp_behaviour_g ops rs)))"
    "S RATP_STATE_ESTABLISHED \<Longrightarrow> S (r_state (fst (snd (ratp_behaviour_h1 ops rs))))"
    "S RATP_STATE_LAST_ACK \<Longrightarrow> S (r_state (fst (snd (ratp_behaviour_h2 ops rs))))"
    "S RATP_STATE_TIME_WAIT \<Longrightarrow> S RATP_STATE_CLOSING \<Longrightarrow> S RATP_STATE_CLOSED
      \<Longrightarrow> S (r_state (fst (snd (ratp_behaviour_h3 ops rs))))"
    "S RATP_STATE_CLOSED \<Longrightarrow> S (r_state (fst (snd (ratp_behaviour_h4 rs))))"
    "S RATP_STATE_TIME_WAIT \<Longrightarrow> S (r_state (fst (snd (ratp_behaviour_h5 ops rs))))"
    "S (r_state (fst (snd (ratp_behaviour_h6 ops rs))))" "S (r_state (fst (snd (ratp_behaviour_i1 ops rs))))"
  using assms
  by (simp_all add: ratp_procedures ratp_state_change_def msg_recv_def case_prod_beta Let_def split: option.split)

lemma state_machine_successors:
  "r_state (fst (snd (ratp_state_machine ops rs))) \<in> insert (r_state (fst rs)) (ratp_successors (r_state (fst rs)))"
proof -
  define S where "S = (\<lambda>st. st \<in> insert (r_state (fst rs)) (ratp_successors (r_state (fst rs))))"
  have here: "S (r_state (fst rs))" by (simp add: S_def)
  have succ: "S st" if "st \<in> ratp_successors (r_state (fst rs))" for st using that by (simp add: S_def)
  have "S (r_state (fst (snd (ratp_state_machine ops rs))))"
    using here
    by (cases "r_state (fst rs)") (simp_all add: ratp_state_machine_def case_prod_beta procedures_state succ)
  then show ?thesis by (simp add: S_def)
qed

text \<open>After the packet was processed, only the timeout of a retransmission changes the state.\<close>

definition after_packet :: "'s ratp_ops \<Rightarrow> int \<Rightarrow> ratp_internal \<times> 's \<Rightarrow> ratp_internal" where
  "after_packet ops ret rs = fst (if ret = 0 then snd (ratp_poll_packet ops rs) else rs)"

lemma poll_rest_state:
  assumes "ratp_poll_rest ops ret1 rs = (ret, ri2, s')"
  shows "r_state ri2 = r_state (after_packet ops ret1 rs)
    \<or> r_state ri2 = RATP_STATE_CLOSED \<and> ret = - ETIMEDOUT \<and> retransmission_count ri2 = max_retransmission ri2"
    and "recvbuf ri2 = recvbuf (after_packet ops ret1 rs)"
proof -
  define rs1 where "rs1 = (if ret1 = 0 then snd (ratp_poll_packet ops rs) else rs)"
  have ri2: "ri2 = fst (snd (ratp_poll_rest ops ret1 rs))" "ret = fst (ratp_poll_rest ops ret1 rs)"
    using assms by simp_all
  have resend: "r_state (fst (snd (ratp_retransmit ops rs1))) = r_state (fst rs1)
      \<or> r_state (fst (snd (ratp_retransmit ops rs1))) = RATP_STATE_CLOSED \<and> fst (ratp_retransmit ops rs1) = - ETIMEDOUT
        \<and> retransmission_count (fst (snd (ratp_retransmit ops rs1)))
          = max_retransmission (fst (snd (ratp_retransmit ops rs1)))"
      "recvbuf (fst (snd (ratp_retransmit ops rs1))) = recvbuf (fst rs1)"
    by (simp_all add: ratp_retransmit_def case_prod_beta Let_def)
  have nxt: "r_state (fst (ratp_poll_next ops rs)) = r_state (fst rs)"
      "recvbuf (fst (ratp_poll_next ops rs)) = recvbuf (fst rs)" for rs :: "ratp_internal \<times> 'a"
    by (simp_all add: ratp_poll_next_def)
  have rest: "ratp_poll_rest ops ret1 rs
      = (if ret1 = 0 \<and> fst (ratp_poll_packet ops rs) < 0 then (fst (ratp_poll_packet ops rs), rs1)
         else if fst (ratp_retransmit ops rs1) \<noteq> 0 then ratp_retransmit ops rs1
         else (0, ratp_poll_next ops (snd (ratp_retransmit ops rs1))))"
    by (simp add: ratp_poll_rest_def case_prod_beta rs1_def)
  have after: "after_packet ops ret1 rs = fst rs1" by (simp add: after_packet_def rs1_def)
  show "r_state ri2 = r_state (after_packet ops ret1 rs)
      \<or> r_state ri2 = RATP_STATE_CLOSED \<and> ret = - ETIMEDOUT \<and> retransmission_count ri2 = max_retransmission ri2"
    using resend(1) unfolding ri2 rest after by (auto simp: nxt)
  show "recvbuf ri2 = recvbuf (after_packet ops ret1 rs)"
    using resend(2) unfolding ri2 rest after by (simp add: nxt)
qed

lemma after_packet_machine:
  obtains "after_packet ops ret (ri1, s1) = ri1"
  | x where "after_packet ops ret (ri1, s1) = fst (snd (ratp_state_machine ops (ri1, x)))"
proof -
  have "after_packet ops ret (ri1, s1) = ri1
      \<or> (\<exists>x. after_packet ops ret (ri1, s1) = fst (snd (ratp_state_machine ops (ri1, x))))"
    by (auto simp: after_packet_def ratp_poll_packet_def case_prod_beta)
  with that show thesis by blast
qed

text \<open>A poll changes the state only along the transitions of the procedures, except that an
  endpoint whose packet was sent again as often as allowed is closed with \<open>- ETIMEDOUT\<close>. A
  closed endpoint stays closed.\<close>

theorem ratp_poll_transitions:
  assumes "ratp_poll ops (Some ri, s) = Some (ret, Some ri', s')"
  shows "r_state ri' = r_state ri \<or> r_state ri' \<in> ratp_successors (r_state ri)
    \<or> r_state ri' = RATP_STATE_CLOSED \<and> ret = - ETIMEDOUT \<and> retransmission_count ri' = max_retransmission ri'"
  using assms
proof (rule poll_cases)
  fix ret1 ri1 s1 ri2
  assume link: "Some ri' = Some (ri2\<lparr>in_ratp := in_ratp ri2 - 1\<rparr>)"
    and only: "only_recvbuf (ri\<lparr>in_ratp := in_ratp ri + 1\<rparr>) ri1"
    and rest: "ratp_poll_rest ops ret1 (ri1, s1) = (ret, ri2, s')"
  from only obtain buf where "ri1 = ri\<lparr>in_ratp := in_ratp ri + 1, recvbuf := buf\<rparr>"
    unfolding only_recvbuf_def by fastforce
  then have state: "r_state ri1 = r_state ri" by simp
  have "r_state (after_packet ops ret1 (ri1, s1)) \<in> insert (r_state ri) (ratp_successors (r_state ri))"
    using state_machine_successors [where ops = ops and rs = "(ri1, x)" for x] state
    by (cases rule: after_packet_machine [of ops ret1 ri1 s1]) auto
  with poll_rest_state(1) [OF rest] link show ?thesis by auto
qed

theorem ratp_poll_transitions_witness:
  "\<exists>ret ri' s'. ratp_poll line_ops (Some listening, line_with [0x01, 0x80, 0, 0x7f]) = Some (ret, Some ri', s')
     \<and> ret \<noteq> - ETIMEDOUT \<and> r_state ri' \<noteq> RATP_STATE_LISTEN \<and> r_state ri' \<in> ratp_successors RATP_STATE_LISTEN"
proof -
  from poll_syn obtain ret ri' s' where
    poll: "ratp_poll line_ops (Some listening, line_with [0x01, 0x80, 0, 0x7f]) = Some (ret, Some ri', s')"
    and "ret = 0" "r_state ri' = RATP_STATE_SYN_RECEIVED" by auto
  with ratp_poll_transitions [OF poll] show ?thesis by (auto simp: ratp_new_def)
qed

text \<open>What a procedure has checked when it lets the packet pass.\<close>

lemma pass_c1: "fst (ratp_behaviour_c1 ops rs) = 0
  \<Longrightarrow> ratp_sn_expected (fst rs) (hdr_of (recvbuf (fst rs))) \<and> snd (ratp_behaviour_c1 ops rs) = rs"
  by (auto simp: ratp_behaviour_c1_def Let_def case_prod_beta split: if_splits)

lemma pass_d1: "fst (ratp_behaviour_d1 rs) = 0
  \<Longrightarrow> \<not> flag (hdr_of (recvbuf (fst rs))) RATP_CONTROL_RST \<and> snd (ratp_behaviour_d1 rs) = rs"
  by (cases rs) (auto simp: ratp_behaviour_d1_def split: if_splits)

lemma pass_e: "fst (ratp_behaviour_e ops rs) = 0
  \<Longrightarrow> \<not> flag (hdr_of (recvbuf (fst rs))) RATP_CONTROL_SYN \<and> snd (ratp_behaviour_e ops rs) = rs"
  by (auto simp: ratp_behaviour_e_def Let_def case_prod_beta split: if_splits)

lemma pass_f1: "fst (ratp_behaviour_f1 ops rs) = 0
  \<Longrightarrow> flag (hdr_of (recvbuf (fst rs))) RATP_CONTROL_ACK \<and> ratp_an_expected (fst rs) (hdr_of (recvbuf (fst rs)))"
  by (auto simp: ratp_behaviour_f1_def Let_def case_prod_beta split: if_splits)

definition handshake :: "ratp_internal \<Rightarrow> ratp_header \<Rightarrow> bool" where
  "handshake ri h \<longleftrightarrow> flag h RATP_CONTROL_ACK \<and> \<not> flag h RATP_CONTROL_RST \<and> ratp_an_expected ri h
     \<and> (r_state ri = RATP_STATE_SYN_SENT \<and> flag h RATP_CONTROL_SYN
        \<or> r_state ri = RATP_STATE_SYN_RECEIVED \<and> \<not> flag h RATP_CONTROL_SYN \<and> ratp_sn_expected ri h)"

lemma state_machine_handshake:
  assumes "r_state (fst rs) \<noteq> RATP_STATE_ESTABLISHED"
    and "r_state (fst (snd (ratp_state_machine ops rs))) = RATP_STATE_ESTABLISHED"
  shows "handshake (fst rs) (hdr_of (recvbuf (fst rs)))"
proof (cases "r_state (fst rs)")
  case RATP_STATE_SYN_SENT
  with assms show ?thesis
    by (auto simp: ratp_state_machine_def ratp_behaviour_b_def handshake_def ratp_state_change_def case_prod_beta Let_def
      split: if_splits)
next
  case RATP_STATE_SYN_RECEIVED
  let ?P = "\<lambda>st. st \<noteq> RATP_STATE_ESTABLISHED"
  let ?h = "hdr_of (recvbuf (fst rs))"
  note [simp] = procedures_state [where S = ?P]
  from RATP_STATE_SYN_RECEIVED assms(2) have c1: "fst (ratp_behaviour_c1 ops rs) = 0"
    by (auto simp: ratp_state_machine_def case_prod_beta split: if_splits)
  from RATP_STATE_SYN_RECEIVED assms(2) c1 pass_c1 [OF c1] have d1: "fst (ratp_behaviour_d1 rs) = 0"
    by (auto simp: ratp_state_machine_def case_prod_beta split: if_splits)
  from RATP_STATE_SYN_RECEIVED assms(2) c1 pass_c1 [OF c1] d1 pass_d1 [OF d1] have e: "fst (ratp_behaviour_e ops rs) = 0"
    by (auto simp: ratp_state_machine_def case_prod_beta split: if_splits)
  from RATP_STATE_SYN_RECEIVED assms(2) c1 pass_c1 [OF c1] d1 pass_d1 [OF d1] e pass_e [OF e]
  have "fst (ratp_behaviour_f1 ops rs) = 0"
    by (auto simp: ratp_state_machine_def case_prod_beta split: if_splits)
  from pass_f1 [OF this] pass_c1 [OF c1] pass_d1 [OF d1] pass_e [OF e] RATP_STATE_SYN_RECEIVED show ?thesis
    by (simp add: handshake_def)
qed (use assms state_machine_successors [where ops = ops and rs = rs] in auto)

lemma procedures_recvbuf [simp]:
  "recvbuf (fst (ratp_behaviour_a ops rs)) = recvbuf (fst rs)"
  "recvbuf (fst (ratp_behaviour_b ops rs)) = recvbuf (fst rs)"
  "recvbuf (fst (ratp_behaviour_g ops rs)) = recvbuf (fst rs)"
  "recvbuf (fst (snd (ratp_behaviour_c1 ops rs))) = recvbuf (fst rs)"
  "recvbuf (fst (snd (ratp_behaviour_c2 ops rs))) = recvbuf (fst rs)"
  "recvbuf (fst (snd (ratp_behaviour_d1 rs))) = recvbuf (fst rs)"
  "recvbuf (fst (snd (ratp_behaviour_d2 rs))) = recvbuf (fst rs)"
  "recvbuf (fst (snd (ratp_behaviour_d3 rs))) = recvbuf (fst rs)"
  "recvbuf (fst (snd (ratp_behaviour_e ops rs))) = recvbuf (fst rs)"
  "recvbuf (fst (snd (ratp_behaviour_f1 ops rs))) = recvbuf (fst rs)"
  "recvbuf (fst (snd (ratp_behaviour_f2 ops rs))) = recvbuf (fst rs)"
  "recvbuf (fst (snd (ratp_behaviour_f3 rs))) = recvbuf (fst rs)"
  "recvbuf (fst (snd (ratp_behaviour_h1 ops rs))) = recvbuf (fst rs)"
  "recvbuf (fst (snd (ratp_behaviour_h2 ops rs))) = recvbuf (fst rs)"
  "recvbuf (fst (snd (ratp_behaviour_h3 ops rs))) = recvbuf (fst rs)"
  "recvbuf (fst (snd (ratp_behaviour_h4 rs))) = recvbuf (fst rs)"
  "recvbuf (fst (snd (ratp_behaviour_h5 ops rs))) = recvbuf (fst rs)"
  "recvbuf (fst (snd (ratp_behaviour_h6 ops rs))) = recvbuf (fst rs)"
  "recvbuf (fst (snd (ratp_behaviour_i1 ops rs))) = recvbuf (fst rs)"
  by (simp_all add: ratp_procedures ratp_state_change_def msg_recv_def case_prod_beta Let_def split: option.split)

lemma state_machine_recvbuf: "recvbuf (fst (snd (ratp_state_machine ops rs))) = recvbuf (fst rs)"
  by (cases "r_state (fst rs)") (simp_all add: ratp_state_machine_def case_prod_beta)

text \<open>C29. A connection is established only by the third step of a handshake: the packet that
  arrived last acknowledges the sequence number that this end sent, carries no reset, and is the
  answer to the own request or the expected packet after the peer's request.\<close>

theorem ratp_established_by_handshake:
  assumes poll: "ratp_poll ops (Some ri, s) = Some (ret, Some ri', s')"
    and before: "r_state ri \<noteq> RATP_STATE_ESTABLISHED" and after: "r_state ri' = RATP_STATE_ESTABLISHED"
  shows "handshake ri (hdr_of (recvbuf ri'))"
  using poll
proof (rule poll_cases)
  fix ret1 ri1 s1 ri2
  assume link: "Some ri' = Some (ri2\<lparr>in_ratp := in_ratp ri2 - 1\<rparr>)"
    and only: "only_recvbuf (ri\<lparr>in_ratp := in_ratp ri + 1\<rparr>) ri1"
    and rest: "ratp_poll_rest ops ret1 (ri1, s1) = (ret, ri2, s')"
  from only obtain buf where ri1: "ri1 = ri\<lparr>in_ratp := in_ratp ri + 1, recvbuf := buf\<rparr>"
    unfolding only_recvbuf_def by fastforce
  have "r_state (after_packet ops ret1 (ri1, s1)) = RATP_STATE_ESTABLISHED"
      "recvbuf ri2 = recvbuf (after_packet ops ret1 (ri1, s1))"
    using poll_rest_state [OF rest] after link by auto
  moreover have "r_state ri1 \<noteq> RATP_STATE_ESTABLISHED" using before ri1 by simp
  ultimately have "handshake ri1 (hdr_of (recvbuf ri2))"
    using state_machine_handshake [of "(ri1, x)" ops for x] state_machine_recvbuf [of ops "(ri1, x)" for x]
    by (cases rule: after_packet_machine [of ops ret1 ri1 s1]) auto
  with link ri1 show ?thesis
    by (simp add: handshake_def ratp_an_expected_def ratp_sn_expected_def)
qed

lemma poll_ack:
  "map_option (\<lambda>(ret, link, s). (ret, map_option r_state link))
     (ratp_poll line_ops (Some (listening\<lparr>r_state := RATP_STATE_SYN_RECEIVED\<rparr>), line_with [0x01, 0x4c, 0, 0xb3]))
   = Some (0, Some RATP_STATE_ESTABLISHED)"
  by code_simp

theorem ratp_established_by_handshake_witness:
  "\<exists>ret ri' s'. ratp_poll line_ops (Some (listening\<lparr>r_state := RATP_STATE_SYN_RECEIVED\<rparr>), line_with [0x01, 0x4c, 0, 0xb3])
       = Some (ret, Some ri', s')
     \<and> handshake (listening\<lparr>r_state := RATP_STATE_SYN_RECEIVED\<rparr>) (hdr_of (recvbuf ri'))"
proof -
  let ?ri = "listening\<lparr>r_state := RATP_STATE_SYN_RECEIVED\<rparr>"
  from poll_ack obtain ret ri' s' where
    poll: "ratp_poll line_ops (Some ?ri, line_with [0x01, 0x4c, 0, 0xb3]) = Some (ret, Some ri', s')"
    and est: "r_state ri' = RATP_STATE_ESTABLISHED" by auto
  have "r_state ?ri \<noteq> RATP_STATE_ESTABLISHED" by simp
  from ratp_established_by_handshake [OF poll this est] poll show ?thesis by blast
qed

section \<open>Deviations\<close>

text \<open>A reset does not end the processing of the packet in the states ESTABLISHED and FIN-WAIT. A
  packet that carries reset and finish moves an established connection not to CLOSED but to
  LAST-ACK, and the error reported is that of an orderly shutdown.\<close>

theorem ratp_reset_with_fin_not_closed:
  assumes "r_state (fst rs) = RATP_STATE_ESTABLISHED" and "h = hdr_of (recvbuf (fst rs))"
    and "flag h RATP_CONTROL_RST" "flag h RATP_CONTROL_FIN" "flag h RATP_CONTROL_ACK" "\<not> flag h RATP_CONTROL_SYN"
    and "ratp_sn_expected (fst rs) h"
  shows "r_state (fst (snd (ratp_state_machine ops rs))) = RATP_STATE_LAST_ACK
    \<and> status (fst (snd (ratp_state_machine ops rs))) = - ENETDOWN"
proof -
  have "ratp_behaviour_c2 ops rs = (0, rs)" using assms by (simp add: ratp_behaviour_c2_def Let_def)
  moreover define rs1 where "rs1 = (ratp_state_change ((fst rs)\<lparr>status := - ECONNRESET, sendbuf_len := 0\<rparr>) RATP_STATE_CLOSED, snd rs)"
  moreover have "ratp_behaviour_d2 rs = (0, rs1)"
    using assms by (cases rs) (simp add: ratp_behaviour_d2_def rs1_def)
  moreover have h1: "hdr_of (recvbuf (fst rs1)) = h" using assms(2) by (simp add: rs1_def ratp_state_change_def)
  moreover have "ratp_behaviour_e ops rs1 = (0, rs1)" using assms(6) h1 by (simp add: ratp_behaviour_e_def Let_def)
  moreover have "fst (ratp_behaviour_f2 ops rs1) = 0"
    using assms(5) h1 by (simp add: ratp_behaviour_f2_def Let_def case_prod_beta)
  moreover have "fst (ratp_behaviour_h2 ops rs2) = 1" "r_state (fst (snd (ratp_behaviour_h2 ops rs2))) = RATP_STATE_LAST_ACK"
      "status (fst (snd (ratp_behaviour_h2 ops rs2))) = - ENETDOWN" if "hdr_of (recvbuf (fst rs2)) = h" for rs2
    using assms(4) that by (simp_all add: ratp_behaviour_h2_def Let_def case_prod_beta ratp_state_change_def)
  ultimately show ?thesis using assms(1) by (simp add: ratp_state_machine_def case_prod_beta)
qed

theorem ratp_reset_with_fin_not_closed_witness:
  "r_state (fst (snd (ratp_state_machine line_ops
     (listening\<lparr>r_state := RATP_STATE_ESTABLISHED, recvbuf := [0x01, 0x78, 0, 0x87] @ replicate 508 0\<rparr>, line_with []))))
   = RATP_STATE_LAST_ACK"
proof -
  let ?ri = "listening\<lparr>r_state := RATP_STATE_ESTABLISHED, recvbuf := [0x01, 0x78, 0, 0x87] @ replicate 508 0\<rparr>"
  let ?h = "\<lparr>synch = 0x01, control = 0x78, data_length = 0, cksum = 0x87\<rparr>"
  show ?thesis
    using ratp_reset_with_fin_not_closed [of "(?ri, line_with [])" ?h line_ops]
    by (simp add: hdr_of_def flag_def ratp_sn_expected_def ratp_sn_def ratp_new_def)
qed

text \<open>The request for a connection stays in the send buffer of the end that opens actively: the
  answer moves it to ESTABLISHED without flushing the buffer. When the retransmission timer of 200
  ms runs out, the request is sent again, and the peer takes it for the new connection of an end
  that has crashed and resets. The run below opens a connection between an active and a passive
  end, lets 300 ms pass without data and delivers what the active end sends then.\<close>

definition open_actively :: "(ratp_state option \<times> int \<times> ratp_state option) option" where
  "open_actively =
     (let (a, la) = snd (ratp_send_hdr line_ops (ratp_new True (replicate 512 0) (replicate 512 0), line_with []) RATP_CONTROL_SYN);
          a = ratp_state_change a RATP_STATE_SYN_SENT
      in do { (_, b, lb) \<leftarrow> ratp_poll line_ops (Some listening, line_with (concat (line_out la)));
              (_, a, la) \<leftarrow> ratp_poll line_ops (Some a, la\<lparr>line_in := concat (line_out lb), line_out := []\<rparr>);
              (_, b, lb) \<leftarrow> ratp_poll line_ops (b, lb\<lparr>line_in := concat (line_out la), line_out := []\<rparr>);
              (_, a, la) \<leftarrow> ratp_poll line_ops (a, la\<lparr>line_clock := line_clock la + 300 * MSECOND, line_out := []\<rparr>);
              (ret, b', lb) \<leftarrow> ratp_poll line_ops (b, lb\<lparr>line_in := concat (line_out la), line_out := []\<rparr>);
              Some (map_option r_state b, ret, map_option r_state b') })"

text \<open>The passive end is established after the handshake and closed by the repeated request.\<close>

theorem active_open_resets_peer:
  "open_actively = Some (Some RATP_STATE_ESTABLISHED, - ECONNRESET, Some RATP_STATE_CLOSED)"
  by code_simp

end
