(* ===== verification/Ratp_Messages.thy ===== *)
theory Ratp_Messages
  imports Ratp_States
begin

text \<open>
  Messages: what the receive queue gets from a packet, how \<^verbatim>\<open>ratp_send_complete\<close> cuts data into
  packets, and what \<^verbatim>\<open>ratp_recv\<close> puts together again.
\<close>

section \<open>From a packet to the receive queue\<close>

text \<open>C30. A message of 2 to 255 bytes arrives unchanged: the packet that the sender builds for it is
  taken from the line behind any noise, and the message that is queued from the receive buffer has
  the same data and the same end of record mark.\<close>

theorem ratp_message_delivered:
  assumes "line_ready s" and "line_in s = noise @ ratp_data_packet c msg @ rest" and "1 \<notin> set noise"
    and "plain_control c" and "2 \<le> length (m_data msg)" and "length (m_data msg) \<le> 255"
    and "length (recvbuf ri) = 512" and "c AND RATP_CONTROL_EOR = 0"
  shows "\<exists>ri' s'. ratp_recv_pkt line_ops (ri, s) t = Some (0, ri', s') \<and> line_in s' = rest
    \<and> recvmsg (msg_recv ri') = recvmsg ri @ [msg\<lparr>m_complete := None\<rparr>]"
proof -
  let ?data = "m_data msg"
  have long: "1 < length ?data" "?data \<noteq> []" using assms(5) by auto
  note pkt = data_packet_long [OF long(1), of c]
  define ri' where "ri' = ri\<lparr>recvbuf := ratp_data_packet c msg
    @ drop (length (ratp_data_packet c msg)) (recvbuf ri)\<rparr>"
  from line.recv_data_packet [OF assms(1-4) long(2) assms(6), of ri t] assms(7) obtain s' where
    "ratp_recv_pkt line_ops (ri, s) t = Some (0, ri', s')" "line_in s' = rest"
    by (auto simp: ri'_def)
  moreover have "hdr_of (recvbuf ri') = ratp_create_packet (msg_control c msg) (of_nat (length ?data))"
    by (simp add: ri'_def pkt)
  moreover have "subbuf 4 (length ?data) (recvbuf ri') = ?data"
    by (simp add: ri'_def pkt subbuf_def)
  moreover have "of_nat (length ?data) \<noteq> (0 :: u8)" using unat_len_u8 [OF assms(6)] long by auto
  moreover have "msg_control c msg AND RATP_CONTROL_EOR \<noteq> 0 \<longleftrightarrow> m_eor msg"
    using assms(8) by (simp add: msg_control_def bit.conj_disj_distrib2)
  ultimately show ?thesis
    using unat_len_u8 [OF assms(6)] by (cases msg) (auto simp: msg_recv_def Let_def ri'_def)
qed

text \<open>A message of one byte travels in the length field. The receiver takes that byte for a
  length: unless the byte is 0, it queues as many bytes as its value says, and they are what an
  earlier packet left in the receive buffer.\<close>

theorem single_byte_message_garbled:
  assumes "line_ready s" and "line_in s = ratp_data_packet c msg @ rest"
    and "plain_control c" and "m_data msg = [b]" and "b \<noteq> 0" and "length (recvbuf ri) = 512"
  shows "\<exists>ri' s'. ratp_recv_pkt line_ops (ri, s) t = Some (0, ri', s')
    \<and> m_data (last (recvmsg (msg_recv ri'))) = subbuf 4 (unat b) (recvbuf ri)"
proof -
  define ri' where "ri' = ri\<lparr>recvbuf := ratp_data_packet c msg
    @ drop (length (ratp_data_packet c msg)) (recvbuf ri)\<rparr>"
  have "line_in s = [] @ ratp_data_packet c msg @ rest" using assms(2) by simp
  from line.recv_data_packet [OF assms(1) this _ assms(3), of ri t] assms(4,6) obtain s' where
    "ratp_recv_pkt line_ops (ri, s) t = Some (0, ri', s')"
    by (auto simp: ri'_def)
  moreover have "data_length (hdr_of (recvbuf ri')) = b"
    by (simp add: ri'_def data_packet_single [OF assms(4)])
  moreover have "subbuf 4 (unat b) (recvbuf ri') = subbuf 4 (unat b) (recvbuf ri)"
    by (simp add: ri'_def data_packet_single [OF assms(4)] subbuf_def)
  ultimately show ?thesis using assms(5) by (simp add: msg_recv_def Let_def)
qed

theorem single_byte_message_garbled_witness:
  "\<exists>ri' s'. ratp_recv_pkt line_ops (listening\<lparr>recvbuf := replicate 512 0x55\<rparr>, line_with [0x01, 0x49, 2, 0xb4]) 100
       = Some (0, ri', s')
     \<and> m_data (last (recvmsg (msg_recv ri'))) = [0x55, 0x55]"
proof -
  let ?msg = "\<lparr>m_data = [2], m_eor = False, m_complete = None\<rparr>"
  have "line_in (line_with [0x01, 0x49, 2, 0xb4]) = ratp_data_packet 0x48 ?msg @ []"
    by (simp add: ratp_data_packet_def hdr_bytes_def ratp_create_packet_def)
  from single_byte_message_garbled [OF _ this, of 2 "listening\<lparr>recvbuf := replicate 512 0x55\<rparr>" 100]
  have "\<exists>ri' s'. ratp_recv_pkt line_ops (listening\<lparr>recvbuf := replicate 512 0x55\<rparr>, line_with [0x01, 0x49, 2, 0xb4]) 100
       = Some (0, ri', s')
     \<and> m_data (last (recvmsg (msg_recv ri'))) = subbuf 4 (unat (2 :: u8)) (replicate 512 0x55)"
    by (simp add: line_ready_def ratp_new_def)
  moreover have "subbuf 4 (unat (2 :: u8)) (replicate 512 (0x55 :: u8)) = [0x55, 0x55]" by code_simp
  ultimately show ?thesis by (simp only:)
qed

theorem ratp_message_delivered_witness:
  "\<exists>ri' s'. ratp_recv_pkt line_ops (listening,
       line_with ([0x7f, 0x7f] @ ratp_data_packet 0x48 \<lparr>m_data = [7, 8, 9], m_eor = True, m_complete = Some 5\<rparr> @ [0x41])) 100
       = Some (0, ri', s') \<and> line_in s' = [0x41]
     \<and> recvmsg (msg_recv ri') = [\<lparr>m_data = [7, 8, 9], m_eor = True, m_complete = None\<rparr>]"
  using ratp_message_delivered [of "line_with ([0x7f, 0x7f] @ ratp_data_packet 0x48
      \<lparr>m_data = [7, 8, 9], m_eor = True, m_complete = Some 5\<rparr> @ [0x41])" "[0x7f, 0x7f]" "0x48"
      "\<lparr>m_data = [7, 8, 9], m_eor = True, m_complete = Some 5\<rparr>" "[0x41]" listening 100]
  by (simp add: line_ready_def ratp_new_def)

section \<open>From the receive queue to the user\<close>

lemma record_len_first:
  assumes "list_all (\<lambda>m. \<not> m_eor m) msgs" and "m_eor m"
  shows "ratp_record_len (msgs @ m # later) = Some (length (concat (map m_data msgs)) + length (m_data m))"
  using assms by (induction msgs) simp_all

lemma copy_msgs_fit:
  assumes "pos + length (concat (map m_data msgs)) = length data"
  shows "ratp_copy_msgs data pos msgs = Some (take pos data @ concat (map m_data msgs))"
  using assms
proof (induction msgs arbitrary: data pos)
  case (Cons m msgs)
  have "memcpy_to data pos (m_data m)
      = Some (take pos data @ m_data m @ drop (pos + length (m_data m)) data)"
    using Cons.prems by (simp add: memcpy_to_def)
  with Cons show ?case by simp
qed simp

lemma copy_msgs_overrun:
  assumes "length data < pos + length (concat (map m_data msgs))" and "pos \<le> length data"
  shows "ratp_copy_msgs data pos msgs = None"
  using assms
proof (induction msgs arbitrary: data pos)
  case (Cons m msgs)
  show ?case
  proof (cases "pos + length (m_data m) \<le> length data")
    case True
    then have "memcpy_to data pos (m_data m)
        = Some (take pos data @ m_data m @ drop (pos + length (m_data m)) data)"
      by (simp add: memcpy_to_def)
    with Cons True show ?thesis by simp
  qed (simp add: memcpy_to_def)
qed simp

lemma recv_record_queue:
  assumes "r_state ri = RATP_STATE_ESTABLISHED" and "recvmsg ri = msgs @ m # later"
    and "list_all (\<lambda>m. \<not> m_eor m) msgs" and "m_eor m" and "list_all ratp_msg_ok later"
  shows "ratp_recv (Some ri)
    = (if later = [] then Some (0, concat (map m_data (recvmsg ri)), Some (ri\<lparr>recvmsg := []\<rparr>)) else None)"
proof -
  let ?len = "length (concat (map m_data msgs)) + length (m_data m)"
  have len: "ratp_record_len (recvmsg ri) = Some ?len" using assms by (simp add: record_len_first)
  have "length (concat (map m_data (recvmsg ri))) = ?len + length (concat (map m_data later))"
    using assms(2) by simp
  moreover have "0 < length (concat (map m_data later))" if "later \<noteq> []"
    using that assms(5) by (cases later) (auto simp: ratp_msg_ok_def)
  ultimately have "ratp_copy_msgs (replicate ?len 0) 0 (recvmsg ri)
      = (if later = [] then Some (concat (map m_data (recvmsg ri))) else None)"
    by (auto simp: copy_msgs_fit copy_msgs_overrun)
  with assms(1) len show ?thesis by (simp add: ratp_recv_def)
qed

text \<open>C32. What \<^verbatim>\<open>ratp_recv\<close> does with a queue whose first record is complete: it delivers the
  record if nothing follows. If packets of the next record are already queued, they are copied
  behind the end of the buffer that was allocated for the first.\<close>

theorem ratp_recv_record:
  assumes "r_state ri = RATP_STATE_ESTABLISHED" and "recvmsg ri = msgs @ m # later" and "ratp_wf ri"
    and "list_all (\<lambda>m. \<not> m_eor m) msgs" and "m_eor m"
  shows "ratp_recv (Some ri)
    = (if later = [] then Some (0, concat (map m_data (recvmsg ri)), Some (ri\<lparr>recvmsg := []\<rparr>)) else None)"
  by (rule recv_record_queue [OF assms(1,2,4,5)]) (use assms(2,3) in \<open>simp add: ratp_wf_def\<close>)

theorem ratp_recv_record_witness:
  "ratp_recv (Some (listening\<lparr>r_state := RATP_STATE_ESTABLISHED,
     recvmsg := [\<lparr>m_data = [1, 2], m_eor = False, m_complete = None\<rparr>, \<lparr>m_data = [3], m_eor = True, m_complete = None\<rparr>,
       \<lparr>m_data = [4], m_eor = True, m_complete = None\<rparr>]\<rparr>)) = None"
proof -
  let ?ri = "listening\<lparr>r_state := RATP_STATE_ESTABLISHED,
     recvmsg := [\<lparr>m_data = [1, 2], m_eor = False, m_complete = None\<rparr>, \<lparr>m_data = [3], m_eor = True, m_complete = None\<rparr>,
       \<lparr>m_data = [4], m_eor = True, m_complete = None\<rparr>]\<rparr>"
  have "ratp_wf ?ri" by (simp add: ratp_wf_def ratp_new_def ratp_msg_ok_def)
  with ratp_recv_record [of ?ri "[\<lparr>m_data = [1, 2], m_eor = False, m_complete = None\<rparr>]"
      "\<lparr>m_data = [3], m_eor = True, m_complete = None\<rparr>" "[\<lparr>m_data = [4], m_eor = True, m_complete = None\<rparr>]"]
  show ?thesis by simp
qed

lemma split_shape:
  assumes "data \<noteq> []"
  shows "concat (map m_data (ratp_split data complete)) = data \<and> list_all ratp_msg_ok (ratp_split data complete)
    \<and> (\<exists>msgs m. ratp_split data complete = msgs @ [m] \<and> list_all (\<lambda>m. \<not> m_eor m \<and> m_complete m = None) msgs
         \<and> m_eor m \<and> m_complete m = complete)"
  using assms
proof (induction data complete rule: ratp_split.induct)
  case (1 data complete)
  show ?case
  proof (cases "length data \<le> 255")
    case True
    then show ?thesis using 1(2) by (subst (1 2 3) ratp_split.simps) (auto simp: ratp_msg_ok_def Let_def)
  next
    case False
    define rest where "rest = ratp_split (drop 255 data) complete"
    have split: "ratp_split data complete = \<lparr>m_data = take 255 data, m_eor = False, m_complete = None\<rparr> # rest"
      using False by (subst ratp_split.simps) (simp add: Let_def rest_def min_def)
    have ih: "concat (map m_data rest) = drop 255 data \<and> list_all ratp_msg_ok rest
        \<and> (\<exists>msgs m. rest = msgs @ [m] \<and> list_all (\<lambda>m. \<not> m_eor m \<and> m_complete m = None) msgs
             \<and> m_eor m \<and> m_complete m = complete)"
      using 1(1) [OF refl, of] False by (simp add: rest_def min_def)
    then obtain msgs m where "rest = msgs @ [m]" "list_all (\<lambda>m. \<not> m_eor m \<and> m_complete m = None) msgs"
      "m_eor m" "m_complete m = complete" by blast
    then have "\<exists>msgs m. ratp_split data complete = msgs @ [m] \<and> list_all (\<lambda>m. \<not> m_eor m \<and> m_complete m = None) msgs
        \<and> m_eor m \<and> m_complete m = complete"
      unfolding split by (intro exI [of _ "\<lparr>m_data = take 255 data, m_eor = False, m_complete = None\<rparr> # msgs"] exI [of _ m]) simp
    moreover have "ratp_msg_ok \<lparr>m_data = take 255 data, m_eor = False, m_complete = None\<rparr>"
      using 1(2) by (simp add: ratp_msg_ok_def)
    ultimately show ?thesis using ih by (simp add: split)
  qed
qed

text \<open>C31. Data accepted for sending is queued as packets of 1 to 255 bytes, of which only the last
  carries the end of record mark and the completion callback. A peer that has received exactly
  these packets gets the data back as one record.\<close>

theorem ratp_send_recv:
  assumes "r_state ri = RATP_STATE_ESTABLISHED" and "data \<noteq> []"
    and "r_state peer = RATP_STATE_ESTABLISHED"
    and "recvmsg peer = map (\<lambda>m. m\<lparr>m_complete := None\<rparr>) (drop (length (sendmsg ri)) (sendmsg ri'))"
    and "ratp_send_complete (Some ri) data complete = (ret, Some ri')"
  shows "ret = 0 \<and> take (length (sendmsg ri)) (sendmsg ri') = sendmsg ri
    \<and> ratp_recv (Some peer) = Some (0, data, Some (peer\<lparr>recvmsg := []\<rparr>))"
proof -
  from assms(1,2,5) have ri': "ret = 0" "sendmsg ri' = sendmsg ri @ ratp_split data complete"
    by (auto simp: ratp_send_complete_def)
  let ?strip = "\<lambda>m. m\<lparr>m_complete := None :: nat option\<rparr>"
  from split_shape [OF assms(2), of complete] obtain msgs m where
    split: "ratp_split data complete = msgs @ [m]" "list_all (\<lambda>m. \<not> m_eor m) msgs" "m_eor m"
    and all: "concat (map m_data (msgs @ [m])) = data"
    by (auto simp: list_all_iff)
  have queue: "recvmsg peer = map ?strip msgs @ ?strip m # []" using assms(4) ri'(2) split(1) by simp
  have "map m_data (recvmsg peer) = map m_data (msgs @ [m])" unfolding queue by (simp add: o_def)
  moreover have "list_all (\<lambda>m. \<not> m_eor m) (map ?strip msgs)" using split(2) by (simp add: list_all_iff)
  ultimately show ?thesis
    using recv_record_queue [OF assms(3) queue] split(3) all ri' by simp
qed

theorem ratp_send_recv_witness:
  "ratp_recv (Some (listening\<lparr>r_state := RATP_STATE_ESTABLISHED,
       recvmsg := [\<lparr>m_data = [5, 6, 7], m_eor = True, m_complete = None\<rparr>]\<rparr>))
     = Some (0, [5, 6, 7], Some (listening\<lparr>r_state := RATP_STATE_ESTABLISHED, recvmsg := []\<rparr>))"
proof -
  let ?ri = "listening\<lparr>r_state := RATP_STATE_ESTABLISHED\<rparr>"
  let ?peer = "?ri\<lparr>recvmsg := [\<lparr>m_data = [5, 6, 7], m_eor = True, m_complete = None\<rparr>]\<rparr>"
  let ?ri' = "?ri\<lparr>sendmsg := [\<lparr>m_data = [5, 6, 7], m_eor = True, m_complete = Some 1\<rparr>]\<rparr>"
  have "ratp_split [5, 6, 7] (Some 1) = [\<lparr>m_data = [5, 6, 7], m_eor = True, m_complete = Some 1\<rparr>]"
    by (subst ratp_split.simps) simp
  then have "ratp_send_complete (Some ?ri) [5, 6, 7] (Some 1) = (0, Some ?ri')"
    by (simp add: ratp_send_complete_def ratp_new_def)
  from ratp_send_recv [OF _ _ _ _ this, of ?peer] show ?thesis
    by (simp add: ratp_wf_def ratp_new_def ratp_msg_ok_def)
qed

end
