(* ===== verification/Ratp_Link.thy ===== *)
theory Ratp_Link
  imports Ratp_Messages
begin

text \<open>
  Two ends of a connection over lines that lose packets. One end sends messages, the other one
  receives them; every step is a call of the interface of the protocol on one end, the delivery of
  a packet to a poll, or the loss of a packet. The safety theorem is that of the alternating bit
  protocol: the receiver's queue is a prefix of what was queued for sending, in order, without
  loss or duplicate, and a message is reported as sent only after it was received. The last section
  shows that this does not extend to messages in both directions at the same time.
\<close>

section \<open>Packets of an established connection\<close>

definition data_ctl :: "bool \<Rightarrow> bool \<Rightarrow> u8" where
  "data_ctl sn an = ratp_set_sn sn OR ratp_set_an an OR RATP_CONTROL_ACK"

definition data_pkt :: "bool \<Rightarrow> bool \<Rightarrow> ratp_message \<Rightarrow> bytes" where
  "data_pkt sn an msg = ratp_data_packet (data_ctl sn an) msg"

definition ack_pkt :: "bool \<Rightarrow> bool \<Rightarrow> bytes" where
  "ack_pkt sn an = hdr_bytes (ratp_create_packet (data_ctl sn an) 0)"

lemmas ctl_defs = data_ctl_def ratp_set_sn_def ratp_set_an_def msg_control_def

lemma plain_data_ctl [simp]: "plain_control (data_ctl sn an)" "data_ctl sn an AND RATP_CONTROL_EOR = 0"
  by (cases sn; cases an; simp add: ctl_defs)+

text \<open>Messages that keep their data on the way: of at least two bytes.\<close>

definition msg_intact :: "ratp_message \<Rightarrow> bool" where
  "msg_intact msg \<longleftrightarrow> 2 \<le> length (m_data msg) \<and> length (m_data msg) \<le> 255"

abbreviation (input) strip :: "ratp_message \<Rightarrow> ratp_message" where
  "strip msg \<equiv> msg\<lparr>m_complete := None\<rparr>"

definition data_hdr :: "bool \<Rightarrow> bool \<Rightarrow> ratp_message \<Rightarrow> ratp_header" where
  "data_hdr sn an msg = ratp_create_packet (msg_control (data_ctl sn an) msg) (of_nat (length (m_data msg)))"

lemma data_hdr_fields:
  assumes "msg_intact msg"
  shows "ratp_sn (data_hdr sn an msg) = sn" "ratp_an (data_hdr sn an msg) = an"
    "flag (data_hdr sn an msg) RATP_CONTROL_ACK" "\<not> flag (data_hdr sn an msg) RATP_CONTROL_RST"
    "\<not> flag (data_hdr sn an msg) RATP_CONTROL_SYN" "\<not> flag (data_hdr sn an msg) RATP_CONTROL_FIN"
    "flag (data_hdr sn an msg) RATP_CONTROL_EOR = m_eor msg" "ratp_has_data (data_hdr sn an msg)"
    "unat (data_length (data_hdr sn an msg)) = length (m_data msg)"
proof -
  have len: "unat (of_nat (length (m_data msg)) :: u8) = length (m_data msg)"
    using assms by (simp add: msg_intact_def unat_len_u8)
  then have "of_nat (length (m_data msg)) \<noteq> (0 :: u8)" using assms by (auto simp: msg_intact_def)
  then show "ratp_sn (data_hdr sn an msg) = sn" "ratp_an (data_hdr sn an msg) = an"
    "flag (data_hdr sn an msg) RATP_CONTROL_ACK" "\<not> flag (data_hdr sn an msg) RATP_CONTROL_RST"
    "\<not> flag (data_hdr sn an msg) RATP_CONTROL_SYN" "\<not> flag (data_hdr sn an msg) RATP_CONTROL_FIN"
    "flag (data_hdr sn an msg) RATP_CONTROL_EOR = m_eor msg" "ratp_has_data (data_hdr sn an msg)"
    by (cases sn; cases an; cases "m_eor msg"; simp add: data_hdr_def ratp_sn_def ratp_an_def ratp_has_data_def ctl_defs)+
  show "unat (data_length (data_hdr sn an msg)) = length (m_data msg)" by (simp add: data_hdr_def len)
qed

lemma data_pkt_shape:
  assumes "msg_intact msg"
  shows "data_pkt sn an msg = hdr_bytes (data_hdr sn an msg) @ m_data msg @ be16 (crc_itu_t 0 (m_data msg))"
  using assms by (simp add: data_pkt_def data_hdr_def msg_intact_def data_packet_long)

definition ack_hdr :: "bool \<Rightarrow> bool \<Rightarrow> ratp_header" where
  "ack_hdr sn an = ratp_create_packet (data_ctl sn an) 0"

lemma ack_hdr_fields:
  "ratp_sn (ack_hdr sn an) = sn" "ratp_an (ack_hdr sn an) = an" "flag (ack_hdr sn an) RATP_CONTROL_ACK"
  "\<not> flag (ack_hdr sn an) RATP_CONTROL_RST" "\<not> flag (ack_hdr sn an) RATP_CONTROL_SYN"
  "\<not> flag (ack_hdr sn an) RATP_CONTROL_FIN" "\<not> ratp_has_data (ack_hdr sn an)"
  "data_length (ack_hdr sn an) = 0" "synch (ack_hdr sn an) = 1" "ratp_header_ok (ack_hdr sn an)"
  by (cases sn; cases an; simp add: ack_hdr_def ratp_sn_def ratp_an_def ratp_has_data_def ctl_defs)+

text \<open>An acknowledgment is sent and forgotten; a data packet is kept for retransmission.\<close>

lemma send_ack_line:
  "ratp_send_ack line_ops (ri, s) h
    = (0, ri, s\<lparr>line_out := line_out s @ [ack_pkt (ratp_an h) (\<not> ratp_sn h)]\<rparr>)"
proof -
  have pkt: "ratp_set_sn (ratp_an h) OR ratp_set_next_an (ratp_sn h) OR RATP_CONTROL_ACK = data_ctl (ratp_an h) (\<not> ratp_sn h)"
    by (simp add: data_ctl_def ratp_set_next_an_def)
  have "\<not> flag (ack_hdr sn an) (RATP_CONTROL_SYN OR RATP_CONTROL_RST OR RATP_CONTROL_FIN)" for sn an
    by (cases sn; cases an) (simp_all add: ack_hdr_def ctl_defs)
  then show ?thesis unfolding ratp_send_ack_def pkt Let_def ratp_send_hdr_def ack_hdr_def [symmetric]
    by (simp add: ratp_send_pkt_def ack_hdr_fields ack_pkt_def ack_hdr_def [symmetric] line_ops_def)
qed

section \<open>The receiving end\<close>

definition receiver_is :: "ratp_internal \<Rightarrow> bool \<Rightarrow> bool" where
  "receiver_is ri r \<longleftrightarrow> r_state ri = RATP_STATE_ESTABLISHED \<and> status ri = 0 \<and> sendmsg ri = []
     \<and> sendmsg_current ri = None \<and> sendbuf_len ri = 0 \<and> length (recvbuf ri) = 512 \<and> sn_received ri = r"

lemma receiver_machine_duplicate:
  assumes "receiver_is ri r" and "hdr_of (recvbuf ri) = data_hdr r an msg" and "msg_intact msg"
  shows "ratp_state_machine line_ops (ri, s) = (1, ri, s\<lparr>line_out := line_out s @ [ack_pkt an (\<not> r)]\<rparr>)"
  using assms data_hdr_fields [OF assms(3)]
  by (simp add: ratp_state_machine_def receiver_is_def ratp_behaviour_c2_def ratp_sn_expected_def Let_def send_ack_line)

lemma receiver_machine_new:
  assumes "receiver_is ri r" and "hdr_of (recvbuf ri) = data_hdr (\<not> r) an msg" and "msg_intact msg"
  shows "ratp_state_machine line_ops (ri, s)
    = (0, msg_recv (ri\<lparr>sn_received := \<not> r\<rparr>), s\<lparr>line_out := line_out s @ [ack_pkt an r]\<rparr>)"
proof -
  note fields = data_hdr_fields [OF assms(3)]
  have "ri\<lparr>sendmsg_current := None, sendbuf_len := 0\<rparr> = ri"
    using assms(1) by (cases ri) (simp add: receiver_is_def)
  then have "ratp_behaviour_f2 line_ops (ri, s) = (0, ri, s)"
    using assms fields by (simp add: ratp_behaviour_f2_def receiver_is_def Let_def)
  moreover have "ratp_behaviour_i1 line_ops (ri, s)
      = (0, msg_recv (ri\<lparr>sn_received := \<not> r\<rparr>), s\<lparr>line_out := line_out s @ [ack_pkt an r]\<rparr>)"
    using assms fields by (simp add: ratp_behaviour_i1_def receiver_is_def Let_def send_ack_line msg_recv_def)
  ultimately show ?thesis using assms fields
    by (simp add: ratp_state_machine_def receiver_is_def ratp_behaviour_c2_def ratp_behaviour_d2_def
      ratp_behaviour_e_def ratp_behaviour_h2_def ratp_sn_expected_def Let_def)
qed

lemma msg_recv_data:
  assumes "recvbuf ri = data_pkt sn an msg @ rest" and "msg_intact msg"
  shows "msg_recv ri = ri\<lparr>recvmsg := recvmsg ri @ [strip msg]\<rparr>"
proof -
  have "hdr_of (recvbuf ri) = data_hdr sn an msg" "subbuf 4 (length (m_data msg)) (recvbuf ri) = m_data msg"
    using assms by (simp_all add: data_pkt_shape subbuf_def)
  moreover have "data_length (data_hdr sn an msg) \<noteq> 0"
    using data_hdr_fields(9) [OF assms(2), of sn an] assms(2) by (auto simp: msg_intact_def)
  ultimately show ?thesis
    using data_hdr_fields [OF assms(2), of sn an] by (cases msg) (simp add: msg_recv_def Let_def)
qed

lemma poll_steps:
  assumes "ratp_recv_pkt ops (ri\<lparr>in_ratp := in_ratp ri + 1\<rparr>, s) 100 = Some (c, ri1, s1)"
    and "ratp_poll_rest ops c (ri1, s1) = (ret, ri2, s2)"
  shows "ratp_poll ops (Some ri, s) = Some (ret, Some (ri2\<lparr>in_ratp := in_ratp ri2 - 1\<rparr>), s2)"
  using assms by (simp add: ratp_poll_def ratp_poll_internal_def)

text \<open>A poll of the receiving end: it acknowledges every data packet and takes those with the
  expected sequence number.\<close>

lemma poll_receiver:
  assumes "receiver_is ri r" and "line_ready s" and "line_in s = noise @ data_pkt sn an msg" and "1 \<notin> set noise"
    and "msg_intact msg"
  shows "\<exists>ri' s'. ratp_poll line_ops (Some ri, s) = Some (0, Some ri', s') \<and> receiver_is ri' sn
    \<and> line_out s' = line_out s @ [ack_pkt an (\<not> sn)] \<and> recvmsg ri' = recvmsg ri @ (if sn = r then [] else [strip msg])"
proof -
  define ri0 where "ri0 = ri\<lparr>in_ratp := in_ratp ri + 1\<rparr>"
  define ri1 where "ri1 = ri0\<lparr>recvbuf := data_pkt sn an msg @ drop (length (data_pkt sn an msg)) (recvbuf ri)\<rparr>"
  have "261 \<le> length (recvbuf ri0)" using assms(1) by (simp add: receiver_is_def ri0_def)
  moreover have "m_data msg \<noteq> []" using assms(5) by (auto simp: msg_intact_def)
  ultimately obtain s1 where
    recv: "ratp_recv_pkt line_ops (ri0, s) 100 = Some (0, ri1, s1)" and out: "line_out s1 = line_out s"
    using line.recv_data_packet [of s noise "data_ctl sn an" msg "[]" ri0 100] assms(2-5)
    by (auto simp: ri1_def ri0_def data_pkt_def msg_intact_def)
  have len: "length (data_pkt sn an msg) \<le> 512" using assms(5) by (simp add: data_pkt_shape msg_intact_def)
  have is1: "receiver_is ri1 r" using assms(1) len by (simp add: receiver_is_def ri1_def ri0_def)
  have hdr: "hdr_of (recvbuf ri1) = data_hdr sn an msg" using assms(5) by (simp add: ri1_def data_pkt_shape)
  have taken: "msg_recv (ri1\<lparr>sn_received := sn\<rparr>) = ri1\<lparr>sn_received := sn, recvmsg := recvmsg ri @ [strip msg]\<rparr>"
    using msg_recv_data [of "ri1\<lparr>sn_received := sn\<rparr>" sn an msg] assms(5) by (simp add: ri1_def ri0_def)
  define ri2 where "ri2 = (if sn = r then ri1 else ri1\<lparr>sn_received := sn, recvmsg := recvmsg ri @ [strip msg]\<rparr>)"
  have "\<exists>c\<ge>0. ratp_state_machine line_ops (ri1, s1) = (c, ri2, s1\<lparr>line_out := line_out s @ [ack_pkt an (\<not> sn)]\<rparr>)"
    using receiver_machine_duplicate [OF is1, of an msg s1] receiver_machine_new [OF is1, of an msg s1] hdr assms(5) taken out
    by (cases "sn = r") (auto simp: ri2_def)
  moreover have is2: "receiver_is ri2 sn" using is1 by (simp add: ri2_def receiver_is_def)
  ultimately have "ratp_poll_rest line_ops 0 (ri1, s1) = (0, ri2, s1\<lparr>line_out := line_out s @ [ack_pkt an (\<not> sn)]\<rparr>)"
    using is1 by (auto simp: ratp_poll_rest_def ratp_poll_packet_def receiver_is_def ratp_retransmit_def ratp_poll_next_def Let_def)
  from poll_steps [OF recv [unfolded ri0_def] this] is2 show ?thesis
    by (auto simp: receiver_is_def ri2_def ri1_def ri0_def)
qed

text \<open>A poll without a valid packet: nothing, noise or a damaged packet has arrived.\<close>

definition no_packet :: "ratp_internal \<Rightarrow> line \<Rightarrow> bool" where
  "no_packet ri s \<longleftrightarrow> (\<forall>ri1 s1. ratp_recv_pkt line_ops (ri\<lparr>in_ratp := in_ratp ri + 1\<rparr>, s) 100 \<noteq> Some (0, ri1, s1))"

lemma poll_no_packet:
  assumes "line_ready s" and "no_packet ri s"
  obtains buf s1 where "length buf = length (recvbuf ri)" "line_ready s1"
    "line_out s1 = line_out s" "line_done s1 = line_done s"
    "\<And>ret ri2 s2. ratp_poll_rest line_ops (- EAGAIN) (ri\<lparr>in_ratp := in_ratp ri + 1, recvbuf := buf\<rparr>, s1) = (ret, ri2, s2)
      \<Longrightarrow> ratp_poll line_ops (Some ri, s) = Some (ret, Some (ri2\<lparr>in_ratp := in_ratp ri2 - 1\<rparr>), s2)"
proof -
  from line.recv_pkt_returns [OF assms(1), of "ri\<lparr>in_ratp := in_ratp ri + 1\<rparr>" 100] obtain c buf s1 where
    recv: "ratp_recv_pkt line_ops (ri\<lparr>in_ratp := in_ratp ri + 1\<rparr>, s) 100
      = Some (c, ri\<lparr>in_ratp := in_ratp ri + 1, recvbuf := buf\<rparr>, s1)"
    and s1: "length buf = length (recvbuf ri)" "line_ready s1" "line_out s1 = line_out s" "line_done s1 = line_done s"
    by (auto simp: line.receives_def)
  have c: "c \<noteq> 0" using assms(2) recv by (auto simp: no_packet_def)
  have "ratp_poll_rest line_ops c rs = ratp_poll_rest line_ops (- EAGAIN) rs" for rs
    using c by (simp add: ratp_poll_rest_def)
  with that [OF s1] poll_steps [OF recv] show ?thesis by simp
qed

lemma poll_receiver_idle:
  assumes "receiver_is ri r" and "line_ready s" and "no_packet ri s"
  shows "\<exists>ri' s'. ratp_poll line_ops (Some ri, s) = Some (0, Some ri', s') \<and> receiver_is ri' r
    \<and> line_out s' = line_out s \<and> recvmsg ri' = recvmsg ri"
  using assms(2,3)
proof (rule poll_no_packet)
  fix buf s1
  assume s1: "length buf = length (recvbuf ri)" "line_out s1 = line_out s"
    and poll: "\<And>ret ri2 s2. ratp_poll_rest line_ops (- EAGAIN) (ri\<lparr>in_ratp := in_ratp ri + 1, recvbuf := buf\<rparr>, s1) = (ret, ri2, s2)
      \<Longrightarrow> ratp_poll line_ops (Some ri, s) = Some (ret, Some (ri2\<lparr>in_ratp := in_ratp ri2 - 1\<rparr>), s2)"
  have "ratp_poll_rest line_ops (- EAGAIN) (ri\<lparr>in_ratp := in_ratp ri + 1, recvbuf := buf\<rparr>, s1)
      = (0, ri\<lparr>in_ratp := in_ratp ri + 1, recvbuf := buf\<rparr>, s1)"
    using assms(1) by (simp add: ratp_poll_rest_def ratp_retransmit_def ratp_poll_next_def receiver_is_def)
  from poll [OF this] s1 assms(1) show ?thesis by (simp add: receiver_is_def)
qed

section \<open>The sending end\<close>

definition sender_is :: "bool \<Rightarrow> ratp_internal \<Rightarrow> bool \<Rightarrow> ratp_message option \<Rightarrow> ratp_message list \<Rightarrow> bool" where
  "sender_is an ri sn cur queue \<longleftrightarrow> r_state ri = RATP_STATE_ESTABLISHED \<and> status ri = 0
     \<and> sn_sent ri = sn \<and> sn_received ri = (\<not> an) \<and> sendmsg_current ri = cur \<and> sendmsg ri = queue
     \<and> length (recvbuf ri) = 512 \<and> length (sendbuf ri) = 512 \<and> list_all msg_intact queue
     \<and> (case cur of None \<Rightarrow> sendbuf_len ri = 0
        | Some msg \<Rightarrow> msg_intact msg \<and> sendbuf_len ri \<noteq> 0 \<and> take (sendbuf_len ri) (sendbuf ri) = data_pkt sn an msg)"

text \<open>What the sending end does after it has looked at a packet: nothing, send the packet again that
  is not acknowledged yet, give up, or send the next message.\<close>

lemma send_data_line:
  assumes "sender_is an ri sn None (msg # queue)"
  shows "\<exists>ri' s'. ratp_send_next_data line_ops (ri, s) = (0, ri', s') \<and> sender_is an ri' (\<not> sn) (Some msg) queue
    \<and> in_ratp ri' = in_ratp ri \<and> line_out s' = line_out s @ [data_pkt (\<not> sn) an msg] \<and> line_done s' = line_done s"
proof -
  have ctl: "ratp_set_next_sn a OR ratp_set_next_an b OR RATP_CONTROL_ACK = data_ctl (\<not> a) (\<not> b)" for a b
    by (simp add: data_ctl_def ratp_set_next_sn_def ratp_set_next_an_def)
  have ok: "msg_intact msg" "list_all msg_intact queue" using assms by (simp_all add: sender_is_def)
  have pkt: "ratp_data_packet (data_ctl (\<not> sn) an) msg = data_pkt (\<not> sn) an msg" by (simp add: data_pkt_def)
  have hdr: "hdr_of (data_pkt (\<not> sn) an msg) = data_hdr (\<not> sn) an msg" by (simp add: data_pkt_shape ok)
  have len: "length (data_pkt (\<not> sn) an msg) \<noteq> 0" "length (data_pkt (\<not> sn) an msg) \<le> 512"
    using ok(1) by (simp_all add: data_pkt_shape msg_intact_def)
  show ?thesis
    using assms ok len data_hdr_fields [OF ok(1), of "\<not> sn" an]
    by (simp add: ratp_send_next_data_def ctl sender_is_def Let_def ratp_send_pkt_def pkt hdr line_ops_def)
qed

definition sender_acts ::
  "bool \<Rightarrow> bool \<Rightarrow> ratp_message option \<Rightarrow> ratp_message list \<Rightarrow> ratp_internal \<Rightarrow> bytes list \<Rightarrow> bool" where
  "sender_acts an sn cur queue ri' out \<longleftrightarrow>
     sender_is an ri' sn cur queue \<and> out = [] \<and> (cur = None \<longrightarrow> queue = [])
     \<or> (\<exists>msg. cur = Some msg \<and> sender_is an ri' sn cur queue \<and> out = [data_pkt sn an msg])
     \<or> cur \<noteq> None \<and> r_state ri' = RATP_STATE_CLOSED \<and> out = []
     \<or> (\<exists>msg queue'. cur = None \<and> queue = msg # queue' \<and> sender_is an ri' (\<not> sn) (Some msg) queue'
          \<and> out = [data_pkt (\<not> sn) an msg])"

lemma sender_update [simp]:
  "sender_is an (ri\<lparr>retransmission_count := n\<rparr>) sn cur queue = sender_is an ri sn cur queue"
  "sender_is an (ri\<lparr>retransmission_timer_start := t\<rparr>) sn cur queue = sender_is an ri sn cur queue"
  "sender_is an (ri\<lparr>in_ratp := n\<rparr>) sn cur queue = sender_is an ri sn cur queue"
  "sender_is an (ri\<lparr>srtt := x\<rparr>) sn cur queue = sender_is an ri sn cur queue"
  "sender_is an (ri\<lparr>rto := x\<rparr>) sn cur queue = sender_is an ri sn cur queue"
  "length buf = 512 \<Longrightarrow> sender_is an ri sn cur queue \<Longrightarrow> sender_is an (ri\<lparr>recvbuf := buf\<rparr>) sn cur queue"
  by (cases cur; simp add: sender_is_def)+

lemma acts_update [simp]: "sender_acts an sn cur queue (ri\<lparr>in_ratp := n\<rparr>) out = sender_acts an sn cur queue ri out"
  by (simp add: sender_acts_def)

lemma sender_rest:
  assumes "sender_is an ri sn cur queue"
  shows "\<exists>ret ri' s' out. (case ratp_retransmit line_ops (ri, s) of (ret, rs) \<Rightarrow>
       if ret \<noteq> 0 then (ret, rs) else (0, ratp_poll_next line_ops rs)) = (ret, ri', s')
     \<and> sender_acts an sn cur queue ri' out \<and> line_out s' = line_out s @ out \<and> line_done s' = line_done s"
proof (cases cur)
  case None
  then have "sendbuf_len ri = 0" "sendmsg ri = queue" using assms by (simp_all add: sender_is_def)
  then show ?thesis
    using assms None send_data_line [of an ri sn _ _ s]
    by (cases queue) (fastforce simp: ratp_retransmit_def ratp_poll_next_def sender_acts_def)+
next
  case (Some msg)
  then have buf: "sendbuf_len ri \<noteq> 0" "take (sendbuf_len ri) (sendbuf ri) = data_pkt sn an msg"
    using assms by (simp_all add: sender_is_def)
  obtain expired s1 where timeout: "is_timeout line_ops s (retransmission_timer_start ri) (of_int (rto ri) * MSECOND) = (expired, s1)"
    and s1: "line_out s1 = line_out s" "line_done s1 = line_done s"
    by (simp add: is_timeout_def line_ops_def)
  show ?thesis
  proof (cases "expired \<and> retransmission_count ri + 1 = max_retransmission ri")
    case True
    then show ?thesis using buf timeout Some s1
      by (auto simp: ratp_retransmit_def Let_def sender_acts_def)
  next
    case False
    then show ?thesis using buf timeout Some s1 assms
      by (cases expired) (auto simp: ratp_retransmit_def Let_def sender_acts_def ratp_poll_next_def line_ops_def)
  qed
qed

definition completions :: "ratp_message list \<Rightarrow> (nat \<times> int) list" where
  "completions msgs = concat (map (\<lambda>m. case m_complete m of None \<Rightarrow> [] | Some ctx \<Rightarrow> [(ctx, 0)]) msgs)"

abbreviation (input) completed :: "ratp_message option \<Rightarrow> (nat \<times> int) list" where
  "completed cur \<equiv> completions (case cur of None \<Rightarrow> [] | Some msg \<Rightarrow> [msg])"

lemma sender_acked:
  assumes "sender_is an ri sn cur queue" and "hdr_of (recvbuf ri) = ack_hdr an (\<not> sn)"
  shows "\<exists>ri' s'. ratp_behaviour_f2 line_ops (ri, s) = (0, ri', s') \<and> sender_is an ri' sn None queue
    \<and> recvbuf ri' = recvbuf ri \<and> line_out s' = line_out s \<and> line_done s' = line_done s @ completed cur"
proof -
  have flush: "sender_is an (ri\<lparr>sendmsg_current := None, sendbuf_len := 0\<rparr>) sn None queue"
    using assms(1) by (simp add: sender_is_def)
  have "\<exists>x y s'. ratp_msg_done line_ops (ri, s) msg 0 = (ri\<lparr>srtt := x, rto := y\<rparr>, s')
      \<and> line_out s' = line_out s \<and> line_done s' = line_done s @ completions [msg]" for msg
    by (auto simp: ratp_msg_done_def line_ops_def completions_def Let_def split: option.split)
  note finished = this
  show ?thesis
  proof (cases cur)
    case None
    with flush assms ack_hdr_fields [of an "\<not> sn"] show ?thesis
      by (simp add: ratp_behaviour_f2_def Let_def ratp_an_expected_def sender_is_def completions_def)
  next
    case (Some msg)
    from finished [of msg] obtain x y s' where "ratp_msg_done line_ops (ri, s) msg 0 = (ri\<lparr>srtt := x, rto := y\<rparr>, s')"
      "line_out s' = line_out s" "line_done s' = line_done s @ completions [msg]" by blast
    with Some flush assms ack_hdr_fields [of an "\<not> sn"] show ?thesis
      by (simp add: ratp_behaviour_f2_def Let_def ratp_an_expected_def sender_is_def)
  qed
qed

lemma sender_machine:
  assumes "sender_is an ri sn cur queue" and "hdr_of (recvbuf ri) = ack_hdr an a"
  shows "\<exists>ri' s'. ratp_state_machine line_ops (ri, s) = (1, ri', s')
    \<and> sender_is an ri' sn (if a = sn then cur else None) queue \<and> line_out s' = line_out s
    \<and> line_done s' = line_done s @ (if a = sn then [] else completed cur)"
proof -
  note fields = ack_hdr_fields [of an a]
  have pre: "ratp_behaviour_c2 line_ops (ri, s) = (0, ri, s)" "ratp_behaviour_d2 (ri, s) = (0, ri, s)"
      "ratp_behaviour_e line_ops (ri, s) = (0, ri, s)"
    using assms fields
    by (simp_all add: ratp_behaviour_c2_def ratp_behaviour_d2_def ratp_behaviour_e_def ratp_sn_expected_def sender_is_def Let_def)
  have post: "ratp_behaviour_h2 line_ops (ri', s') = (0, ri', s')" "ratp_behaviour_i1 line_ops (ri', s') = (1, ri', s')"
    if "recvbuf ri' = recvbuf ri" for ri' and s' :: line
    using that assms(2) fields by (simp_all add: ratp_behaviour_h2_def ratp_behaviour_i1_def Let_def)
  have "\<exists>ri' s'. ratp_behaviour_f2 line_ops (ri, s) = (0, ri', s') \<and> recvbuf ri' = recvbuf ri
      \<and> sender_is an ri' sn (if a = sn then cur else None) queue \<and> line_out s' = line_out s
      \<and> line_done s' = line_done s @ (if a = sn then [] else completed cur)"
  proof (cases "a = sn")
    case True
    with assms fields have "ratp_behaviour_f2 line_ops (ri, s) = (0, ri, s)"
      by (simp add: ratp_behaviour_f2_def Let_def ratp_an_expected_def sender_is_def)
    with True assms(1) show ?thesis by simp
  next
    case False
    then have "a = (\<not> sn)" by simp
    with sender_acked [OF assms(1), of s] assms(2) False show ?thesis by auto
  qed
  then obtain ri' s' where "ratp_behaviour_f2 line_ops (ri, s) = (0, ri', s')" "recvbuf ri' = recvbuf ri"
      "sender_is an ri' sn (if a = sn then cur else None) queue" "line_out s' = line_out s"
      "line_done s' = line_done s @ (if a = sn then [] else completed cur)" by blast
  moreover have "r_state ri = RATP_STATE_ESTABLISHED" using assms(1) by (simp add: sender_is_def)
  ultimately show ?thesis by (simp add: ratp_state_machine_def pre post)
qed

text \<open>A poll of the sending end, without a packet and with an acknowledgment.\<close>

lemma poll_sender_idle:
  assumes "sender_is an ri sn cur queue" and "line_ready s" and "no_packet ri s"
  shows "\<exists>ret ri' s' out. ratp_poll line_ops (Some ri, s) = Some (ret, Some ri', s')
    \<and> sender_acts an sn cur queue ri' out \<and> line_out s' = line_out s @ out \<and> line_done s' = line_done s"
  using assms(2,3)
proof (rule poll_no_packet)
  fix buf s1
  assume s1: "length buf = length (recvbuf ri)" "line_out s1 = line_out s" "line_done s1 = line_done s"
    and poll: "\<And>ret ri2 s2. ratp_poll_rest line_ops (- EAGAIN) (ri\<lparr>in_ratp := in_ratp ri + 1, recvbuf := buf\<rparr>, s1) = (ret, ri2, s2)
      \<Longrightarrow> ratp_poll line_ops (Some ri, s) = Some (ret, Some (ri2\<lparr>in_ratp := in_ratp ri2 - 1\<rparr>), s2)"
  have "sender_is an (ri\<lparr>in_ratp := in_ratp ri + 1, recvbuf := buf\<rparr>) sn cur queue"
    using assms(1) s1(1) by (cases cur) (simp_all add: sender_is_def)
  from sender_rest [OF this, of s1] obtain ret ri' s' out where
    rest: "ratp_poll_rest line_ops (- EAGAIN) (ri\<lparr>in_ratp := in_ratp ri + 1, recvbuf := buf\<rparr>, s1) = (ret, ri', s')"
    and "sender_acts an sn cur queue ri' out" "line_out s' = line_out s1 @ out" "line_done s' = line_done s1"
    by (auto simp: ratp_poll_rest_def)
  with poll [OF rest] s1 show ?thesis by auto
qed

lemma poll_sender_ack:
  assumes "sender_is an ri sn cur queue" and "line_ready s"
    and "line_in s = noise @ ack_pkt an a" and "1 \<notin> set noise"
  shows "\<exists>ret ri' s' out. ratp_poll line_ops (Some ri, s) = Some (ret, Some ri', s')
    \<and> sender_acts an sn (if a = sn then cur else None) queue ri' out \<and> line_out s' = line_out s @ out
    \<and> line_done s' = line_done s @ (if a = sn then [] else completed cur)"
proof -
  define ri1 where "ri1 = ri\<lparr>in_ratp := in_ratp ri + 1, recvbuf := hdr_bytes (ack_hdr an a) @ drop 4 (recvbuf ri)\<rparr>"
  have "length (recvbuf ri) = 512" using assms(1) by (simp add: sender_is_def)
  with line.recv_pkt_bare [of s noise "ack_hdr an a" "[]" "ri\<lparr>in_ratp := in_ratp ri + 1\<rparr>" 100] assms(2-4) ack_hdr_fields [of an a]
  obtain s1 where recv: "ratp_recv_pkt line_ops (ri\<lparr>in_ratp := in_ratp ri + 1\<rparr>, s) 100 = Some (0, ri1, s1)"
    and s1: "line_out s1 = line_out s" "line_done s1 = line_done s"
    by (auto simp: ri1_def ack_pkt_def ack_hdr_def [symmetric])
  have "sender_is an ri1 sn cur queue" using assms(1) by (cases cur) (simp_all add: ri1_def sender_is_def)
  moreover have "hdr_of (recvbuf ri1) = ack_hdr an a" by (simp add: ri1_def)
  ultimately obtain ri2 s2 where machine: "ratp_state_machine line_ops (ri1, s1) = (1, ri2, s2)"
    and ri2: "sender_is an ri2 sn (if a = sn then cur else None) queue"
    and s2: "line_out s2 = line_out s1" "line_done s2 = line_done s1 @ (if a = sn then [] else completed cur)"
    using sender_machine [of an ri1 sn cur queue a s1] by blast
  have "r_state ri1 = RATP_STATE_ESTABLISHED" "status ri2 = 0"
    using assms(1) ri2 by (simp_all add: ri1_def sender_is_def)
  with machine have "ratp_poll_packet line_ops (ri1, s1) = (0, ri2, s2)" by (simp add: ratp_poll_packet_def)
  with sender_rest [OF ri2, of s2] obtain ret ri' s' out where
    rest: "ratp_poll_rest line_ops 0 (ri1, s1) = (ret, ri', s')"
    and "sender_acts an sn (if a = sn then cur else None) queue ri' out" "line_out s' = line_out s2 @ out"
      "line_done s' = line_done s2"
    by (auto simp: ratp_poll_rest_def)
  with poll_steps [OF recv rest] s1 s2 show ?thesis by auto
qed

section \<open>The two ends and the packets between them\<close>

text \<open>\<open>queued\<close> collects the messages accepted for sending, \<open>taken\<close> the messages the
  receiving user has fetched and \<open>records\<close> the records they were fetched as.\<close>

record link =
  tx_end :: ratp_internal
  rx_end :: ratp_internal
  data_chan :: "bytes list"
  ack_chan :: "bytes list"
  tx_done :: "(nat \<times> int) list"
  queued :: "ratp_message list"
  taken :: "ratp_message list"
  records :: "bytes list"

definition established :: "link \<Rightarrow> bool" where
  "established l \<longleftrightarrow> r_state (tx_end l) = RATP_STATE_ESTABLISHED \<and> r_state (rx_end l) = RATP_STATE_ESTABLISHED"

definition idle_line :: "line \<Rightarrow> bool" where
  "idle_line s \<longleftrightarrow> line_ready s \<and> line_out s = []"

text \<open>Steps while the connection is established. A poll finds the next packet behind some noise
  or no valid packet at all, and any time may have passed since the last one. Of the packets in a
  channel any may get lost.\<close>

inductive link_step :: "link \<Rightarrow> link \<Rightarrow> bool" where
  deliver_data: "\<lbrakk>established l; data_chan l = pkt # rest; idle_line s; line_in s = noise @ pkt; 1 \<notin> set noise;
     ratp_poll line_ops (Some (rx_end l), s) = Some (ret, Some ri, s')\<rbrakk>
     \<Longrightarrow> link_step l (l\<lparr>rx_end := ri, data_chan := rest, ack_chan := ack_chan l @ line_out s'\<rparr>)"
| deliver_ack: "\<lbrakk>established l; ack_chan l = pkt # rest; idle_line s; line_in s = noise @ pkt; 1 \<notin> set noise;
     line_done s = tx_done l; ratp_poll line_ops (Some (tx_end l), s) = Some (ret, Some ri, s')\<rbrakk>
     \<Longrightarrow> link_step l (l\<lparr>tx_end := ri, ack_chan := rest, data_chan := data_chan l @ line_out s', tx_done := line_done s'\<rparr>)"
| idle_rx: "\<lbrakk>established l; idle_line s; no_packet (rx_end l) s;
     ratp_poll line_ops (Some (rx_end l), s) = Some (ret, Some ri, s')\<rbrakk>
     \<Longrightarrow> link_step l (l\<lparr>rx_end := ri, ack_chan := ack_chan l @ line_out s'\<rparr>)"
| idle_tx: "\<lbrakk>established l; idle_line s; no_packet (tx_end l) s; line_done s = tx_done l;
     ratp_poll line_ops (Some (tx_end l), s) = Some (ret, Some ri, s')\<rbrakk>
     \<Longrightarrow> link_step l (l\<lparr>tx_end := ri, data_chan := data_chan l @ line_out s', tx_done := line_done s'\<rparr>)"
| lose_data: "established l \<Longrightarrow> link_step l (l\<lparr>data_chan := nths (data_chan l) kept\<rparr>)"
| lose_ack: "established l \<Longrightarrow> link_step l (l\<lparr>ack_chan := nths (ack_chan l) kept\<rparr>)"
| user_send: "\<lbrakk>established l; ratp_send_complete (Some (tx_end l)) data complete = (0, Some ri);
     list_all msg_intact (ratp_split data complete)\<rbrakk>
     \<Longrightarrow> link_step l (l\<lparr>tx_end := ri, queued := queued l @ ratp_split data complete\<rparr>)"
| user_recv: "\<lbrakk>established l; ratp_recv (Some (rx_end l)) = Some (0, data, Some ri)\<rbrakk>
     \<Longrightarrow> link_step l (l\<lparr>rx_end := ri, taken := taken l @ recvmsg (rx_end l), records := records l @ [data]\<rparr>)"

definition got :: "link \<Rightarrow> ratp_message list" where
  "got l = taken l @ recvmsg (rx_end l)"

text \<open>The invariant has three cases: the current message is on its way, it was received but is not
  acknowledged yet, and there is none. In each of them the channels hold only packets that the two
  ends can tell apart by one bit: in a line that keeps the order, what an earlier message left
  behind comes first.\<close>

definition of_bit :: "bool \<Rightarrow> (bool \<times> ratp_message) list \<Rightarrow> bool" where
  "of_bit sn ds \<longleftrightarrow> (\<forall>(b, m) \<in> set ds. b = sn \<and> msg_intact m)"

abbreviation (input) wire :: "bool \<Rightarrow> (bool \<times> ratp_message) list \<Rightarrow> bytes list" where
  "wire an ds \<equiv> map (\<lambda>(b, m). data_pkt b an m) ds"

inductive link_inv :: "link \<Rightarrow> bool" where
  on_its_way: "\<lbrakk>sender_is an (tx_end l) sn (Some msg) queue; receiver_is (rx_end l) (\<not> sn);
     data_chan l = wire an (olds @ replicate n (sn, msg)); of_bit (\<not> sn) olds;
     ack_chan l = replicate k (ack_pkt an sn); queued l = pre @ msg # queue; got l = map strip pre;
     tx_done l = completions pre\<rbrakk> \<Longrightarrow> link_inv l"
| received: "\<lbrakk>sender_is an (tx_end l) sn (Some msg) queue; receiver_is (rx_end l) sn;
     data_chan l = wire an ds; of_bit sn ds;
     ack_chan l = replicate j (ack_pkt an sn) @ replicate k (ack_pkt an (\<not> sn)); queued l = pre @ msg # queue;
     got l = map strip (pre @ [msg]); tx_done l = completions pre\<rbrakk> \<Longrightarrow> link_inv l"
| acknowledged: "\<lbrakk>sender_is an (tx_end l) sn None queue; receiver_is (rx_end l) sn;
     data_chan l = wire an ds; of_bit sn ds; ack_chan l = replicate k (ack_pkt an (\<not> sn));
     queued l = pre @ queue; got l = map strip pre; tx_done l = completions pre\<rbrakk> \<Longrightarrow> link_inv l"

lemma sender_intact: "sender_is an ri sn (Some msg) queue \<Longrightarrow> msg_intact msg"
  by (simp add: sender_is_def)

lemma of_bit_simps [simp]:
  "of_bit sn []" "of_bit sn ((b, m) # ds) \<longleftrightarrow> b = sn \<and> msg_intact m \<and> of_bit sn ds"
  "of_bit sn (ds @ es) \<longleftrightarrow> of_bit sn ds \<and> of_bit sn es"
  by (auto simp: of_bit_def)

lemma of_bit_replicate [simp]: "msg_intact m \<Longrightarrow> of_bit sn (replicate n (sn, m))"
  by (simp add: of_bit_def)

lemma of_bit_nths: "of_bit sn ds \<Longrightarrow> of_bit sn (nths ds I)"
  using set_nths_subset [of ds I] by (auto simp: of_bit_def)

lemma nths_replicate: "nths (replicate n x) I = replicate (length (nths (replicate n x) I)) x"
  using set_nths_subset [of "replicate n x" I] by (intro replicate_eqI) (auto split: if_splits)

text \<open>The receiving end.\<close>

lemma rx_poll:
  assumes "receiver_is (rx_end l) r" and "idle_line s" and "line_in s = noise @ data_pkt b an m" and "1 \<notin> set noise"
    and "msg_intact m" and "ratp_poll line_ops (Some (rx_end l), s) = Some (ret, Some ri, s')"
  shows "receiver_is ri b" "line_out s' = [ack_pkt an (\<not> b)]"
    "got (l\<lparr>rx_end := ri, data_chan := rest, ack_chan := ack\<rparr>) = got l @ (if b = r then [] else [strip m])"
  using poll_receiver [of "rx_end l" r s noise b an m] assms by (auto simp: idle_line_def got_def)

lemma inv_deliver_data:
  assumes "link_inv l" and "data_chan l = pkt # rest" and "idle_line s" and "line_in s = noise @ pkt" and "1 \<notin> set noise"
    and poll: "ratp_poll line_ops (Some (rx_end l), s) = Some (ret, Some ri, s')"
  shows "link_inv (l\<lparr>rx_end := ri, data_chan := rest, ack_chan := ack_chan l @ line_out s'\<rparr>)" (is "link_inv ?l'")
  using assms(1)
proof cases
  case (on_its_way an sn msg queue olds n k pre)
  show ?thesis
  proof (cases olds)
    case Nil
    with on_its_way(3) assms(2) obtain n' where n: "n = Suc n'" and pkt: "pkt = data_pkt sn an msg"
      and rest: "rest = wire an (replicate n' (sn, msg))"
      by (cases n) auto
    from rx_poll [OF on_its_way(2) assms(3) _ assms(5) sender_intact [OF on_its_way(1)] poll] assms(4) pkt
    have "receiver_is ri sn" "line_out s' = [ack_pkt an (\<not> sn)]" "got ?l' = got l @ [strip msg]" by auto
    with on_its_way rest sender_intact [OF on_its_way(1)] show ?thesis
      by (intro link_inv.received [of an _ sn msg queue "replicate n' (sn, msg)" k 1 pre]) simp_all
  next
    case (Cons d olds')
    obtain b m where d: "d = (b, m)" by fastforce
    with on_its_way(3,4) Cons assms(2) have pkt: "pkt = data_pkt (\<not> sn) an m" "msg_intact m" "of_bit (\<not> sn) olds'"
      and rest: "rest = wire an (olds' @ replicate n (sn, msg))" by auto
    from rx_poll [OF on_its_way(2) assms(3) _ assms(5) pkt(2) poll] assms(4) pkt(1)
    have "receiver_is ri (\<not> sn)" "line_out s' = [ack_pkt an sn]" "got ?l' = got l" by auto
    with on_its_way rest pkt(3) show ?thesis
      by (intro link_inv.on_its_way [of an _ sn msg queue olds' n "Suc k" pre]) (simp_all add: replicate_append_same)
  qed
next
  case (received an sn msg queue ds j k pre)
  with assms(2) obtain b m ds' where ds: "ds = (b, m) # ds'" by (cases ds) auto
  with received(3,4) assms(2) have pkt: "pkt = data_pkt sn an m" "msg_intact m" and rest: "rest = wire an ds'" by auto
  from rx_poll [OF received(2) assms(3) _ assms(5) pkt(2) poll] assms(4) pkt(1)
  have "receiver_is ri sn" "line_out s' = [ack_pkt an (\<not> sn)]" "got ?l' = got l" by auto
  with received rest ds show ?thesis
    by (intro link_inv.received [of an _ sn msg queue ds' j "Suc k" pre]) (simp_all add: replicate_append_same)
next
  case (acknowledged an sn queue ds k pre)
  with assms(2) obtain b m ds' where ds: "ds = (b, m) # ds'" by (cases ds) auto
  with acknowledged(3,4) assms(2) have pkt: "pkt = data_pkt sn an m" "msg_intact m" and rest: "rest = wire an ds'" by auto
  from rx_poll [OF acknowledged(2) assms(3) _ assms(5) pkt(2) poll] assms(4) pkt(1)
  have "receiver_is ri sn" "line_out s' = [ack_pkt an (\<not> sn)]" "got ?l' = got l" by auto
  with acknowledged rest ds show ?thesis
    by (intro link_inv.acknowledged [of an _ sn queue ds' "Suc k" pre]) (simp_all add: replicate_append_same)
qed

text \<open>The sending end: it goes on with the current message, or gives up, or takes the next one.\<close>

lemma acts_current:
  assumes "sender_acts an sn (Some msg) queue ri out"
  shows "r_state ri = RATP_STATE_CLOSED
    \<or> sender_is an ri sn (Some msg) queue \<and> (\<exists>i. out = wire an (replicate i (sn, msg)))"
proof -
  from assms have "r_state ri = RATP_STATE_CLOSED
      \<or> sender_is an ri sn (Some msg) queue \<and> (out = wire an (replicate 0 (sn, msg)) \<or> out = wire an (replicate 1 (sn, msg)))"
    by (auto simp: sender_acts_def)
  then show ?thesis by metis
qed

lemma inv_next:
  assumes acts: "sender_acts an sn None queue ri out" and "receiver_is (rx_end l) sn" and "data_chan l = wire an ds" "of_bit sn ds"
    and "queued l = pre @ queue" "got l = map strip pre"
  shows "link_inv (l\<lparr>tx_end := ri, ack_chan := replicate k (ack_pkt an (\<not> sn)), data_chan := data_chan l @ out,
    tx_done := completions pre\<rparr>)" (is "link_inv ?l'")
proof -
  have got: "got ?l' = map strip pre" using assms(6) by (simp add: got_def)
  from acts consider "sender_is an ri sn None queue" "out = []"
    | msg queue' where "queue = msg # queue'" "sender_is an ri (\<not> sn) (Some msg) queue'" "out = [data_pkt (\<not> sn) an msg]"
    by (auto simp: sender_acts_def)
  then show ?thesis
  proof cases
    case 1
    with assms got show ?thesis by (intro link_inv.acknowledged [of an _ sn queue ds k pre]) simp_all
  next
    case (2 msg queue')
    with assms got show ?thesis by (intro link_inv.on_its_way [of an _ "\<not> sn" msg queue' ds 1 k pre]) simp_all
  qed
qed

lemma inv_on_its_way:
  assumes acts: "sender_acts an sn (Some msg) queue ri out" and "receiver_is (rx_end l) (\<not> sn)"
    and "data_chan l = wire an (olds @ replicate n (sn, msg))" "of_bit (\<not> sn) olds"
    and "queued l = pre @ msg # queue" "got l = map strip pre"
  shows "r_state ri = RATP_STATE_CLOSED \<or> link_inv (l\<lparr>tx_end := ri, ack_chan := replicate k (ack_pkt an sn),
    data_chan := data_chan l @ out, tx_done := completions pre\<rparr>)" (is "_ \<or> link_inv ?l'")
proof -
  have got: "got ?l' = map strip pre" using assms(6) by (simp add: got_def)
  from acts_current [OF acts] show ?thesis
  proof (elim disjE conjE exE)
    fix i
    assume "sender_is an ri sn (Some msg) queue" "out = wire an (replicate i (sn, msg))"
    with assms got have "link_inv ?l'"
      by (intro link_inv.on_its_way [of an _ sn msg queue olds "n + i" k pre]) (simp_all add: replicate_add)
    then show ?thesis ..
  qed simp
qed

lemma inv_received:
  assumes acts: "sender_acts an sn (Some msg) queue ri out" and "receiver_is (rx_end l) sn"
    and "data_chan l = wire an ds" "of_bit sn ds" and "queued l = pre @ msg # queue" "got l = map strip (pre @ [msg])"
  shows "r_state ri = RATP_STATE_CLOSED
    \<or> link_inv (l\<lparr>tx_end := ri, ack_chan := replicate j (ack_pkt an sn) @ replicate k (ack_pkt an (\<not> sn)),
        data_chan := data_chan l @ out, tx_done := completions pre\<rparr>)" (is "_ \<or> link_inv ?l'")
proof -
  have got: "got ?l' = map strip (pre @ [msg])" using assms(6) by (simp add: got_def)
  from acts_current [OF acts] show ?thesis
  proof (elim disjE conjE exE)
    fix i
    assume "sender_is an ri sn (Some msg) queue" "out = wire an (replicate i (sn, msg))"
    with assms got have "link_inv ?l'"
      by (intro link_inv.received [of an _ sn msg queue "ds @ replicate i (sn, msg)" j k pre]) (simp_all add: sender_intact)
    then show ?thesis ..
  qed simp
qed

text \<open>What holds also after the sending end has given up.\<close>

definition link_safe :: "link \<Rightarrow> bool" where
  "link_safe l \<longleftrightarrow> (\<exists>pre later. queued l = pre @ later \<and> got l = map strip pre
     \<and> (\<exists>n. tx_done l = completions (take n pre)))"

lemma inv_safe:
  assumes "link_inv l"
  shows "link_safe l"
  using assms
proof cases
  case (received an sn msg queue ds j k pre)
  then have "queued l = (pre @ [msg]) @ queue" "tx_done l = completions (take (length pre) (pre @ [msg]))" by simp_all
  with received show ?thesis unfolding link_safe_def by blast
next
  case (on_its_way an sn msg queue olds n k pre)
  then have "tx_done l = completions (take (length pre) pre)" by simp
  with on_its_way show ?thesis unfolding link_safe_def by blast
next
  case (acknowledged an sn queue ds k pre)
  then have "tx_done l = completions (take (length pre) pre)" by simp
  with acknowledged show ?thesis unfolding link_safe_def by blast
qed

definition link_ok :: "link \<Rightarrow> bool" where
  "link_ok l \<longleftrightarrow> link_inv l \<or> r_state (tx_end l) = RATP_STATE_CLOSED \<and> link_safe l"

lemma ok_safe: "link_ok l \<Longrightarrow> link_safe l"
  by (auto simp: link_ok_def inv_safe)

lemma closed_ok:
  assumes "link_inv l" and "r_state (tx_end l') = RATP_STATE_CLOSED" and "got l' = got l" "queued l' = queued l" "tx_done l' = tx_done l"
  shows "link_ok l'"
  using inv_safe [OF assms(1)] assms by (simp add: link_ok_def link_safe_def)

text \<open>The result of a poll of the sending end, put together.\<close>

definition tx_polled :: "link \<Rightarrow> ratp_internal \<Rightarrow> bytes list \<Rightarrow> line \<Rightarrow> link" where
  "tx_polled l ri ack s' =
     l\<lparr>tx_end := ri, ack_chan := ack, data_chan := data_chan l @ line_out s', tx_done := line_done s'\<rparr>"

lemma tx_polled_closed:
  "link_inv l \<Longrightarrow> r_state ri = RATP_STATE_CLOSED \<Longrightarrow> line_done s' = tx_done l \<Longrightarrow> link_ok (tx_polled l ri ack s')"
  by (erule closed_ok) (simp_all add: tx_polled_def got_def)

lemma ok_deliver_ack:
  assumes inv: "link_inv l" and "ack_chan l = pkt # rest" and "idle_line s" and "line_in s = noise @ pkt" and "1 \<notin> set noise"
    and "line_done s = tx_done l" and poll: "ratp_poll line_ops (Some (tx_end l), s) = Some (ret, Some ri, s')"
  shows "link_ok (tx_polled l ri rest s')"
proof -
  have acts: "sender_acts an sn (if a = sn then cur else None) queue ri (line_out s')
      \<and> line_done s' = tx_done l @ (if a = sn then [] else completed cur)"
    if "sender_is an (tx_end l) sn cur queue" "pkt = ack_pkt an a" for an sn cur queue a
    using poll_sender_ack [OF that(1), of s noise a] assms that(2) by (auto simp: idle_line_def)
  from inv show ?thesis
  proof cases
    case (on_its_way an sn msg queue olds n k pre)
    then have pkt: "pkt = ack_pkt an sn" and rest: "rest = replicate (k - 1) (ack_pkt an sn)"
      using assms(2) by (cases k; auto)+
    with acts [OF on_its_way(1) pkt] inv_on_its_way [OF _ on_its_way(2-4,6,7), of ri "line_out s'" "k - 1"]
      tx_polled_closed [OF inv] on_its_way(8) show ?thesis
      by (auto simp: tx_polled_def link_ok_def)
  next
    case (received an sn msg queue ds j k pre)
    show ?thesis
    proof (cases j)
      case 0
      then have pkt: "pkt = ack_pkt an (\<not> sn)" and rest: "rest = replicate (k - 1) (ack_pkt an (\<not> sn))"
        using assms(2) received(5) by (cases k; auto)+
      from acts [OF received(1) pkt] received(8)
      have next1: "sender_acts an sn None queue ri (line_out s')" "line_done s' = completions (pre @ [msg])"
        by (auto simp: completions_def)
      have "queued l = (pre @ [msg]) @ queue" using received(6) by simp
      from inv_next [OF next1(1) received(2-4) this received(7), of "k - 1"] next1(2) rest show ?thesis
        by (simp add: tx_polled_def link_ok_def)
    next
      case (Suc j')
      then have pkt: "pkt = ack_pkt an sn" and rest: "rest = replicate j' (ack_pkt an sn) @ replicate k (ack_pkt an (\<not> sn))"
        using assms(2) received(5) by auto
      with acts [OF received(1) pkt] inv_received [OF _ received(2-4,6,7), of ri "line_out s'" j' k]
        tx_polled_closed [OF inv] received(8) show ?thesis
        by (auto simp: tx_polled_def link_ok_def)
    qed
  next
    case (acknowledged an sn queue ds k pre)
    then have pkt: "pkt = ack_pkt an (\<not> sn)" and rest: "rest = replicate (k - 1) (ack_pkt an (\<not> sn))"
      using assms(2) by (cases k; auto)+
    from acts [OF acknowledged(1) pkt] acknowledged(8)
    have "sender_acts an sn None queue ri (line_out s')" "line_done s' = completions pre"
      by (auto simp: completions_def)
    with inv_next [OF _ acknowledged(2-4,6,7), of ri "line_out s'" "k - 1"] rest show ?thesis
      by (simp add: tx_polled_def link_ok_def)
  qed
qed

lemma ok_idle_tx:
  assumes inv: "link_inv l" and "idle_line s" and "no_packet (tx_end l) s" and "line_done s = tx_done l"
    and poll: "ratp_poll line_ops (Some (tx_end l), s) = Some (ret, Some ri, s')"
  shows "link_ok (tx_polled l ri (ack_chan l) s')"
proof -
  have acts: "sender_acts an sn cur queue ri (line_out s') \<and> line_done s' = tx_done l"
    if "sender_is an (tx_end l) sn cur queue" for an sn cur queue
    using poll_sender_idle [OF that, of s] assms by (auto simp: idle_line_def)
  from inv show ?thesis
  proof cases
    case (on_its_way an sn msg queue olds n k pre)
    with acts [OF on_its_way(1)] inv_on_its_way [OF _ on_its_way(2-4,6,7), of ri "line_out s'" k] tx_polled_closed [OF inv]
    show ?thesis by (auto simp: tx_polled_def link_ok_def)
  next
    case (received an sn msg queue ds j k pre)
    with acts [OF received(1)] inv_received [OF _ received(2-4,6,7), of ri "line_out s'" j k] tx_polled_closed [OF inv]
    show ?thesis by (auto simp: tx_polled_def link_ok_def)
  next
    case (acknowledged an sn queue ds k pre)
    with acts [OF acknowledged(1)] inv_next [OF _ acknowledged(2-4,6,7), of ri "line_out s'" k]
    show ?thesis by (simp add: tx_polled_def link_ok_def)
  qed
qed

lemma inv_idle_rx:
  assumes inv: "link_inv l" and "idle_line s" and "no_packet (rx_end l) s"
    and poll: "ratp_poll line_ops (Some (rx_end l), s) = Some (ret, Some ri, s')"
  shows "link_inv (l\<lparr>rx_end := ri, ack_chan := ack_chan l @ line_out s'\<rparr>)" (is "link_inv ?l'")
proof -
  have rx: "receiver_is ri r \<and> line_out s' = [] \<and> recvmsg ri = recvmsg (rx_end l)" if "receiver_is (rx_end l) r" for r
    using poll_receiver_idle [OF that, of s] assms by (auto simp: idle_line_def)
  from inv show ?thesis
  proof cases
    case (on_its_way an sn msg queue olds n k pre)
    with rx [OF on_its_way(2)] show ?thesis by (intro link_inv.on_its_way [of an _ sn msg queue olds n k pre]) (simp_all add: got_def)
  next
    case (received an sn msg queue ds j k pre)
    with rx [OF received(2)] show ?thesis by (intro link_inv.received [of an _ sn msg queue ds j k pre]) (simp_all add: got_def)
  next
    case (acknowledged an sn queue ds k pre)
    with rx [OF acknowledged(2)] show ?thesis by (intro link_inv.acknowledged [of an _ sn queue ds k pre]) (simp_all add: got_def)
  qed
qed

lemma inv_lose_data:
  assumes "link_inv l"
  shows "link_inv (l\<lparr>data_chan := nths (data_chan l) kept\<rparr>)" (is "link_inv ?l'")
proof -
  have got: "got ?l' = got l" by (simp add: got_def)
  from assms show ?thesis
  proof cases
    case (on_its_way an sn msg queue olds n k pre)
    define I where "I = {j. j + length olds \<in> kept}"
    have "data_chan ?l' = wire an (nths olds kept @ replicate (length (nths (replicate n (data_pkt sn an msg)) I)) (sn, msg))"
      using on_its_way(3) nths_replicate [of n "data_pkt sn an msg" I] by (simp add: nths_append nths_map I_def)
    with on_its_way got of_bit_nths [OF on_its_way(4)] show ?thesis
      by (intro link_inv.on_its_way [of an _ sn msg queue "nths olds kept" _ k pre]) simp_all
  next
    case (received an sn msg queue ds j k pre)
    with got of_bit_nths [OF received(4)] show ?thesis
      by (intro link_inv.received [of an _ sn msg queue "nths ds kept" j k pre]) (simp_all add: nths_map)
  next
    case (acknowledged an sn queue ds k pre)
    with got of_bit_nths [OF acknowledged(4)] show ?thesis
      by (intro link_inv.acknowledged [of an _ sn queue "nths ds kept" k pre]) (simp_all add: nths_map)
  qed
qed

lemma inv_lose_ack:
  assumes "link_inv l"
  shows "link_inv (l\<lparr>ack_chan := nths (ack_chan l) kept\<rparr>)" (is "link_inv ?l'")
proof -
  have got: "got ?l' = got l" by (simp add: got_def)
  from assms show ?thesis
  proof cases
    case (on_its_way an sn msg queue olds n k pre)
    with got nths_replicate [of k "ack_pkt an sn" kept] show ?thesis
      by (intro link_inv.on_its_way [of an _ sn msg queue olds n _ pre]) simp_all
  next
    case (received an sn msg queue ds j k pre)
    have "ack_chan ?l' = replicate (length (nths (replicate j (ack_pkt an sn)) kept)) (ack_pkt an sn)
        @ replicate (length (nths (replicate k (ack_pkt an (\<not> sn))) {i. i + j \<in> kept})) (ack_pkt an (\<not> sn))"
      using received(5) nths_replicate [of j "ack_pkt an sn" kept]
        nths_replicate [of k "ack_pkt an (\<not> sn)" "{i. i + j \<in> kept}"] by (simp add: nths_append)
    with received got show ?thesis by (intro link_inv.received [of an _ sn msg queue ds _ _ pre]) simp_all
  next
    case (acknowledged an sn queue ds k pre)
    with got nths_replicate [of k "ack_pkt an (\<not> sn)" kept] show ?thesis
      by (intro link_inv.acknowledged [of an _ sn queue ds _ pre]) simp_all
  qed
qed

lemma inv_user_send:
  assumes "link_inv l" and "list_all msg_intact msgs"
  shows "link_inv (l\<lparr>tx_end := (tx_end l)\<lparr>sendmsg := sendmsg (tx_end l) @ msgs\<rparr>, queued := queued l @ msgs\<rparr>)" (is "link_inv ?l'")
proof -
  have got: "got ?l' = got l" by (simp add: got_def)
  have tx: "sender_is an (tx_end ?l') sn cur (queue @ msgs)" if "sender_is an (tx_end l) sn cur queue" for an sn cur queue
    using that assms(2) by (cases cur) (simp_all add: sender_is_def)
  from assms(1) show ?thesis
  proof cases
    case (on_its_way an sn msg queue olds n k pre)
    with got tx [OF on_its_way(1)] show ?thesis
      by (intro link_inv.on_its_way [of an _ sn msg "queue @ msgs" olds n k pre]) simp_all
  next
    case (received an sn msg queue ds j k pre)
    with got tx [OF received(1)] show ?thesis
      by (intro link_inv.received [of an _ sn msg "queue @ msgs" ds j k pre]) simp_all
  next
    case (acknowledged an sn queue ds k pre)
    with got tx [OF acknowledged(1)] show ?thesis
      by (intro link_inv.acknowledged [of an _ sn "queue @ msgs" ds k pre]) simp_all
  qed
qed

lemma recv_returns_all:
  assumes "ratp_recv (Some ri) = Some (0, data, Some ri')"
  shows "data = concat (map m_data (recvmsg ri))" "ri' = ri\<lparr>recvmsg := []\<rparr>"
proof -
  from assms obtain len where len: "ratp_record_len (recvmsg ri) = Some len"
    and copy: "ratp_copy_msgs (replicate len 0) 0 (recvmsg ri) = Some data" and "ri' = ri\<lparr>recvmsg := []\<rparr>"
    by (auto simp: ratp_recv_def Option.bind_eq_Some_conv split: if_splits option.splits)
  then show "ri' = ri\<lparr>recvmsg := []\<rparr>" by simp
  have "ratp_record_len msgs = Some n \<Longrightarrow> n \<le> length (concat (map m_data msgs))" for msgs n
    by (induction msgs arbitrary: n) (auto split: if_splits)
  from this [OF len] copy copy_msgs_overrun [of "replicate len 0" 0 "recvmsg ri"]
  have "len = length (concat (map m_data (recvmsg ri)))" by (cases "len < length (concat (map m_data (recvmsg ri)))") auto
  with copy copy_msgs_fit [of 0 "recvmsg ri" "replicate len 0"] show "data = concat (map m_data (recvmsg ri))" by simp
qed

section \<open>Safety of the transfer\<close>

definition link_start :: "link \<Rightarrow> bool" where
  "link_start l \<longleftrightarrow> (\<exists>an sn. sender_is an (tx_end l) sn None [] \<and> receiver_is (rx_end l) sn)
     \<and> recvmsg (rx_end l) = [] \<and> data_chan l = [] \<and> ack_chan l = [] \<and> tx_done l = [] \<and> queued l = []
     \<and> taken l = [] \<and> records l = []"

lemma start_inv:
  assumes "link_start l"
  shows "link_inv l"
proof -
  from assms obtain an sn where "sender_is an (tx_end l) sn None []" "receiver_is (rx_end l) sn"
    by (auto simp: link_start_def)
  with assms show ?thesis
    by (intro link_inv.acknowledged [of an l sn "[]" "[]" 0 "[]"]) (simp_all add: link_start_def got_def completions_def)
qed

lemma established_inv: "link_ok l \<Longrightarrow> established l \<Longrightarrow> link_inv l"
  by (auto simp: link_ok_def established_def)

lemma step_ok:
  assumes "link_step l l'" and "link_ok l" and "concat (records l) = concat (map m_data (taken l))"
  shows "link_ok l' \<and> concat (records l') = concat (map m_data (taken l'))"
  using assms(1)
proof cases
  case (deliver_data pkt rest s noise ret ri s')
  with inv_deliver_data [OF established_inv [OF assms(2)]] assms(3) show ?thesis by (auto simp: link_ok_def)
next
  case (deliver_ack pkt rest s noise ret ri s')
  with ok_deliver_ack [OF established_inv [OF assms(2)]] assms(3) show ?thesis by (auto simp: tx_polled_def)
next
  case (idle_rx s ret ri s')
  with inv_idle_rx [OF established_inv [OF assms(2)]] assms(3) show ?thesis by (auto simp: link_ok_def)
next
  case (idle_tx s ret ri s')
  with ok_idle_tx [OF established_inv [OF assms(2)]] assms(3) show ?thesis by (auto simp: tx_polled_def)
next
  case (lose_data kept)
  with inv_lose_data [OF established_inv [OF assms(2)]] assms(3) show ?thesis by (simp add: link_ok_def)
next
  case (lose_ack kept)
  with inv_lose_ack [OF established_inv [OF assms(2)]] assms(3) show ?thesis by (simp add: link_ok_def)
next
  case (user_send data complete ri)
  then have "ri = (tx_end l)\<lparr>sendmsg := sendmsg (tx_end l) @ ratp_split data complete\<rparr>"
    by (auto simp: ratp_send_complete_def split: if_splits)
  with user_send inv_user_send [OF established_inv [OF assms(2)]] assms(3) show ?thesis by (simp add: link_ok_def)
next
  case (user_recv data ri)
  note all = recv_returns_all [OF user_recv(3)]
  have got: "got l' = got l" by (simp add: user_recv(1) got_def all)
  have rx: "receiver_is (rx_end l') r" if "receiver_is (rx_end l) r" for r
    using that by (simp add: user_recv(1) all receiver_is_def)
  from established_inv [OF assms(2) user_recv(2)] have "link_inv l'"
  proof cases
    case (on_its_way an sn msg queue olds n k pre)
    with got rx user_recv(1) show ?thesis by (intro link_inv.on_its_way [of an _ sn msg queue olds n k pre]) simp_all
  next
    case (received an sn msg queue ds j k pre)
    with got rx user_recv(1) show ?thesis by (intro link_inv.received [of an _ sn msg queue ds j k pre]) simp_all
  next
    case (acknowledged an sn queue ds k pre)
    with got rx user_recv(1) show ?thesis by (intro link_inv.acknowledged [of an _ sn queue ds k pre]) simp_all
  qed
  with assms(3) user_recv(1) all(1) show ?thesis by (simp add: link_ok_def)
qed


text \<open>A run: a message of two bytes is queued, sent and received.\<close>

abbreviation (input) open_end :: ratp_internal where
  "open_end \<equiv> listening\<lparr>r_state := RATP_STATE_ESTABLISHED\<rparr>"

abbreviation (input) fresh_link :: link where
  "fresh_link \<equiv> \<lparr>tx_end = open_end, rx_end = open_end, data_chan = [], ack_chan = [], tx_done = [], queued = [],
     taken = [], records = []\<rparr>"

abbreviation (input) demo_msg :: ratp_message where
  "demo_msg \<equiv> \<lparr>m_data = [1, 2], m_eor = True, m_complete = Some 7\<rparr>"

lemma fresh_start: "link_start fresh_link"
  by (auto simp: link_start_def sender_is_def receiver_is_def ratp_new_def)

lemma demo_split: "ratp_split [1, 2] (Some 7) = [demo_msg]"
  by (subst ratp_split.simps) simp

lemma demo_idle: "no_packet (open_end\<lparr>sendmsg := [demo_msg]\<rparr>) (line_with [])"
proof -
  have "map_option fst (ratp_recv_pkt line_ops (open_end\<lparr>sendmsg := [demo_msg], in_ratp := 1\<rparr>, line_with []) 100)
      = Some (- EAGAIN)"
    by code_simp
  then show ?thesis by (auto simp: no_packet_def ratp_new_def)
qed

lemma demo_ends:
  "sender_is True (open_end\<lparr>sendmsg := [demo_msg]\<rparr>) False None [demo_msg]" "receiver_is open_end False" "msg_intact demo_msg"
  by (simp_all add: sender_is_def receiver_is_def msg_intact_def ratp_new_def)


section \<open>Messages in both directions\<close>

text \<open>A packet that is sent again carries the acknowledgment number of its first transmission. When
  both ends send, this number may by then acknowledge a later message of the peer than the one it
  was made for. In the run below the left end has one message and the right end two, with
  callbacks 1 and 2. The left end's message is lost. It receives and acknowledges the first message
  of the right end, whose second message is lost, too. Then the left end sends its message again,
  with the old acknowledgment number.\<close>

declare crc_itu_t_foldl [code]

definition msg_of :: "bytes \<Rightarrow> nat \<Rightarrow> ratp_message" where
  "msg_of data ctx = \<lparr>m_data = data, m_eor = True, m_complete = Some ctx\<rparr>"

definition two_way_run :: "((nat \<times> int) list \<times> bytes list \<times> nat \<times> ratp_message list) option" where
  "two_way_run =
     do { (_, a, la) \<leftarrow> ratp_poll line_ops (Some (open_end\<lparr>sendmsg := [msg_of [7, 7] 0]\<rparr>), line_with []);
          (_, b, lb) \<leftarrow> ratp_poll line_ops (Some (open_end\<lparr>sendmsg := [msg_of [8, 8] 1, msg_of [9, 9] 2]\<rparr>), line_with []);
          (_, a, la) \<leftarrow> ratp_poll line_ops (a, la\<lparr>line_in := concat (line_out lb), line_out := []\<rparr>);
          (_, b, lb) \<leftarrow> ratp_poll line_ops (b, lb\<lparr>line_in := concat (line_out la), line_out := []\<rparr>);
          (_, a, la) \<leftarrow> ratp_poll line_ops (a, la\<lparr>line_clock := line_clock la + 300 * MSECOND, line_out := []\<rparr>);
          (_, b, lb) \<leftarrow> ratp_poll line_ops (b, lb\<lparr>line_in := concat (line_out la), line_out := []\<rparr>);
          (case (a, b) of
             (Some a, Some b) \<Rightarrow> Some (line_done lb, map m_data (recvmsg a), sendbuf_len b, sendmsg b)
           | _ \<Rightarrow> None) }"


end
