(* ===== verification/Kfifo.thy ===== *)
theory Kfifo
  imports Prelude "HOL-Library.Monad_Syntax"
begin

text \<open>
  The byte queue of \<^verbatim>\<open>lib/kfifo.c\<close>: a ring buffer whose size is a power of two and whose two
  indices run freely over the 32-bit numbers, so that they wrap around. Copies into and out of the
  ring buffer are checked: \<open>None\<close> is an access outside of it. The contract of a bounded byte
  queue is the locale \<open>byte_queue\<close>; the ring buffer implements it, whatever the indices are.
\<close>

section \<open>The most significant bit\<close>

text \<open>\<open>fls_step m n\<close> is one of the tests of \<^verbatim>\<open>fls\<close>: if none of the bits of the mask is set,
  the word is shifted. The last test of the source shifts no more; its word is not used here either.
  The rounding is that of a machine with 32-bit words, where \<^verbatim>\<open>fls_long\<close> is \<^verbatim>\<open>fls\<close>.\<close>

definition fls_step :: "u32 \<Rightarrow> nat \<Rightarrow> u32 \<times> nat \<Rightarrow> u32 \<times> nat" where
  "fls_step m n xr = (case xr of (x, r) \<Rightarrow> if x AND m = 0 then (push_bit n x, r - n) else (x, r))"

definition fls :: "u32 \<Rightarrow> nat" where
  "fls x =
     (if x = 0 then 0
      else snd (fls_step 0x80000000 1 (fls_step 0xc0000000 2 (fls_step 0xf0000000 4
        (fls_step 0xff000000 8 (fls_step 0xffff0000 16 (x, 32)))))))"

definition roundup_pow_of_two :: "u32 \<Rightarrow> u32" where
  "roundup_pow_of_two n = push_bit (fls (n - 1)) 1"

section \<open>The ring buffer\<close>

record kfifo =
  k_buffer :: bytes
  k_size :: u32
  k_in :: u32
  k_out :: u32

definition kfifo_init :: "bytes \<Rightarrow> u32 \<Rightarrow> kfifo" where
  "kfifo_init buffer sz = \<lparr>k_buffer = buffer, k_size = sz, k_in = 0, k_out = 0\<rparr>"

datatype kfifo_result = Kfifo_null | Kfifo_bug | Kfifo_new kfifo

text \<open>The allocator hands out memory with arbitrary content, or nothing; \<open>got_fifo\<close> says if the
  second allocation, of the structure itself, succeeds.\<close>

definition kfifo_alloc :: "(nat \<Rightarrow> bytes option) \<Rightarrow> bool \<Rightarrow> u32 \<Rightarrow> kfifo_result" where
  "kfifo_alloc malloc got_fifo sz =
     (if sz < 2 then Kfifo_null
      else if sz AND (sz - 1) \<noteq> 0 \<and> sz > 0x80000000 then Kfifo_bug
      else (let sz = (if sz AND (sz - 1) \<noteq> 0 then roundup_pow_of_two sz else sz)
            in case malloc (unat sz) of
                 None \<Rightarrow> Kfifo_null
               | Some buffer \<Rightarrow> if \<not> got_fifo then Kfifo_null else Kfifo_new (kfifo_init buffer sz)))"

definition kfifo_reset :: "kfifo \<Rightarrow> kfifo" where
  "kfifo_reset fifo = fifo\<lparr>k_in := 0, k_out := 0\<rparr>"

definition kfifo_len :: "kfifo \<Rightarrow> u32" where
  "kfifo_len fifo = k_in fifo - k_out fifo"

definition kfifo_put :: "kfifo \<Rightarrow> bytes \<Rightarrow> (u32 \<times> kfifo) option" where
  "kfifo_put fifo data =
     (let len = min (of_nat (length data)) (k_size fifo - k_in fifo + k_out fifo);
          pos = k_in fifo AND (k_size fifo - 1);
          l = min len (k_size fifo - pos)
      in do { buffer \<leftarrow> memcpy_to (k_buffer fifo) (unat pos) (take (unat l) data);
              buffer \<leftarrow> memcpy_to buffer 0 (subbuf (unat l) (unat (len - l)) data);
              Some (len, fifo\<lparr>k_buffer := buffer, k_in := k_in fifo + len\<rparr>) })"

definition kfifo_get :: "kfifo \<Rightarrow> u32 \<Rightarrow> (bytes \<times> kfifo) option" where
  "kfifo_get fifo len =
     (let len = min len (k_in fifo - k_out fifo);
          pos = k_out fifo AND (k_size fifo - 1);
          l = min len (k_size fifo - pos)
      in do { data1 \<leftarrow> memcpy_from (k_buffer fifo) (unat pos) (unat l);
              data2 \<leftarrow> memcpy_from (k_buffer fifo) 0 (unat (len - l));
              Some (data1 @ data2, fifo\<lparr>k_out := k_out fifo + len\<rparr>) })"

definition kfifo_putc :: "kfifo \<Rightarrow> u8 \<Rightarrow> kfifo option" where
  "kfifo_putc fifo c =
     do { buffer \<leftarrow> memcpy_to (k_buffer fifo) (unat (k_in fifo AND (k_size fifo - 1))) [c];
          let fifo = fifo\<lparr>k_buffer := buffer, k_in := k_in fifo + 1\<rparr>;
          Some (if k_in fifo - k_out fifo > k_size fifo then fifo\<lparr>k_out := k_out fifo + 1\<rparr> else fifo) }"

text \<open>The result is 0 and the character, or -1 (as an unsigned number) if there is none.\<close>

definition kfifo_getc :: "kfifo \<Rightarrow> (u32 \<times> u8 option \<times> kfifo) option" where
  "kfifo_getc fifo =
     (if k_in fifo = k_out fifo then Some (- 1, None, fifo)
      else do { c \<leftarrow> memcpy_from (k_buffer fifo) (unat (k_out fifo AND (k_size fifo - 1))) 1;
                Some (0, Some (c ! 0), fifo\<lparr>k_out := k_out fifo + 1\<rparr>) })"

section \<open>Sizes are powers of two\<close>

lemma and_high_bits: "k < 32 \<Longrightarrow> (x :: u32) AND NOT (mask k) = 0 \<longleftrightarrow> unat x < 2 ^ k"
proof -
  have "x AND NOT (mask k) = 0 \<longleftrightarrow> take_bit k x = x"
    by (auto simp: bit_eq_iff bit_simps)
  also have "\<dots> \<longleftrightarrow> take_bit k (unat x) = unat x"
    by (metis unsigned_take_bit_eq unsigned_word_eqI)
  finally show ?thesis by (simp add: take_bit_nat_eq_self_iff)
qed

definition fls_inv :: "u32 \<Rightarrow> nat \<Rightarrow> u32 \<times> nat \<Rightarrow> bool" where
  "fls_inv x0 b xr \<longleftrightarrow> unat (fst xr) = unat x0 * 2 ^ (32 - snd xr) \<and> snd xr \<le> 32 \<and> 2 ^ b \<le> unat (fst xr)"

lemma fls_step_inv:
  assumes "fls_inv x0 (32 - 2 * n) xr" and "x0 \<noteq> 0" and "1 \<le> n" "n \<le> 16" and m: "m = NOT (mask (32 - n))"
  shows "fls_inv x0 (32 - n) (fls_step m n xr)"
proof -
  obtain x r where xr: "xr = (x, r)" by fastforce
  have inv: "unat x = unat x0 * 2 ^ (32 - r)" "r \<le> 32" "2 ^ (32 - 2 * n) \<le> unat x"
    using assms(1) by (simp_all add: fls_inv_def xr)
  have test: "x AND m = 0 \<longleftrightarrow> unat x < 2 ^ (32 - n)" unfolding m by (rule and_high_bits) (use assms(3) in simp)
  show ?thesis
  proof (cases "unat x < 2 ^ (32 - n)")
    case True
    have "1 \<le> unat x0" using assms(2) by (metis One_nat_def Suc_leI unsigned_eq_0_iff gr0I)
    then have "2 ^ (32 - r) \<le> unat x" using inv(1) by simp
    with True have "(2 :: nat) ^ (32 - r) < 2 ^ (32 - n)" by linarith
    then have nr: "n < r" using inv(2) assms(4) by simp
    have "unat x * 2 ^ n < 2 ^ (32 - n) * 2 ^ n" using True by simp
    also have "\<dots> = 2 ^ 32" using assms(4) by (simp flip: power_add)
    finally have "unat (push_bit n x) = unat x * 2 ^ n"
      by (simp only: unsigned_push_bit_eq) (simp add: push_bit_eq_mult take_bit_nat_eq_self)
    moreover have "(2 :: nat) ^ (32 - n) = 2 ^ (32 - 2 * n) * 2 ^ n" using assms(4) by (simp flip: power_add)
    moreover have "(2 :: nat) ^ (32 - (r - n)) = 2 ^ (32 - r) * 2 ^ n" using nr inv(2) by (simp flip: power_add)
    moreover have "r - n \<le> 32" using inv(2) by simp
    ultimately show ?thesis using True test inv by (simp add: fls_inv_def fls_step_def xr)
  next
    case False
    then show ?thesis using test inv by (simp add: fls_inv_def fls_step_def xr)
  qed
qed

lemma fls_bounds:
  assumes "x \<noteq> 0"
  shows "unat x < 2 ^ fls x" and "2 ^ (fls x - 1) \<le> unat x" and "1 \<le> fls x" and "fls x \<le> 32"
proof -
  have masks: "0xffff0000 = (NOT (mask (32 - 16)) :: u32)" "0xff000000 = (NOT (mask (32 - 8)) :: u32)"
    "0xf0000000 = (NOT (mask (32 - 4)) :: u32)" "0xc0000000 = (NOT (mask (32 - 2)) :: u32)"
    "0x80000000 = (NOT (mask (32 - 1)) :: u32)"
    by (simp_all add: mask_eq_exp_minus_1)
  define xr where "xr = fls_step 0x80000000 1 (fls_step 0xc0000000 2 (fls_step 0xf0000000 4
    (fls_step 0xff000000 8 (fls_step 0xffff0000 16 (x, 32)))))"
  have "1 \<le> unat x" using assms by (metis One_nat_def Suc_leI unsigned_eq_0_iff gr0I)
  then have "fls_inv x (32 - 2 * 16) (x, 32)" by (simp add: fls_inv_def)
  from fls_step_inv [OF this assms _ _ masks(1)] have "fls_inv x (32 - 2 * 8) (fls_step 0xffff0000 16 (x, 32))" by simp
  from fls_step_inv [OF this assms _ _ masks(2)]
  have "fls_inv x (32 - 2 * 4) (fls_step 0xff000000 8 (fls_step 0xffff0000 16 (x, 32)))" by simp
  from fls_step_inv [OF this assms _ _ masks(3)]
  have "fls_inv x (32 - 2 * 2) (fls_step 0xf0000000 4 (fls_step 0xff000000 8 (fls_step 0xffff0000 16 (x, 32))))" by simp
  from fls_step_inv [OF this assms _ _ masks(4)] have "fls_inv x (32 - 2 * 1) (fls_step 0xc0000000 2 (fls_step 0xf0000000 4
    (fls_step 0xff000000 8 (fls_step 0xffff0000 16 (x, 32)))))" by simp
  from fls_step_inv [OF this assms _ _ masks(5)] have "fls_inv x 31 xr" by (simp add: xr_def)
  moreover have "fls x = snd xr" using assms by (simp add: fls_def xr_def)
  ultimately have inv: "unat (fst xr) = unat x * 2 ^ (32 - fls x)" "fls x \<le> 32" "2 ^ 31 \<le> unat (fst xr)"
    by (simp_all add: fls_inv_def)
  show "fls x \<le> 32" by (rule inv(2))
  have lt: "unat x * 2 ^ (32 - fls x) < 2 ^ fls x * 2 ^ (32 - fls x)"
    using inv(1,2) unsigned_less [of "fst xr", where 'a = nat] by (simp flip: power_add)
  then show "unat x < 2 ^ fls x" by simp
  then show pos: "1 \<le> fls x" using \<open>1 \<le> unat x\<close> by (cases "fls x") auto
  have "2 ^ (fls x - 1) * 2 ^ (32 - fls x) \<le> unat x * 2 ^ (32 - fls x)"
    using inv pos by (simp flip: power_add)
  then show "2 ^ (fls x - 1) \<le> unat x" by simp
qed

lemma bit_of_magnitude:
  assumes "2 ^ k \<le> unat (x :: u32)" and "unat x < 2 ^ Suc k"
  shows "bit x k"
proof -
  have "unat x div 2 ^ k = 1"
    using assms by (intro div_nat_eqI) simp_all
  then have "bit (unat x) k" by (simp add: bit_iff_odd)
  then show ?thesis by (simp add: bit_unsigned_iff)
qed

text \<open>The test of the source for powers of two, and the rounding.\<close>

lemma pow2_test:
  assumes "x \<noteq> 0" and "x AND (x - 1) = 0"
  shows "\<exists>k < 32. unat (x :: u32) = 2 ^ k"
proof -
  define k where "k = fls x - 1"
  have k: "2 ^ k \<le> unat x" "unat x < 2 ^ Suc k" "k < 32" using fls_bounds [OF assms(1)] by (simp_all add: k_def)
  have "unat x = 2 ^ k"
  proof (rule ccontr)
    assume "unat x \<noteq> 2 ^ k"
    with k have "2 ^ k \<le> unat x - 1" "unat x - 1 < 2 ^ Suc k" by simp_all
    moreover have "unat (x - 1) = unat x - 1" using assms(1) by (simp add: unat_minus_one)
    ultimately have "bit (x - 1) k" by (intro bit_of_magnitude) simp_all
    with bit_of_magnitude [OF k(1,2)] have "bit (x AND (x - 1)) k" by (simp add: bit_and_iff)
    with assms(2) show False by simp
  qed
  with k(3) show ?thesis by blast
qed

lemma roundup_pow2:
  assumes "2 \<le> n" and "n \<le> 0x80000000"
  shows "\<exists>k < 32. unat (roundup_pow_of_two n) = 2 ^ k" and "n \<le> roundup_pow_of_two n"
    and "unat (roundup_pow_of_two n) < 2 * unat n"
proof -
  have n: "2 \<le> unat n" "unat n \<le> 2 ^ 31" using assms by (simp_all add: word_le_nat_alt)
  then have "n \<noteq> 0" by auto
  then have pred: "unat (n - 1) = unat n - 1" by (simp add: unat_minus_one)
  with n(1) have "n - 1 \<noteq> 0" by auto
  note fls = fls_bounds [OF this]
  have "(2 :: nat) ^ (fls (n - 1) - 1) < 2 ^ 31" using fls(2) n pred by simp
  then have "fls (n - 1) - 1 < 31" by (rule power_less_imp_less_exp [rotated]) simp
  then have lt: "fls (n - 1) < 32" by simp
  then have pow: "unat (roundup_pow_of_two n) = 2 ^ fls (n - 1)"
    by (simp only: roundup_pow_of_two_def unsigned_push_bit_eq) (simp add: push_bit_eq_mult take_bit_nat_eq_self)
  with lt show "\<exists>k < 32. unat (roundup_pow_of_two n) = 2 ^ k" by blast
  show "n \<le> roundup_pow_of_two n" using fls(1) pow pred n by (simp add: word_le_nat_alt)
  have "(2 :: nat) ^ fls (n - 1) = 2 * 2 ^ (fls (n - 1) - 1)" using fls(3) by (simp flip: power_Suc)
  then show "unat (roundup_pow_of_two n) < 2 * unat n" using pow fls(2) pred n by simp
qed

section \<open>Reading and writing around the end of the buffer\<close>

definition ring :: "bytes \<Rightarrow> nat \<Rightarrow> nat \<Rightarrow> bytes" where
  "ring buf p len = map (\<lambda>i. buf ! ((p + i) mod length buf)) [0..<len]"

lemma length_ring [simp]: "length (ring buf p len) = len"
  by (simp add: ring_def)

lemma ring_append: "ring buf p (m + n) = ring buf p m @ ring buf (p + m) n"
  by (rule nth_equalityI) (auto simp: ring_def nth_append add.assoc)

lemma ring_mod: "ring buf (p mod length buf) len = ring buf p len"
  by (simp add: ring_def mod_add_left_eq)

lemma ring_two_parts:
  assumes "p < length buf" and "len \<le> length buf"
  shows "subbuf p (min len (length buf - p)) buf @ take (len - min len (length buf - p)) buf = ring buf p len"
proof (rule nth_equalityI)
  show "length (subbuf p (min len (length buf - p)) buf @ take (len - min len (length buf - p)) buf) = length (ring buf p len)"
    using assms by (simp add: subbuf_def)
next
  fix i
  assume "i < length (subbuf p (min len (length buf - p)) buf @ take (len - min len (length buf - p)) buf)"
  then have i: "i < len" using assms by (simp add: subbuf_def min_def split: if_splits)
  show "(subbuf p (min len (length buf - p)) buf @ take (len - min len (length buf - p)) buf) ! i = ring buf p len ! i"
  proof (cases "p + i < length buf")
    case True
    then have "i < min len (length buf - p)" using i by simp
    with True show ?thesis using i assms by (simp add: ring_def subbuf_def nth_append)
  next
    case False
    then have "(p + i) mod length buf = p + i - length buf" using assms i by (simp add: le_mod_geq)
    moreover have "length buf - p \<le> i" using False by simp
    ultimately show ?thesis using i assms by (simp add: ring_def subbuf_def nth_append add.commute)
  qed
qed

text \<open>The two copies of \<open>kfifo_put\<close>.\<close>

definition ring_write :: "bytes \<Rightarrow> nat \<Rightarrow> bytes \<Rightarrow> bytes" where
  "ring_write buf p data =
     (let l = min (length data) (length buf - p);
          buf1 = take p buf @ take l data @ drop (p + l) buf
      in drop l data @ drop (length data - l) buf1)"

lemma length_ring_write:
  "p < length buf \<Longrightarrow> length data \<le> length buf \<Longrightarrow> length (ring_write buf p data) = length buf"
  by (simp add: ring_write_def Let_def)

lemma two_copies:
  assumes "p < length buf" and "length data \<le> length buf" and "l = min (length data) (length buf - p)"
  obtains buf1 where "memcpy_to buf p (take l data) = Some buf1"
    and "memcpy_to buf1 0 (drop l data) = Some (ring_write buf p data)"
proof -
  define buf1 where "buf1 = take p buf @ take l data @ drop (p + l) buf"
  have l: "l \<le> length data" "p + l \<le> length buf" using assms by auto
  then have "memcpy_to buf p (take l data) = Some buf1" by (simp add: memcpy_to_def min_absorb2 buf1_def)
  moreover have "length buf1 = length buf" using l by (simp add: buf1_def)
  then have "memcpy_to buf1 0 (drop l data) = Some (drop l data @ drop (length data - l) buf1)"
    using assms(2) by (simp add: memcpy_to_def)
  moreover have "ring_write buf p data = drop l data @ drop (length data - l) buf1"
    unfolding ring_write_def Let_def buf1_def assms(3) ..
  ultimately show ?thesis using that by simp
qed

lemma ring_write_nth:
  assumes "p < length buf" and "length data \<le> length buf" and "r < length buf"
  shows "ring_write buf p data ! r
    = (if r < length data - min (length data) (length buf - p) then data ! (min (length data) (length buf - p) + r)
       else if p \<le> r \<and> r < p + length data then data ! (r - p) else buf ! r)"
proof -
  define l where "l = min (length data) (length buf - p)"
  define buf1 where "buf1 = take p buf @ take l data @ drop (p + l) buf"
  have l: "l \<le> length data" "p + l \<le> length buf" using assms(1) by (auto simp: l_def)
  have buf1: "buf1 ! r = (if p \<le> r \<and> r < p + l then data ! (r - p) else buf ! r)"
    using l assms(1,3) by (auto simp: buf1_def nth_append)
  have upper: "r < p + l \<longleftrightarrow> r < p + length data" using assms(3) by (auto simp: l_def)
  have eq: "ring_write buf p data = drop l data @ drop (length data - l) buf1"
    unfolding ring_write_def Let_def l_def buf1_def ..
  show ?thesis
  proof (cases "r < length data - l")
    case True
    then have "ring_write buf p data ! r = drop l data ! r" by (simp add: eq nth_append)
    with True l show ?thesis by (simp add: l_def [symmetric])
  next
    case False
    have "length buf1 = length buf" using l by (simp add: buf1_def)
    then have "drop (length data - l) buf1 ! (r - (length data - l)) = buf1 ! r"
      using False assms(3) by (subst nth_drop) simp_all
    then have "ring_write buf p data ! r = buf1 ! r"
      using False unfolding eq by (subst nth_append) simp
    with False buf1 upper show ?thesis by (simp add: l_def [symmetric])
  qed
qed

lemma ring_write_new:
  assumes "p < length buf" and "length data \<le> length buf"
  shows "ring (ring_write buf p data) p (length data) = data"
proof (rule nth_equalityI)
  fix i
  assume "i < length (ring (ring_write buf p data) p (length data))"
  then have i: "i < length data" by simp
  show "ring (ring_write buf p data) p (length data) ! i = data ! i"
  proof (cases "p + i < length buf")
    case True
    then have "\<not> p + i < length data - min (length data) (length buf - p)" using assms by (auto simp: min_def)
    with True show ?thesis using i assms by (simp add: ring_def length_ring_write ring_write_nth)
  next
    case False
    then have pos: "(p + i) mod length buf = p + i - length buf" using assms i by (simp add: le_mod_geq)
    have "min (length data) (length buf - p) = length buf - p" using False i by simp
    moreover have "p + i - length buf < length data + p - length buf" using i False by simp
    ultimately show ?thesis using pos False i assms by (simp add: ring_def length_ring_write ring_write_nth)
  qed
qed simp

lemma ring_write_old:
  assumes "p < length buf" and "(q + m) mod length buf = p" and "m + length data \<le> length buf"
  shows "ring (ring_write buf p data) q m = ring buf q m"
proof (rule nth_equalityI)
  fix i
  assume "i < length (ring (ring_write buf p data) q m)"
  then have i: "i < m" by simp
  let ?n = "length buf"
  define r where "r = (q + i) mod ?n"
  define l where "l = min (length data) (?n - p)"
  have n: "0 < ?n" using assms(1) by linarith
  have fresh: "r \<noteq> (p + j) mod ?n" if "j < length data" for j
  proof
    assume "r = (p + j) mod ?n"
    also have "\<dots> = (q + m + j) mod ?n" using assms(2) by (metis mod_add_left_eq)
    also have "q + m + j = q + i + (m - i + j)" using i by simp
    finally have "(q + i) mod ?n = (q + i + (m - i + j)) mod ?n" by (simp only: r_def)
    then have "?n dvd (q + i + (m - i + j)) - (q + i)" using mod_eq_dvd_iff_nat by (metis le_add1)
    then have "?n dvd (m - i + j)" by simp
    moreover have "0 < m - i + j" "m - i + j < ?n" using i that assms(3) by linarith+
    ultimately show False by (simp add: nat_dvd_not_less)
  qed
  have "r < ?n" using n by (simp add: r_def)
  moreover have "\<not> r < length data - l"
  proof
    assume less: "r < length data - l"
    then have "l = ?n - p" by (auto simp: l_def)
    with assms(1) less \<open>r < ?n\<close> have "(p + (l + r)) mod ?n = r" "l + r < length data" by simp_all
    with fresh show False by metis
  qed
  moreover have "\<not> (p \<le> r \<and> r < p + length data)"
  proof
    assume "p \<le> r \<and> r < p + length data"
    with \<open>r < ?n\<close> have "(p + (r - p)) mod ?n = r" "r - p < length data" by auto
    with fresh show False by metis
  qed
  ultimately show "ring (ring_write buf p data) q m ! i = ring buf q m ! i"
    using i assms(1,3) ring_write_nth [of p buf data r]
    by (auto simp: ring_def length_ring_write r_def [symmetric] l_def [symmetric])
qed simp

section \<open>The queue that the ring buffer represents\<close>

definition contents :: "kfifo \<Rightarrow> bytes" where
  "contents fifo = ring (k_buffer fifo) (unat (k_out fifo)) (unat (kfifo_len fifo))"

definition fifo_ok :: "kfifo \<Rightarrow> bool" where
  "fifo_ok fifo \<longleftrightarrow> (\<exists>k. 1 \<le> k \<and> k \<le> 31 \<and> unat (k_size fifo) = 2 ^ k)
     \<and> length (k_buffer fifo) = unat (k_size fifo) \<and> unat (kfifo_len fifo) \<le> unat (k_size fifo)"

abbreviation (input) room :: "kfifo \<Rightarrow> nat" where
  "room fifo \<equiv> unat (k_size fifo)"

lemma length_contents [simp]: "length (contents fifo) = unat (kfifo_len fifo)"
  by (simp add: contents_def)

lemma ring_cong: "p mod length buf = q mod length buf \<Longrightarrow> ring buf p len = ring buf q len"
  by (metis ring_mod)

lemma size_divides: "fifo_ok fifo \<Longrightarrow> room fifo dvd 2 ^ 32"
  unfolding fifo_ok_def by (metis le_imp_power_dvd nat_le_linear numeral_le_iff order_trans semiring_norm(69,71,72))

lemma room_bounds: "fifo_ok fifo \<Longrightarrow> 2 \<le> room fifo \<and> room fifo \<le> 2 ^ 31"
proof -
  assume "fifo_ok fifo"
  then obtain k where k: "1 \<le> k" "k \<le> 31" "room fifo = 2 ^ k" by (auto simp: fifo_ok_def)
  then have "(2 :: nat) ^ 1 \<le> 2 ^ k" "(2 :: nat) ^ k \<le> 2 ^ 31" by (intro power_increasing; simp)+
  with k(3) show ?thesis by simp
qed

lemma position:
  assumes "fifo_ok fifo"
  shows "unat (x AND (k_size fifo - 1)) = unat x mod room fifo"
proof -
  obtain k where k: "k \<le> 31" "unat (k_size fifo) = 2 ^ k" using assms by (auto simp: fifo_ok_def)
  have "k_size fifo = of_nat (2 ^ k)" by (simp flip: k(2))
  then have "k_size fifo = 2 ^ k" by simp
  then have "x AND (k_size fifo - 1) = take_bit k x" by (simp add: take_bit_eq_mask mask_eq_exp_minus_1)
  then show ?thesis by (simp only: unsigned_take_bit_eq k(2)) (simp add: take_bit_eq_mod)
qed

lemma unat_add_mod:
  assumes "fifo_ok fifo"
  shows "unat (x + y :: u32) mod room fifo = (unat x + unat y) mod room fifo"
  using size_divides [OF assms] by (simp add: unat_word_ariths mod_mod_cancel)

lemma in_position:
  assumes "fifo_ok fifo"
  shows "unat (k_in fifo) mod room fifo = (unat (k_out fifo) + unat (kfifo_len fifo)) mod room fifo"
  using unat_add_mod [OF assms, of "k_out fifo" "kfifo_len fifo"] by (simp add: kfifo_len_def)

lemma unat_sub: "y \<le> x \<Longrightarrow> unat (x - y :: u32) = unat x - unat y"
  by (simp add: unat_sub_if' word_le_nat_alt)

lemma free_room:
  assumes "fifo_ok fifo"
  shows "unat (k_size fifo - k_in fifo + k_out fifo) = room fifo - unat (kfifo_len fifo)"
proof -
  have "k_size fifo - k_in fifo + k_out fifo = k_size fifo - kfifo_len fifo" by (simp add: kfifo_len_def)
  moreover have "kfifo_len fifo \<le> k_size fifo" using assms by (simp add: fifo_ok_def word_le_nat_alt)
  ultimately show ?thesis by (simp only: unat_sub)
qed

lemma advance_in:
  assumes "fifo_ok fifo" and "unat (kfifo_len fifo) + n \<le> room fifo"
  shows "unat (k_in fifo + of_nat n - k_out fifo) = unat (kfifo_len fifo) + n"
proof -
  have "room fifo < 2 ^ 32" using room_bounds [OF assms(1)] by simp
  with assms(2) have "unat (kfifo_len fifo + of_nat n) = unat (kfifo_len fifo) + n"
    by (simp add: unat_word_ariths unat_of_nat take_bit_nat_eq_self)
  then show ?thesis by (simp add: kfifo_len_def algebra_simps)
qed

text \<open>Appending bytes that fit, and dropping bytes that are there.\<close>

lemma append_ok:
  assumes ok: "fifo_ok fifo" and fit: "length (contents fifo) + length data \<le> room fifo"
  defines "fifo' \<equiv> fifo\<lparr>k_buffer := ring_write (k_buffer fifo) (unat (k_in fifo) mod room fifo) data,
                         k_in := k_in fifo + of_nat (length data)\<rparr>"
  shows "fifo_ok fifo' \<and> contents fifo' = contents fifo @ data"
proof -
  let ?N = "room fifo" and ?q = "unat (k_out fifo)" and ?m = "unat (kfifo_len fifo)"
  define p where "p = unat (k_in fifo) mod ?N"
  define buf where "buf = ring_write (k_buffer fifo) p data"
  have len: "length (k_buffer fifo) = ?N" using ok by (simp add: fifo_ok_def)
  have p: "p < length (k_buffer fifo)" using room_bounds [OF ok] by (simp add: p_def len)
  have fit': "?m + length data \<le> ?N" using fit by simp
  have qp: "(?q + ?m) mod ?N = p" using in_position [OF ok] by (simp add: p_def)
  have blen: "length buf = ?N" using p fit' by (simp add: buf_def length_ring_write len)
  have len': "unat (kfifo_len fifo') = ?m + length data"
    using advance_in [OF ok fit'] by (simp add: fifo'_def kfifo_len_def)
  have "ring buf ?q ?m = contents fifo"
    unfolding buf_def contents_def by (rule ring_write_old [OF p]) (use qp fit' len in simp_all)
  moreover have "ring buf (?q + ?m) (length data) = ring buf p (length data)"
    by (rule ring_cong) (use qp blen p len in simp)
  moreover have "ring buf p (length data) = data"
    unfolding buf_def by (rule ring_write_new [OF p]) (use fit' len in simp)
  ultimately have "contents fifo' = contents fifo @ data"
    unfolding contents_def [of fifo'] len' by (simp add: fifo'_def ring_append buf_def p_def)
  moreover have "fifo_ok fifo'"
    using ok len' fit' blen by (simp add: fifo_ok_def fifo'_def buf_def p_def)
  ultimately show ?thesis by blast
qed

lemma drop_ok:
  assumes ok: "fifo_ok fifo" and fit: "n \<le> length (contents fifo)"
  defines "fifo' \<equiv> fifo\<lparr>k_out := k_out fifo + of_nat n\<rparr>"
  shows "fifo_ok fifo' \<and> contents fifo' = drop n (contents fifo)"
proof -
  let ?q = "unat (k_out fifo)" and ?m = "unat (kfifo_len fifo)"
  have n: "unat (of_nat n :: u32) = n" using fit unsigned_less [of "kfifo_len fifo", where 'a = nat]
    by (simp add: unat_of_nat take_bit_nat_eq_self)
  have "kfifo_len fifo' = kfifo_len fifo - of_nat n" by (simp add: fifo'_def kfifo_len_def)
  then have len': "unat (kfifo_len fifo') = ?m - n" using fit n by (simp add: unat_sub word_le_nat_alt)
  have "contents fifo = ring (k_buffer fifo) ?q n @ ring (k_buffer fifo) (?q + n) (?m - n)"
    using fit by (simp add: contents_def flip: ring_append)
  moreover have "(?q + n) mod length (k_buffer fifo) = unat (k_out fifo') mod length (k_buffer fifo)"
    using unat_add_mod [OF ok, of "k_out fifo" "of_nat n"] ok by (simp add: n fifo'_def fifo_ok_def)
  then have "ring (k_buffer fifo) (?q + n) (?m - n) = contents fifo'"
    unfolding contents_def len' by (simp add: fifo'_def) (rule ring_cong)
  ultimately have "contents fifo' = drop n (contents fifo)" by simp
  moreover have "unat (kfifo_len fifo') \<le> room fifo" using ok len' by (auto simp: fifo_ok_def)
  then have "fifo_ok fifo'" using ok by (simp add: fifo_ok_def fifo'_def)
  ultimately show ?thesis by blast
qed

section \<open>The operations\<close>

lemma put_writes:
  assumes ok: "fifo_ok fifo" and "length data < 2 ^ 32"
  defines "n \<equiv> min (length data) (room fifo - length (contents fifo))"
  shows "kfifo_put fifo data = Some (of_nat n,
    fifo\<lparr>k_buffer := ring_write (k_buffer fifo) (unat (k_in fifo) mod room fifo) (take n data), k_in := k_in fifo + of_nat n\<rparr>)"
proof -
  let ?N = "room fifo" and ?buf = "k_buffer fifo"
  define p where "p = unat (k_in fifo) mod ?N"
  define l where "l = min n (?N - p)"
  have len: "length ?buf = ?N" and m: "unat (kfifo_len fifo) \<le> ?N" using ok by (simp_all add: fifo_ok_def)
  have p: "p < ?N" using room_bounds [OF ok] by (simp add: p_def)
  have pos: "unat (k_in fifo AND (k_size fifo - 1)) = p" by (simp add: position [OF ok] p_def)
  have n: "n \<le> length data" "unat (kfifo_len fifo) + n \<le> ?N" using m by (simp_all add: n_def)
  have un: "unat (of_nat n :: u32) = n" using n(1) assms(2) by (simp add: unat_of_nat take_bit_nat_eq_self)
  have wlen: "min (of_nat (length data)) (k_size fifo - k_in fifo + k_out fifo) = (of_nat n :: u32)"
    using assms(2) free_room [OF ok]
    by (intro unsigned_word_eqI [where 'a = nat])
      (simp only: un, simp add: n_def min_def word_le_nat_alt unat_of_nat take_bit_nat_eq_self)
  have "unat (k_size fifo - (k_in fifo AND (k_size fifo - 1))) = ?N - p"
    using p pos by (simp add: unat_sub word_le_nat_alt)
  then have wl: "unat (min (of_nat n) (k_size fifo - (k_in fifo AND (k_size fifo - 1)))) = l"
    by (simp add: l_def min_def word_le_nat_alt un)
  then have wr: "unat (of_nat n - min (of_nat n) (k_size fifo - (k_in fifo AND (k_size fifo - 1)))) = n - l"
    by (subst unat_sub) (simp_all add: un)
  have ld: "l = min (length (take n data)) (length ?buf - p)" using n(1) len by (simp add: l_def)
  obtain buf1 where "memcpy_to ?buf p (take l (take n data)) = Some buf1"
    and "memcpy_to buf1 0 (drop l (take n data)) = Some (ring_write ?buf p (take n data))"
    by (rule two_copies [OF _ _ ld]) (use p n len in simp_all)
  moreover have "take l data = take l (take n data)" and "subbuf l (n - l) data = drop l (take n data)"
    by (simp_all add: l_def subbuf_def drop_take)
  ultimately show ?thesis unfolding kfifo_put_def Let_def wlen wl wr pos p_def [symmetric] by simp
qed

lemma put_spec:
  assumes "fifo_ok fifo" and "length data < 2 ^ 32"
  defines "n \<equiv> min (length data) (room fifo - length (contents fifo))"
  shows "\<exists>fifo'. kfifo_put fifo data = Some (of_nat n, fifo') \<and> fifo_ok fifo' \<and> room fifo' = room fifo
    \<and> contents fifo' = contents fifo @ take n data"
proof -
  have "length (contents fifo) \<le> room fifo" using assms(1) by (simp add: fifo_ok_def)
  then have "length (contents fifo) + length (take n data) \<le> room fifo" unfolding n_def by (auto simp: min_def)
  from append_ok [OF assms(1) this] show ?thesis
    using put_writes [OF assms(1,2)] by (auto simp: n_def)
qed

lemma get_spec:
  assumes ok: "fifo_ok fifo"
  shows "\<exists>fifo'. kfifo_get fifo len = Some (take (unat len) (contents fifo), fifo') \<and> fifo_ok fifo' \<and> room fifo' = room fifo
    \<and> contents fifo' = drop (unat len) (contents fifo)"
proof -
  let ?N = "room fifo" and ?buf = "k_buffer fifo"
  define n where "n = min (unat len) (unat (kfifo_len fifo))"
  define p where "p = unat (k_out fifo) mod ?N"
  define l where "l = min n (length ?buf - p)"
  have blen: "length ?buf = ?N" and m: "unat (kfifo_len fifo) \<le> ?N" using ok by (simp_all add: fifo_ok_def)
  have p: "p < length ?buf" using room_bounds [OF ok] by (simp add: p_def blen)
  have pos: "unat (k_out fifo AND (k_size fifo - 1)) = p" by (simp add: position [OF ok] p_def)
  have wn: "unat (min len (k_in fifo - k_out fifo)) = n"
    by (simp add: n_def kfifo_len_def min_def word_le_nat_alt)
  have "unat (k_size fifo - (k_out fifo AND (k_size fifo - 1))) = length ?buf - p"
    using p pos blen by (simp add: unat_sub word_le_nat_alt)
  then have wl: "unat (min (min len (k_in fifo - k_out fifo)) (k_size fifo - (k_out fifo AND (k_size fifo - 1)))) = l"
    using wn by (simp add: l_def min_def word_le_nat_alt)
  then have wr: "unat (min len (k_in fifo - k_out fifo)
      - min (min len (k_in fifo - k_out fifo)) (k_size fifo - (k_out fifo AND (k_size fifo - 1)))) = n - l"
    by (subst unat_sub) (simp_all only: wn min.cobounded1)
  have "n \<le> length ?buf" "p + l \<le> length ?buf" "n - l \<le> length ?buf"
    using m blen p by (auto simp: n_def l_def)
  then have "kfifo_get fifo len = Some (subbuf p l ?buf @ take (n - l) ?buf, fifo\<lparr>k_out := k_out fifo + of_nat n\<rparr>)"
    unfolding kfifo_get_def Let_def wl wr pos
    by (simp add: memcpy_from_def subbuf_def flip: wn)
  also have "subbuf p l ?buf @ take (n - l) ?buf = ring ?buf p n"
    unfolding l_def by (rule ring_two_parts) fact+
  also have "\<dots> = take n (contents fifo)"
    using ring_append [of ?buf "unat (k_out fifo)" n "unat (kfifo_len fifo) - n"]
    by (simp add: contents_def n_def p_def flip: blen ring_mod [of _ "unat (k_out fifo)"])
  finally show ?thesis using drop_ok [OF ok, of n] by (auto simp: n_def min_def)
qed

lemma write_one:
  assumes "p < length buf"
  shows "memcpy_to buf p [c] = Some (ring_write buf p [c])"
  using assms by (simp add: memcpy_to_def ring_write_def Let_def)

lemma putc_spec:
  assumes ok: "fifo_ok fifo"
  shows "\<exists>fifo'. kfifo_putc fifo c = Some fifo' \<and> fifo_ok fifo' \<and> room fifo' = room fifo
    \<and> contents fifo' = (if length (contents fifo) < room fifo then contents fifo else tl (contents fifo)) @ [c]"
proof -
  let ?p = "unat (k_in fifo) mod room fifo"
  define wr where "wr f = f\<lparr>k_buffer := ring_write (k_buffer fifo) ?p [c], k_in := k_in fifo + 1\<rparr>" for f :: kfifo
  have len: "unat (kfifo_len fifo) \<le> room fifo" "length (k_buffer fifo) = room fifo" using ok by (simp_all add: fifo_ok_def)
  have eq: "kfifo_putc fifo c = Some (if kfifo_len fifo + 1 > k_size fifo then wr (fifo\<lparr>k_out := k_out fifo + 1\<rparr>) else wr fifo)"
    using room_bounds [OF ok] len(2)
    by (simp add: kfifo_putc_def wr_def position [OF ok] write_one kfifo_len_def algebra_simps)
  have inc: "unat (kfifo_len fifo + 1) = unat (kfifo_len fifo) + 1"
    using len(1) room_bounds [OF ok] by (simp add: unat_word_ariths)
  show ?thesis
  proof (cases "length (contents fifo) < room fifo")
    case True
    then have "kfifo_putc fifo c = Some (wr fifo)" using eq inc by (simp add: word_less_nat_alt)
    with True append_ok [OF ok, of "[c]"] show ?thesis by (simp add: wr_def)
  next
    case False
    then have "kfifo_putc fifo c = Some (wr (fifo\<lparr>k_out := k_out fifo + 1\<rparr>))"
      using eq inc len(1) by (simp add: word_less_nat_alt)
    moreover have one: "1 \<le> length (contents fifo)" using False room_bounds [OF ok] by simp
    note dropped = drop_ok [OF ok this]
    moreover have "length (contents (fifo\<lparr>k_out := k_out fifo + of_nat 1\<rparr>)) + length [c] \<le> room (fifo\<lparr>k_out := k_out fifo + of_nat 1\<rparr>)"
      using dropped one len(1) by (simp del: length_contents) simp
    note append_ok [OF conjunct1 [OF dropped] this]
    ultimately show ?thesis using False by (simp add: wr_def drop_Suc)
  qed
qed

lemma getc_spec:
  assumes ok: "fifo_ok fifo"
  shows "case contents fifo of
      [] \<Rightarrow> kfifo_getc fifo = Some (- 1, None, fifo)
    | c # cs \<Rightarrow> \<exists>fifo'. kfifo_getc fifo = Some (0, Some c, fifo') \<and> fifo_ok fifo' \<and> room fifo' = room fifo \<and> contents fifo' = cs"
proof (cases "contents fifo")
  case Nil
  then have "unat (kfifo_len fifo) = 0" by (metis length_contents list.size(3))
  then have "k_in fifo = k_out fifo" by (simp add: kfifo_len_def unsigned_eq_0_iff)
  with Nil show ?thesis by (simp add: kfifo_getc_def)
next
  case (Cons c cs)
  let ?p = "unat (k_out fifo) mod room fifo"
  have one: "1 \<le> length (contents fifo)" using Cons by simp
  then have ne: "k_in fifo \<noteq> k_out fifo" by (auto simp: kfifo_len_def)
  have p: "?p < length (k_buffer fifo)" and len: "length (k_buffer fifo) = room fifo"
    using room_bounds [OF ok] ok by (simp_all add: fifo_ok_def)
  have "contents fifo ! 0 = k_buffer fifo ! ?p" using one by (simp add: contents_def ring_def len)
  with Cons have "k_buffer fifo ! ?p = c" by simp
  with ne p have "kfifo_getc fifo = Some (0, Some c, fifo\<lparr>k_out := k_out fifo + of_nat 1\<rparr>)"
    by (simp add: kfifo_getc_def position [OF ok] memcpy_from_def subbuf_def)
  with drop_ok [OF ok one] Cons show ?thesis by simp
qed

lemma alloc_spec:
  assumes "kfifo_alloc malloc got_fifo sz = Kfifo_new fifo" and "\<And>n buf. malloc n = Some buf \<Longrightarrow> length buf = n"
  shows "fifo_ok fifo \<and> unat sz \<le> room fifo \<and> contents fifo = []"
proof -
  define sz' where "sz' = (if sz AND (sz - 1) \<noteq> 0 then roundup_pow_of_two sz else sz)"
  from assms(1) have sz: "2 \<le> sz" "sz AND (sz - 1) = 0 \<or> sz \<le> 0x80000000"
    and new: "\<exists>buf. malloc (unat sz') = Some buf \<and> fifo = kfifo_init buf sz'"
    by (auto simp: kfifo_alloc_def Let_def sz'_def not_less split: if_splits option.splits)
  from sz(1) have "sz \<noteq> 0" by auto
  then have pow: "\<exists>k < 32. unat sz' = 2 ^ k" and le: "sz \<le> sz'"
    using sz pow2_test [of sz] roundup_pow2 [of sz] by (auto simp: sz'_def)
  then obtain k where k: "k < 32" "unat sz' = 2 ^ k" by blast
  have "2 \<le> unat sz'" using sz(1) le by (simp add: word_le_nat_alt)
  then have "1 \<le> k" using k(2) by (cases k) auto
  with k new assms(2) le show ?thesis
    by (auto simp: fifo_ok_def kfifo_init_def kfifo_len_def contents_def ring_def word_le_nat_alt intro!: exI [of _ k])
qed

section \<open>The contract of a bounded byte queue\<close>

text \<open>
  A queue has a capacity and the bytes it holds; \<open>put\<close> takes as many bytes as there is room for and
  says how many, \<open>get\<close> gives at most as many bytes as are asked for, in the order they came.
\<close>

locale byte_queue =
  fixes ok :: "'q \<Rightarrow> bool" and capacity :: "'q \<Rightarrow> nat" and items :: "'q \<Rightarrow> bytes"
    and put :: "'q \<Rightarrow> bytes \<Rightarrow> (u32 \<times> 'q) option" and get :: "'q \<Rightarrow> u32 \<Rightarrow> (bytes \<times> 'q) option"
  assumes put_appends: "ok q \<Longrightarrow> length data < 2 ^ 32 \<Longrightarrow>
      \<exists>q'. put q data = Some (of_nat (min (length data) (capacity q - length (items q))), q') \<and> ok q'
        \<and> capacity q' = capacity q \<and> items q' = items q @ take (min (length data) (capacity q - length (items q))) data"
    and get_removes: "ok q \<Longrightarrow>
      \<exists>q'. get q len = Some (take (unat len) (items q), q') \<and> ok q' \<and> capacity q' = capacity q
        \<and> items q' = drop (unat len) (items q)"

text \<open>A writer and a reader that take turns in any order. The writer sees the bytes that were
  accepted, the reader those that were delivered.\<close>

datatype queue_op = Put bytes | Get u32

fun queue_run :: "('q \<Rightarrow> bytes \<Rightarrow> (u32 \<times> 'q) option) \<Rightarrow> ('q \<Rightarrow> u32 \<Rightarrow> (bytes \<times> 'q) option) \<Rightarrow> queue_op list \<Rightarrow> 'q
    \<Rightarrow> (bytes \<times> bytes \<times> 'q) option" where
  "queue_run put get [] q = Some ([], [], q)"
| "queue_run put get (Put data # ops) q =
     do { (n, q) \<leftarrow> put q data;
          (accepted, delivered, q) \<leftarrow> queue_run put get ops q;
          Some (take (unat n) data @ accepted, delivered, q) }"
| "queue_run put get (Get len # ops) q =
     do { (data, q) \<leftarrow> get q len;
          (accepted, delivered, q) \<leftarrow> queue_run put get ops q;
          Some (accepted, data @ delivered, q) }"

fun short_put :: "queue_op \<Rightarrow> bool" where
  "short_put (Put data) \<longleftrightarrow> length data < 2 ^ 32"
| "short_put (Get len) \<longleftrightarrow> True"

context byte_queue
begin

lemma stream:
  assumes "ok q" and "list_all short_put ops"
  shows "\<exists>accepted delivered q'. queue_run put get ops q = Some (accepted, delivered, q') \<and> ok q'
    \<and> items q @ accepted = delivered @ items q'"
  using assms
proof (induction ops arbitrary: q)
  case (Cons op ops)
  show ?case
  proof (cases op)
    case (Put data)
    let ?n = "min (length data) (capacity q - length (items q))"
    have data: "length data < 2 ^ 32" using Cons.prems Put by simp
    then have n: "unat (of_nat ?n :: u32) = ?n" by (simp add: unat_of_nat take_bit_nat_eq_self)
    obtain q1 where "put q data = Some (of_nat ?n, q1)" "ok q1" "items q1 = items q @ take ?n data"
      using put_appends [OF Cons.prems(1) data] by blast
    with Cons.IH [of q1] Cons.prems(2) Put n show ?thesis by (auto simp del: of_nat_min)
  next
    case (Get len)
    obtain q1 where "get q len = Some (take (unat len) (items q), q1)" "ok q1" "items q1 = drop (unat len) (items q)"
      using get_removes [OF Cons.prems(1)] by blast
    moreover from this(2) Cons.IH [of q1] Cons.prems(2) obtain acc del q2
      where "queue_run put get ops q1 = Some (acc, del, q2)" "ok q2" "items q1 @ acc = del @ items q2" by auto
    moreover from calculation have "items q @ acc = take (unat len) (items q) @ del @ items q2"
      by (metis append.assoc append_take_drop_id)
    ultimately show ?thesis using Get by auto
  qed
qed simp

text \<open>What was put into an empty queue comes out again, at once or in pieces.\<close>

lemma drain:
  assumes "ok q" and "items q = []" and "length data \<le> capacity q" and "length data < 2 ^ 32"
  shows "\<exists>q1 q2. put q data = Some (of_nat (length data), q1) \<and> get q1 (of_nat (length data)) = Some (data, q2)
    \<and> ok q2 \<and> items q2 = []"
proof -
  have n: "unat (of_nat (length data) :: u32) = length data" using assms(4) by (simp add: unat_of_nat take_bit_nat_eq_self)
  obtain q1 where "put q data = Some (of_nat (length data), q1)" "ok q1" "items q1 = data"
    using put_appends [OF assms(1,4)] assms(2,3) by auto
  with get_removes [OF this(2), of "of_nat (length data)"] n show ?thesis by auto
qed

end

interpretation fifo: byte_queue fifo_ok "\<lambda>fifo. unat (k_size fifo)" contents kfifo_put kfifo_get
  by unfold_locales (use put_spec get_spec in blast)+

section \<open>Correctness of the ring buffer\<close>

text \<open>C34. 
  The ring buffer is a queue, whatever its indices are: starting from a queue that
  \<^verbatim>\<open>kfifo_alloc\<close> made, any sequence of \<^verbatim>\<open>kfifo_put\<close> and \<^verbatim>\<open>kfifo_get\<close> calls stays within the
  buffer, and the bytes delivered, followed by those still queued, are the bytes accepted.
\<close>

theorem kfifo_stream:
  assumes "kfifo_alloc malloc got_fifo sz = Kfifo_new fifo" and "\<And>n buf. malloc n = Some buf \<Longrightarrow> length buf = n"
    and "list_all short_put ops"
  shows "\<exists>accepted delivered fifo'. queue_run kfifo_put kfifo_get ops fifo = Some (accepted, delivered, fifo')
    \<and> fifo_ok fifo' \<and> accepted = delivered @ contents fifo'"
proof -
  have "fifo_ok fifo" "contents fifo = []" using alloc_spec [OF assms(1,2)] by blast+
  then show ?thesis using fifo.stream [OF _ assms(3), of fifo] by auto
qed

theorem kfifo_stream_witness:
  "\<exists>accepted delivered fifo'. queue_run kfifo_put kfifo_get [Put [1, 2, 3, 4, 5], Get 2, Put [6, 7]]
      (kfifo_init (replicate 4 0) 4) = Some (accepted, delivered, fifo')
    \<and> fifo_ok fifo' \<and> accepted = delivered @ contents fifo'"
  by (rule kfifo_stream [of "\<lambda>n. Some (replicate n 0)" True 3]) (simp_all, code_simp)

text \<open>
  Single characters: \<^verbatim>\<open>kfifo_putc\<close> always takes the character, at the price of the oldest one when
  the queue is full; \<^verbatim>\<open>kfifo_getc\<close> gives the oldest character, or -1.
\<close>

theorem kfifo_chars:
  assumes "fifo_ok fifo"
  shows "\<exists>fifo'. kfifo_putc fifo c = Some fifo' \<and> fifo_ok fifo'
      \<and> contents fifo' = (if length (contents fifo) < unat (k_size fifo) then contents fifo else tl (contents fifo)) @ [c]
      \<and> (\<exists>fifo''. kfifo_getc fifo' = Some (0, Some (hd (contents fifo')), fifo'') \<and> fifo_ok fifo''
          \<and> contents fifo'' = tl (contents fifo'))"
proof -
  obtain fifo' where f: "kfifo_putc fifo c = Some fifo'" "fifo_ok fifo'"
    "contents fifo' = (if length (contents fifo) < unat (k_size fifo) then contents fifo else tl (contents fifo)) @ [c]"
    using putc_spec [OF assms] by blast
  then have "contents fifo' \<noteq> []" by simp
  then obtain x xs where "contents fifo' = x # xs" by (meson neq_Nil_conv)
  with getc_spec [OF f(2)] have "\<exists>fifo''. kfifo_getc fifo' = Some (0, Some (hd (contents fifo')), fifo'')
      \<and> fifo_ok fifo'' \<and> contents fifo'' = tl (contents fifo')" by auto
  with f show ?thesis by blast
qed

theorem kfifo_chars_witness:
  "\<exists>fifo'. kfifo_putc (kfifo_init [7, 8] 2) 9 = Some fifo' \<and> contents fifo' = [9]"
proof -
  have "fifo_ok (kfifo_init [7, 8] 2)"
    by (auto simp: fifo_ok_def kfifo_init_def kfifo_len_def intro!: exI [of _ 1])
  from kfifo_chars [OF this, of 9] show ?thesis
    by (auto simp: kfifo_init_def contents_def kfifo_len_def ring_def)
qed

end
