(* ===== verification/Ratp_Commands.thy ===== *)
theory Ratp_Commands
  imports Files Env "HOL-Library.Monad_Syntax"
begin

text \<open>
  The commands that a host sends over the remote protocol (\<^verbatim>\<open>common/ratp/\<close>): ping, reading a
  variable, reading and writing device files, GPIOs and I2C devices, and reset. A request comes from
  the line with arbitrary content. Every field is read with its bounds checked: \<open>None\<close> is an access
  outside the request or outside another buffer.

  What the commands act on is a record of operations on an abstract state: the lookup of a path, the
  memory a device file is mapped to, the environment, the GPIO controllers, the I2C adapters and the
  clock. Device files behave as in the theory of files; the transfers of \<^verbatim>\<open>drivers/i2c/i2c.c\<close>
  are built here on the transfer operation of the adapter.
\<close>

section \<open>Fields of a message\<close>

definition be32 :: "u32 \<Rightarrow> bytes" where
  "be32 w = [ucast (drop_bit 24 w), ucast (drop_bit 16 w), ucast (drop_bit 8 w), ucast w]"

definition of_be32 :: "bytes \<Rightarrow> u32" where
  "of_be32 bs = push_bit 24 (ucast (bs ! 0)) OR push_bit 16 (ucast (bs ! 1))
     OR push_bit 8 (ucast (bs ! 2)) OR ucast (bs ! 3)"

definition get8 :: "nat \<Rightarrow> bytes \<Rightarrow> u8 option" where
  "get8 off req = map_option (\<lambda>bs. bs ! 0) (memcpy_from req off 1)"

definition get16 :: "nat \<Rightarrow> bytes \<Rightarrow> u16 option" where
  "get16 off req = map_option of_be16 (memcpy_from req off 2)"

definition get32 :: "nat \<Rightarrow> bytes \<Rightarrow> u32 option" where
  "get32 off req = map_option of_be32 (memcpy_from req off 4)"

text \<open>The header of a message: its type and unused flags.\<close>

definition ratp_bb :: "u16 \<Rightarrow> bytes" where
  "ratp_bb type = be16 type @ [0, 0]"

text \<open>A copy of the string in at most \<open>n\<close> bytes of memory. Running out of the memory before the
  end of the string is an access outside of it.\<close>

fun xstrndup :: "bytes \<Rightarrow> nat \<Rightarrow> string option" where
  "xstrndup s 0 = Some []"
| "xstrndup [] (Suc n) = None"
| "xstrndup (c # s) (Suc n) = (if c = 0 then Some [] else map_option ((#) (char_of (unat c))) (xstrndup s n))"

definition string_bytes :: "string \<Rightarrow> bytes" where
  "string_bytes s = map of_char s"

abbreviation (input) BB_RATP_TYPE_COMMAND :: u16 where "BB_RATP_TYPE_COMMAND \<equiv> 1"
abbreviation (input) BB_RATP_TYPE_COMMAND_RETURN :: u16 where "BB_RATP_TYPE_COMMAND_RETURN \<equiv> 2"
abbreviation (input) BB_RATP_TYPE_CONSOLEMSG :: u16 where "BB_RATP_TYPE_CONSOLEMSG \<equiv> 3"
abbreviation (input) BB_RATP_TYPE_PING :: u16 where "BB_RATP_TYPE_PING \<equiv> 4"
abbreviation (input) BB_RATP_TYPE_PONG :: u16 where "BB_RATP_TYPE_PONG \<equiv> 5"
abbreviation (input) BB_RATP_TYPE_GETENV :: u16 where "BB_RATP_TYPE_GETENV \<equiv> 6"
abbreviation (input) BB_RATP_TYPE_GETENV_RETURN :: u16 where "BB_RATP_TYPE_GETENV_RETURN \<equiv> 7"
abbreviation (input) BB_RATP_TYPE_FS :: u16 where "BB_RATP_TYPE_FS \<equiv> 8"
abbreviation (input) BB_RATP_TYPE_FS_RETURN :: u16 where "BB_RATP_TYPE_FS_RETURN \<equiv> 9"
abbreviation (input) BB_RATP_TYPE_MD :: u16 where "BB_RATP_TYPE_MD \<equiv> 10"
abbreviation (input) BB_RATP_TYPE_MD_RETURN :: u16 where "BB_RATP_TYPE_MD_RETURN \<equiv> 11"
abbreviation (input) BB_RATP_TYPE_MW :: u16 where "BB_RATP_TYPE_MW \<equiv> 12"
abbreviation (input) BB_RATP_TYPE_MW_RETURN :: u16 where "BB_RATP_TYPE_MW_RETURN \<equiv> 13"
abbreviation (input) BB_RATP_TYPE_RESET :: u16 where "BB_RATP_TYPE_RESET \<equiv> 14"
abbreviation (input) BB_RATP_TYPE_I2C_READ :: u16 where "BB_RATP_TYPE_I2C_READ \<equiv> 15"
abbreviation (input) BB_RATP_TYPE_I2C_READ_RETURN :: u16 where "BB_RATP_TYPE_I2C_READ_RETURN \<equiv> 16"
abbreviation (input) BB_RATP_TYPE_I2C_WRITE :: u16 where "BB_RATP_TYPE_I2C_WRITE \<equiv> 17"
abbreviation (input) BB_RATP_TYPE_I2C_WRITE_RETURN :: u16 where "BB_RATP_TYPE_I2C_WRITE_RETURN \<equiv> 18"
abbreviation (input) BB_RATP_TYPE_GPIO_GET_VALUE :: u16 where "BB_RATP_TYPE_GPIO_GET_VALUE \<equiv> 19"
abbreviation (input) BB_RATP_TYPE_GPIO_GET_VALUE_RETURN :: u16 where "BB_RATP_TYPE_GPIO_GET_VALUE_RETURN \<equiv> 20"
abbreviation (input) BB_RATP_TYPE_GPIO_SET_VALUE :: u16 where "BB_RATP_TYPE_GPIO_SET_VALUE \<equiv> 21"
abbreviation (input) BB_RATP_TYPE_GPIO_SET_VALUE_RETURN :: u16 where "BB_RATP_TYPE_GPIO_SET_VALUE_RETURN \<equiv> 22"
abbreviation (input) BB_RATP_TYPE_GPIO_SET_DIRECTION :: u16 where "BB_RATP_TYPE_GPIO_SET_DIRECTION \<equiv> 23"
abbreviation (input) BB_RATP_TYPE_GPIO_SET_DIRECTION_RETURN :: u16 where "BB_RATP_TYPE_GPIO_SET_DIRECTION_RETURN \<equiv> 24"

section \<open>The machine\<close>

record i2c_msg =
  i2c_buf :: bytes
  i2c_addr :: u16
  i2c_flags :: u16
  i2c_len :: u16

record 'w machine =
  m_open :: "'w \<Rightarrow> string \<Rightarrow> open_mode \<Rightarrow> int + 'w cdev"
  m_memmap :: "'w cdev \<Rightarrow> 'w \<Rightarrow> bytes option"
  m_env :: "'w \<Rightarrow> env"
  m_set_env :: "env \<Rightarrow> 'w \<Rightarrow> 'w"
  m_gpio_get_value :: "'w \<Rightarrow> u32 \<Rightarrow> int \<times> 'w"
  m_gpio_set_value :: "'w \<Rightarrow> u32 \<Rightarrow> u8 \<Rightarrow> 'w"
  m_gpio_direction_output :: "'w \<Rightarrow> u32 \<Rightarrow> u8 \<Rightarrow> int \<times> 'w"
  m_gpio_direction_input :: "'w \<Rightarrow> u32 \<Rightarrow> int \<times> 'w"
  m_i2c_adapter :: "'w \<Rightarrow> u8 \<Rightarrow> bool"
  m_i2c_xfer :: "u8 \<Rightarrow> 'w \<Rightarrow> i2c_msg list \<Rightarrow> int \<times> i2c_msg list \<times> 'w"
  m_time :: "'w \<Rightarrow> u64 \<times> 'w"
  m_shutdown :: "'w \<Rightarrow> 'w"

text \<open>A command returns a status and possibly a response, or the machine restarts.\<close>

datatype 'w cmd_result = Returns int "bytes option" 'w | Restarts 'w

section \<open>I2C transfers\<close>

abbreviation (input) I2C_M_RD :: u16 where "I2C_M_RD \<equiv> 1"
abbreviation (input) I2C_ADDR_16_BIT :: u32 where "I2C_ADDR_16_BIT \<equiv> 0x80000000"

fun i2c_try :: "'w machine \<Rightarrow> u8 \<Rightarrow> 'w \<Rightarrow> i2c_msg list \<Rightarrow> u64 \<Rightarrow> nat \<Rightarrow> int \<Rightarrow> int \<times> i2c_msg list \<times> 'w" where
  "i2c_try mach bus w msgs start 0 ret = (ret, msgs, w)"
| "i2c_try mach bus w msgs start (Suc n) _ =
     (case m_i2c_xfer mach bus w msgs of (ret, msgs, w) \<Rightarrow>
        if ret \<noteq> - EAGAIN then (ret, msgs, w)
        else (case m_time mach w of (now, w) \<Rightarrow>
                if sint (start + 500000000 - now) < 0 then (ret, msgs, w)
                else i2c_try mach bus w msgs start n ret))"

definition i2c_transfer :: "'w machine \<Rightarrow> u8 \<Rightarrow> 'w \<Rightarrow> i2c_msg list \<Rightarrow> int \<times> i2c_msg list \<times> 'w" where
  "i2c_transfer mach bus w msgs = (case m_time mach w of (start, w) \<Rightarrow> i2c_try mach bus w msgs start 3 0)"

definition i2c_master_send :: "'w machine \<Rightarrow> u8 \<Rightarrow> u16 \<Rightarrow> 'w \<Rightarrow> bytes \<Rightarrow> int \<times> 'w" where
  "i2c_master_send mach bus addr w buf =
     (case i2c_transfer mach bus w
             [\<lparr>i2c_buf = buf, i2c_addr = addr, i2c_flags = 0, i2c_len = of_nat (length buf)\<rparr>] of
        (ret, msgs, w) \<Rightarrow> (if ret = 1 then int (length buf) else ret, w))"

definition i2c_master_recv :: "'w machine \<Rightarrow> u8 \<Rightarrow> u16 \<Rightarrow> 'w \<Rightarrow> bytes \<Rightarrow> int \<times> bytes \<times> 'w" where
  "i2c_master_recv mach bus addr w buf =
     (case i2c_transfer mach bus w
             [\<lparr>i2c_buf = buf, i2c_addr = addr, i2c_flags = I2C_M_RD, i2c_len = of_nat (length buf)\<rparr>] of
        (ret, msgs, w) \<Rightarrow> (if ret = 1 then int (length buf) else ret, i2c_buf (msgs ! 0), w))"

text \<open>The number of the register, in one or two bytes.\<close>

definition i2c_reg_bytes :: "u32 \<Rightarrow> bytes" where
  "i2c_reg_bytes addr = (if addr AND I2C_ADDR_16_BIT \<noteq> 0 then [ucast (drop_bit 8 addr)] else []) @ [ucast addr]"

definition i2c_read_reg :: "'w machine \<Rightarrow> u8 \<Rightarrow> u16 \<Rightarrow> 'w \<Rightarrow> u32 \<Rightarrow> bytes \<Rightarrow> int \<times> bytes \<times> 'w" where
  "i2c_read_reg mach bus addr w reg buf =
     (let r = i2c_reg_bytes reg
      in case i2c_transfer mach bus w
                [\<lparr>i2c_buf = r, i2c_addr = addr, i2c_flags = 0, i2c_len = of_nat (length r)\<rparr>,
                 \<lparr>i2c_buf = buf, i2c_addr = addr, i2c_flags = I2C_M_RD, i2c_len = of_nat (length buf)\<rparr>] of
           (status, msgs, w) \<Rightarrow>
             (if status = 2 then int (length buf) else if 0 \<le> status then - EIO else status, i2c_buf (msgs ! 1), w))"

text \<open>The message of a write is put together in an array of 256 bytes on the stack, whose content
  is the argument \<open>msgbuf\<close>.\<close>

definition i2c_write_reg :: "'w machine \<Rightarrow> bytes \<Rightarrow> u8 \<Rightarrow> u16 \<Rightarrow> 'w \<Rightarrow> u32 \<Rightarrow> bytes \<Rightarrow> (int \<times> 'w) option" where
  "i2c_write_reg mach msgbuf bus addr w reg buf =
     (let r = i2c_reg_bytes reg
      in do { msgbuf \<leftarrow> memcpy_to msgbuf 0 r;
              msgbuf \<leftarrow> (if buf \<noteq> [] then memcpy_to msgbuf (length r) buf else Some msgbuf);
              (case i2c_transfer mach bus w
                      [\<lparr>i2c_buf = msgbuf, i2c_addr = addr, i2c_flags = 0,
                        i2c_len = of_nat (length buf) + of_nat (length r)\<rparr>] of
                 (status, msgs, w) \<Rightarrow>
                   Some (if status = 1 then int (length buf) else if 0 \<le> status then - EIO else status, w)) })"

section \<open>Simple commands\<close>

definition ratp_cmd_ping :: "'w machine \<Rightarrow> 'w \<Rightarrow> bytes \<Rightarrow> 'w cmd_result option" where
  "ratp_cmd_ping mach w req = Some (Returns 0 (Some (ratp_bb BB_RATP_TYPE_PONG)) w)"

text \<open>The length of the name is that of the request without its header. For a request shorter than
  its header it is negative, which the copy takes for a large number.\<close>

definition ratp_cmd_getenv :: "'w machine \<Rightarrow> 'w \<Rightarrow> bytes \<Rightarrow> 'w cmd_result option" where
  "ratp_cmd_getenv mach w req =
     do { varname \<leftarrow> xstrndup (drop 4 req) (unat (of_int (int (length req) - 4) :: u32));
          (case getenv (m_env mach w) varname of (v, e) \<Rightarrow>
             (let v = (case v of None \<Rightarrow> [] | Some v \<Rightarrow> v)
              in Some (Returns 0 (Some (ratp_bb BB_RATP_TYPE_GETENV_RETURN @ string_bytes v)) (m_set_env mach e w)))) }"

definition ratp_cmd_reset :: "'w machine \<Rightarrow> 'w \<Rightarrow> bytes \<Rightarrow> 'w cmd_result option" where
  "ratp_cmd_reset mach w req =
     (if length req < 5 then Some (Returns 2 None w)
      else do { force \<leftarrow> get8 4 req;
                Some (Restarts (if force = 0 then m_shutdown mach w else w)) })"

section \<open>GPIOs\<close>

definition ratp_cmd_gpio_get_value :: "'w machine \<Rightarrow> 'w \<Rightarrow> bytes \<Rightarrow> 'w cmd_result option" where
  "ratp_cmd_gpio_get_value mach w req =
     (if length req < 8 then Some (Returns 2 None w)
      else do { gpio \<leftarrow> get32 4 req;
                (case m_gpio_get_value mach w gpio of (v, w) \<Rightarrow>
                   Some (Returns 0 (Some (ratp_bb BB_RATP_TYPE_GPIO_GET_VALUE_RETURN @ [if v \<noteq> 0 then 1 else 0])) w)) })"

definition ratp_cmd_gpio_set_value :: "'w machine \<Rightarrow> 'w \<Rightarrow> bytes \<Rightarrow> 'w cmd_result option" where
  "ratp_cmd_gpio_set_value mach w req =
     (if length req < 9 then Some (Returns 2 None w)
      else do { gpio \<leftarrow> get32 4 req;
                v \<leftarrow> get8 8 req;
                Some (Returns 0 (Some (ratp_bb BB_RATP_TYPE_GPIO_SET_VALUE_RETURN)) (m_gpio_set_value mach w gpio v)) })"

definition ratp_cmd_gpio_set_direction :: "'w machine \<Rightarrow> 'w \<Rightarrow> bytes \<Rightarrow> 'w cmd_result option" where
  "ratp_cmd_gpio_set_direction mach w req =
     (if length req < 10 then Some (Returns 2 None w)
      else do { gpio \<leftarrow> get32 4 req;
                direction \<leftarrow> get8 8 req;
                v \<leftarrow> get8 9 req;
                (case (if direction \<noteq> 0 then m_gpio_direction_output mach w gpio v
                       else m_gpio_direction_input mach w gpio) of
                   (ret, w) \<Rightarrow>
                     Some (Returns 0 (Some (ratp_bb BB_RATP_TYPE_GPIO_SET_DIRECTION_RETURN
                                              @ be32 (if ret = 0 then 0 else of_int EIO))) w)) })"

section \<open>Reading device files\<close>

text \<open>\<^verbatim>\<open>ftruncate\<close> of a device file, and \<^verbatim>\<open>open_and_lseek\<close>: a file that is opened for
  writing is extended to the position. A stream reports a size of -1, and truncating it does nothing.\<close>

definition ftruncate :: "'w vfile \<Rightarrow> 'w \<Rightarrow> nat \<Rightarrow> int \<times> 'w vfile \<times> 'w" where
  "ftruncate f w len =
     (if f_stream f then (0, f, w)
      else case cdev_truncate (f_cdev f) w len of (ret, w) \<Rightarrow>
        if ret \<noteq> 0 then (ret, f, w) else (0, f\<lparr>f_size := len\<rparr>, w))"

definition open_and_lseek :: "'w machine \<Rightarrow> 'w \<Rightarrow> string \<Rightarrow> open_mode \<Rightarrow> nat \<Rightarrow> (int + 'w vfile) \<times> 'w" where
  "open_and_lseek mach w filename mode pos =
     (case m_open mach w filename mode of
        Inl err \<Rightarrow> (Inl err, w)
      | Inr cdev \<Rightarrow>
          (let f = devfs_open cdev mode
           in if pos = 0 then (Inr f, w)
              else (case (if mode \<noteq> O_RDONLY \<and> (f_stream f \<or> f_size f < pos) then ftruncate f w pos else (0, f, w)) of
                      (ret, f, w) \<Rightarrow> if ret \<noteq> 0 then (Inl ret, w) else (lseek_set f w pos, w))))"

text \<open>The loop reads into a buffer of 4096 bytes and copies to the response.\<close>

function md_loop :: "'w vfile \<Rightarrow> 'w \<Rightarrow> nat \<Rightarrow> nat \<Rightarrow> bytes \<Rightarrow> (int \<times> bytes \<times> 'w) option" where
  "md_loop f w sz t output =
     (case fd_read f w (min sz 4096) of (r, buf, f, w) \<Rightarrow>
        if r < 0 then Some (r, output, w)
        else if r = 0 then Some (0, output, w)
        else do { output \<leftarrow> memcpy_to output t (take (nat r) buf);
                  if int sz < r then None
                  else if sz = nat r then Some (0, output, w)
                  else md_loop f w (sz - nat r) (t + nat r) output })"
  by pat_completeness auto

termination
  by (relation "measure (\<lambda>(f, w, sz, t, output). sz)") auto

declare md_loop.simps [simp del]

definition do_ratp_mem_md :: "'w machine \<Rightarrow> 'w \<Rightarrow> string \<Rightarrow> nat \<Rightarrow> nat \<Rightarrow> bytes \<Rightarrow> (int \<times> bytes \<times> 'w) option" where
  "do_ratp_mem_md mach w filename start sz output =
     (case open_and_lseek mach w filename O_RDONLY start of
        (Inl err, w) \<Rightarrow> Some (err, output, w)
      | (Inr f, w) \<Rightarrow>
          (case m_memmap mach (f_cdev f) w of
             Some mem \<Rightarrow>
               do { data \<leftarrow> memcpy_from mem start sz;
                    output \<leftarrow> memcpy_to output 0 data;
                    Some (0, output, w) }
           | None \<Rightarrow> md_loop f w sz 0 output))"

text \<open>The checks of the request: the status, the position, the length and the path.\<close>

definition md_request :: "bytes \<Rightarrow> (int + (nat \<times> nat \<times> string)) option" where
  "md_request req =
     (if length req < 14 then Some (Inl (- EINVAL))
      else do { buffer_offset \<leftarrow> get16 4 req;
                if length req < unat buffer_offset then Some (Inl (- EINVAL))
                else do { path_offset \<leftarrow> get16 12 req;
                          path_size \<leftarrow> get16 10 req;
                          addr \<leftarrow> get16 6 req;
                          sz \<leftarrow> get16 8 req;
                          let buffer_size = (of_nat (length req - unat buffer_offset) :: u16);
                          if path_offset \<noteq> 0 then Some (Inl (- EINVAL))
                          else if path_size = 0 then Some (Inl (- EINVAL))
                          else if buffer_size < path_size then Some (Inl (- EINVAL))
                          else do { path \<leftarrow> xstrndup (drop (unat buffer_offset + unat path_offset) req) (unat path_size);
                                    Some (Inr (unat addr, unat sz, path)) } } })"

text \<open>The response carries the error or the data; a response with an error is cut to its header.\<close>

definition md_response :: "u16 \<Rightarrow> int \<Rightarrow> bytes \<Rightarrow> bytes" where
  "md_response type ret buffer =
     ratp_bb type @ be16 14
       @ (if ret \<noteq> 0 then be32 (of_int ret) @ be16 0 @ be16 0
          else be32 0 @ be16 (of_nat (length buffer)) @ be16 0 @ buffer)"

definition ratp_cmd_md :: "'w machine \<Rightarrow> 'w \<Rightarrow> bytes \<Rightarrow> 'w cmd_result option" where
  "ratp_cmd_md mach w req =
     do { r \<leftarrow> md_request req;
          (ret, buffer, w) \<leftarrow>
            (case r of
               Inl ret \<Rightarrow> Some (ret, [], w)
             | Inr (addr, sz, path) \<Rightarrow>
                 if 0 < sz then do_ratp_mem_md mach w path addr sz (replicate sz 0) else Some (0, [], w));
          Some (Returns ret (Some (md_response BB_RATP_TYPE_MD_RETURN ret buffer)) w) }"

section \<open>Writing device files\<close>

text \<open>A request to write nothing is successful without further checks.\<close>

definition mw_request :: "bytes \<Rightarrow> (int + (nat \<times> string \<times> bytes)) option" where
  "mw_request req =
     (if length req < 16 then Some (Inl (- EINVAL))
      else do { buffer_offset \<leftarrow> get16 4 req;
                if length req < unat buffer_offset then Some (Inl (- EINVAL))
                else do { path_offset \<leftarrow> get16 10 req;
                          path_size \<leftarrow> get16 8 req;
                          data_offset \<leftarrow> get16 14 req;
                          data_size \<leftarrow> get16 12 req;
                          addr \<leftarrow> get16 6 req;
                          let buffer_size = (of_nat (length req - unat buffer_offset) :: u16);
                          if path_offset \<noteq> 0 then Some (Inl (- EINVAL))
                          else if path_size = 0 then Some (Inl (- EINVAL))
                          else if unat data_offset \<noteq> unat path_offset + unat path_size then Some (Inl (- EINVAL))
                          else if data_size = 0 then Some (Inl 0)
                          else if unat buffer_size < unat path_size + unat data_size then Some (Inl (- EINVAL))
                          else do { path \<leftarrow> xstrndup (drop (unat buffer_offset + unat path_offset) req) (unat path_size);
                                    data \<leftarrow> memcpy_from req (unat buffer_offset + unat data_offset) (unat data_size);
                                    Some (Inr (unat addr, path, data)) } } })"

definition mw_response :: "u16 \<Rightarrow> int \<Rightarrow> int \<Rightarrow> bytes" where
  "mw_response type ret written =
     ratp_bb type @ be16 12
       @ (if ret \<noteq> 0 then be32 (of_int ret) @ be16 0 else be32 0 @ be16 (of_int written))"

definition ratp_cmd_mw :: "'w machine \<Rightarrow> 'w \<Rightarrow> bytes \<Rightarrow> 'w cmd_result option" where
  "ratp_cmd_mw mach w req =
     do { r \<leftarrow> mw_request req;
          let (ret, written, w) =
            (case r of
               Inl ret \<Rightarrow> (ret, 0, w)
             | Inr (addr, path, data) \<Rightarrow>
                 (case open_and_lseek mach w path O_WRONLY addr of
                    (Inl err, w) \<Rightarrow> (err, 0, w)
                  | (Inr f, w) \<Rightarrow>
                      (case fd_write f w data of (written, f, w) \<Rightarrow>
                         (if written < 0 then written else 0, written, w))));
          Some (Returns ret (Some (mw_response BB_RATP_TYPE_MW_RETURN ret written)) w) }"

section \<open>I2C devices\<close>

abbreviation (input) I2C_FLAG_WIDE_ADDRESS :: u8 where "I2C_FLAG_WIDE_ADDRESS \<equiv> 1"
abbreviation (input) I2C_FLAG_MASTER_MODE :: u8 where "I2C_FLAG_MASTER_MODE \<equiv> 2"

definition i2c_register :: "u16 \<Rightarrow> u8 \<Rightarrow> u32" where
  "i2c_register reg flags = ucast reg OR (if flags AND I2C_FLAG_WIDE_ADDRESS \<noteq> 0 then I2C_ADDR_16_BIT else 0)"

definition ratp_cmd_i2c_read :: "'w machine \<Rightarrow> 'w \<Rightarrow> bytes \<Rightarrow> 'w cmd_result option" where
  "ratp_cmd_i2c_read mach w req =
     (let rsp = (\<lambda>ret buffer w. Some (Returns 0 (Some (md_response BB_RATP_TYPE_I2C_READ_RETURN ret buffer)) w))
      in if length req < 13 then rsp (- EINVAL) [] w
         else do { buffer_offset \<leftarrow> get16 4 req;
                   if unat buffer_offset \<noteq> length req then rsp (- EINVAL) [] w
                   else do { bus \<leftarrow> get8 6 req;
                             addr \<leftarrow> get8 7 req;
                             reg \<leftarrow> get16 8 req;
                             flags \<leftarrow> get8 10 req;
                             sz \<leftarrow> get16 11 req;
                             if sz = 0 then rsp 0 [] w
                             else if \<not> m_i2c_adapter mach w bus then rsp (- ENODEV) [] w
                             else (case (if flags AND I2C_FLAG_MASTER_MODE \<noteq> 0
                                         then i2c_master_recv mach bus (ucast addr) w (replicate (unat sz) 0)
                                         else i2c_read_reg mach bus (ucast addr) w (i2c_register reg flags) (replicate (unat sz) 0)) of
                                     (ret, buffer, w) \<Rightarrow> rsp (if ret \<noteq> int (unat sz) then - EIO else 0) buffer w) } })"

definition ratp_cmd_i2c_write :: "'w machine \<Rightarrow> bytes \<Rightarrow> 'w \<Rightarrow> bytes \<Rightarrow> 'w cmd_result option" where
  "ratp_cmd_i2c_write mach msgbuf w req =
     (let rsp = (\<lambda>ret written w. Some (Returns 0 (Some (mw_response BB_RATP_TYPE_I2C_WRITE_RETURN ret written)) w))
      in if length req < 15 then rsp (- EINVAL) 0 w
         else do { buffer_offset \<leftarrow> get16 4 req;
                   if length req < unat buffer_offset then rsp (- EINVAL) 0 w
                   else do { data_offset \<leftarrow> get16 13 req;
                             data_size \<leftarrow> get16 11 req;
                             bus \<leftarrow> get8 6 req;
                             addr \<leftarrow> get8 7 req;
                             reg \<leftarrow> get16 8 req;
                             flags \<leftarrow> get8 10 req;
                             let buffer_size = (of_nat (length req - unat buffer_offset) :: u16);
                             if data_offset \<noteq> 0 then rsp (- EINVAL) 0 w
                             else if data_size = 0 then rsp 0 0 w
                             else if buffer_size < data_size then rsp (- EINVAL) 0 w
                             else if \<not> m_i2c_adapter mach w bus then rsp (- ENODEV) 0 w
                             else do { data \<leftarrow> memcpy_from req (unat buffer_offset + unat data_offset) (unat data_size);
                                       (written, w) \<leftarrow>
                                         (if flags AND I2C_FLAG_MASTER_MODE \<noteq> 0
                                          then Some (i2c_master_send mach bus (ucast addr) w data)
                                          else i2c_write_reg mach msgbuf bus (ucast addr) w (i2c_register reg flags) data);
                                       rsp (if written \<noteq> int (unat data_size) then - EIO else 0) written w } } })"

section \<open>The list of commands\<close>

record 'w ratp_command =
  request_id :: u16
  response_id :: u16
  cmd_fn :: "'w \<Rightarrow> bytes \<Rightarrow> 'w cmd_result option"

definition compare_ratp_command :: "'w ratp_command \<Rightarrow> 'w ratp_command \<Rightarrow> int" where
  "compare_ratp_command a b = int (unat (request_id a)) - int (unat (request_id b))"

definition register_ratp_command :: "'w ratp_command \<Rightarrow> 'w ratp_command list \<Rightarrow> 'w ratp_command list" where
  "register_ratp_command cmd cmds = list_add_sort cmd cmds compare_ratp_command"

fun find_ratp_request :: "'w ratp_command list \<Rightarrow> u16 \<Rightarrow> 'w ratp_command option" where
  "find_ratp_request [] rid = None"
| "find_ratp_request (cmd # cmds) rid = (if rid = request_id cmd then Some cmd else find_ratp_request cmds rid)"

text \<open>The commands of the build in the order of the linker list, which sorts them by the names of
  their sections.\<close>

definition barebox_ratp_cmds :: "'w machine \<Rightarrow> bytes \<Rightarrow> 'w ratp_command list" where
  "barebox_ratp_cmds mach msgbuf =
     [\<lparr>request_id = BB_RATP_TYPE_GETENV, response_id = BB_RATP_TYPE_GETENV_RETURN, cmd_fn = ratp_cmd_getenv mach\<rparr>,
      \<lparr>request_id = BB_RATP_TYPE_GPIO_GET_VALUE, response_id = BB_RATP_TYPE_GPIO_GET_VALUE_RETURN, cmd_fn = ratp_cmd_gpio_get_value mach\<rparr>,
      \<lparr>request_id = BB_RATP_TYPE_GPIO_SET_DIRECTION, response_id = BB_RATP_TYPE_GPIO_SET_DIRECTION_RETURN, cmd_fn = ratp_cmd_gpio_set_direction mach\<rparr>,
      \<lparr>request_id = BB_RATP_TYPE_GPIO_SET_VALUE, response_id = BB_RATP_TYPE_GPIO_SET_VALUE_RETURN, cmd_fn = ratp_cmd_gpio_set_value mach\<rparr>,
      \<lparr>request_id = BB_RATP_TYPE_I2C_READ, response_id = BB_RATP_TYPE_I2C_READ_RETURN, cmd_fn = ratp_cmd_i2c_read mach\<rparr>,
      \<lparr>request_id = BB_RATP_TYPE_I2C_WRITE, response_id = BB_RATP_TYPE_I2C_WRITE_RETURN, cmd_fn = ratp_cmd_i2c_write mach msgbuf\<rparr>,
      \<lparr>request_id = BB_RATP_TYPE_MD, response_id = BB_RATP_TYPE_MD_RETURN, cmd_fn = ratp_cmd_md mach\<rparr>,
      \<lparr>request_id = BB_RATP_TYPE_MW, response_id = BB_RATP_TYPE_MW_RETURN, cmd_fn = ratp_cmd_mw mach\<rparr>,
      \<lparr>request_id = BB_RATP_TYPE_PING, response_id = BB_RATP_TYPE_PONG, cmd_fn = ratp_cmd_ping mach\<rparr>,
      \<lparr>request_id = BB_RATP_TYPE_RESET, response_id = 0, cmd_fn = ratp_cmd_reset mach\<rparr>]"

definition init_ratp_command_list :: "'w machine \<Rightarrow> bytes \<Rightarrow> 'w ratp_command list" where
  "init_ratp_command_list mach msgbuf = fold register_ratp_command (barebox_ratp_cmds mach msgbuf) []"

section \<open>Reading requests\<close>

lemma get8_in [simp]: "off < length req \<Longrightarrow> get8 off req = Some (req ! off)"
  by (simp add: get8_def memcpy_from_def subbuf_def)

lemma get16_in [simp]: "off + 2 \<le> length req \<Longrightarrow> get16 off req = Some (of_be16 (subbuf off 2 req))"
  by (simp add: get16_def memcpy_from_def)

lemma get32_in [simp]: "off + 4 \<le> length req \<Longrightarrow> get32 off req = Some (of_be32 (subbuf off 4 req))"
  by (simp add: get32_def memcpy_from_def)

lemma xstrndup_in:
  "n \<le> length s \<Longrightarrow> xstrndup s n = Some (map (\<lambda>c. char_of (unat c)) (takeWhile (\<lambda>c. c \<noteq> 0) (take n s)))"
  by (induction s n rule: xstrndup.induct) auto

lemma u16_size_le: "unat v \<le> unat (of_nat n :: u16) \<Longrightarrow> unat (v :: u16) \<le> n"
  by (erule order_trans) (simp add: unat_of_nat)

text \<open>A path or data that passes the checks lies within the request.\<close>

lemma field_in_request:
  assumes "unat buffer_offset \<le> length req" and "unat sz \<le> unat (of_nat (length req - unat buffer_offset) :: u16)"
  shows "unat buffer_offset + unat (sz :: u16) \<le> length (req :: bytes)"
  using u16_size_le [OF assms(2)] assms(1) by linarith

lemma md_request_total: "\<exists>r. md_request req = Some r"
proof (cases "length req < 14")
  case True
  then show ?thesis by (simp add: md_request_def)
next
  case False
  then obtain off path_off path_sz sz addr where fields: "get16 4 req = Some off" "get16 12 req = Some path_off"
    "get16 10 req = Some path_sz" "get16 8 req = Some sz" "get16 6 req = Some addr"
    by simp
  define buffer_sz where "buffer_sz = (of_nat (length req - unat off) :: u16)"
  have eq: "md_request req =
     (if length req < unat off then Some (Inl (- EINVAL))
      else if path_off \<noteq> 0 then Some (Inl (- EINVAL))
      else if path_sz = 0 then Some (Inl (- EINVAL))
      else if buffer_sz < path_sz then Some (Inl (- EINVAL))
      else do { path \<leftarrow> xstrndup (drop (unat off + unat path_off) req) (unat path_sz);
                Some (Inr (unat addr, unat sz, path)) })"
    using False by (simp only: md_request_def Let_def fields bind.bind_lunit if_False buffer_sz_def)
  have "\<exists>path. xstrndup (drop (unat off) req) (unat path_sz) = Some path"
    if "\<not> length req < unat off" "\<not> buffer_sz < path_sz"
    using field_in_request [of off req path_sz] that
    by (subst xstrndup_in) (auto simp: buffer_sz_def word_less_nat_alt not_less)
  then show ?thesis unfolding eq by auto
qed

lemma md_request_bounds: "md_request req = Some (Inr (addr, sz, path)) \<Longrightarrow> addr \<le> 65535 \<and> sz \<le> 65535"
  using unsigned_less [where 'a = nat and 'b = 16]
  by (auto simp: md_request_def Let_def bind_eq_Some_conv less_Suc_eq_le [symmetric] simp del: get16_in split: if_splits)

lemma mw_request_total: "\<exists>r. mw_request req = Some r"
proof (cases "length req < 16")
  case True
  then show ?thesis by (simp add: mw_request_def)
next
  case False
  then obtain off path_off path_sz data_off data_sz addr where fields: "get16 4 req = Some off" "get16 10 req = Some path_off"
    "get16 8 req = Some path_sz" "get16 14 req = Some data_off" "get16 12 req = Some data_sz" "get16 6 req = Some addr"
    by simp
  define buffer_sz where "buffer_sz = (of_nat (length req - unat off) :: u16)"
  have le: "unat buffer_sz \<le> length req - unat off" unfolding buffer_sz_def by (rule u16_size_le) simp
  have eq: "mw_request req =
     (if length req < unat off then Some (Inl (- EINVAL))
      else if path_off \<noteq> 0 then Some (Inl (- EINVAL))
      else if path_sz = 0 then Some (Inl (- EINVAL))
      else if unat data_off \<noteq> unat path_off + unat path_sz then Some (Inl (- EINVAL))
      else if data_sz = 0 then Some (Inl 0)
      else if unat buffer_sz < unat path_sz + unat data_sz then Some (Inl (- EINVAL))
      else do { path \<leftarrow> xstrndup (drop (unat off + unat path_off) req) (unat path_sz);
                data \<leftarrow> memcpy_from req (unat off + unat data_off) (unat data_sz);
                Some (Inr (unat addr, path, data)) })"
    using False by (simp only: mw_request_def Let_def fields bind.bind_lunit if_False buffer_sz_def)
  show ?thesis
  proof (cases "unat off \<le> length req \<and> \<not> unat buffer_sz < unat path_sz + unat data_sz")
    case True
    with le have "unat off + (unat path_sz + unat data_sz) \<le> length req" by linarith
    then have "\<exists>path. xstrndup (drop (unat off) req) (unat path_sz) = Some path"
      "\<exists>data. memcpy_from req (unat off + unat path_sz) (unat data_sz) = Some data"
      by (simp_all add: xstrndup_in memcpy_from_def)
    then show ?thesis unfolding eq by auto
  next
    case False
    then show ?thesis unfolding eq by auto
  qed
qed

section \<open>What the commands expect of the machine\<close>

text \<open>
  A device file never delivers more than it was asked for, and its memory map, if there is one,
  covers every place a request can name: 65535 bytes at an offset of at most 65535.
\<close>

locale command_machine =
  fixes mach :: "'w machine" and good :: "'w \<Rightarrow> bool"
  assumes read_fits: "good w \<Longrightarrow> m_open mach w0 path mode = Inr cdev \<Longrightarrow> cdev_read cdev w cnt off = (r, buf, w') \<Longrightarrow>
      good w' \<and> r \<le> int cnt \<and> nat r \<le> length buf"
    and memmap_covers: "good w \<Longrightarrow> m_open mach w0 path mode = Inr cdev \<Longrightarrow> m_memmap mach cdev w = Some mem \<Longrightarrow>
      131070 \<le> length mem"

definition within_file :: "'w vfile \<Rightarrow> bool" where
  "within_file f \<longleftrightarrow> f_mode f = O_RDONLY \<and> (f_stream f \<or> f_pos f \<le> f_size f)"

definition answers :: "'w ratp_command \<Rightarrow> 'w cmd_result option \<Rightarrow> bool" where
  "answers cmd r =
     (case r of
        None \<Rightarrow> False
      | Some (Restarts w) \<Rightarrow> request_id cmd = BB_RATP_TYPE_RESET
      | Some (Returns ret None w) \<Rightarrow> ret = 2
      | Some (Returns ret (Some rsp) w) \<Rightarrow> 4 \<le> length rsp \<and> take 2 rsp = be16 (response_id cmd))"

text \<open>A request to write a register whose data do not fit into the array on the stack.\<close>

definition i2c_write_too_long :: "bytes \<Rightarrow> bool" where
  "i2c_write_too_long req \<longleftrightarrow> 256 < length (i2c_reg_bytes (i2c_register (of_be16 (subbuf 8 2 req)) (req ! 10)))
     + unat (of_be16 (subbuf 11 2 req))"

lemma read_within_file:
  assumes "within_file f" and "fd_read f w cnt = (r, buf, f', w')"
  obtains "r = 0" "w' = w" | n where "n \<le> cnt" "cdev_read (f_cdev f) w n (f_pos f) = (r, buf, w')"
    "r \<le> int n \<Longrightarrow> within_file f'" "f_cdev f' = f_cdev f"
proof -
  let ?n = "if f_stream f then cnt else min cnt (f_size f - f_pos f)"
  have "vfs_read f w cnt = (if ?n = 0 then (0, [], w) else cdev_read (f_cdev f) w ?n (f_pos f))"
    using assms(1) by (auto simp: vfs_read_def devfs_read_def clamp_count_def within_file_def Let_def min_def)
  then consider "r = 0" "w' = w" | "cdev_read (f_cdev f) w ?n (f_pos f) = (r, buf, w')"
    "f' = (if 0 < r then f\<lparr>f_pos := f_pos f + nat r\<rparr> else f)"
    using assms(2) by (auto simp: fd_read_def split: prod.splits if_splits)
  then show thesis
  proof cases
    case 2
    then show thesis using assms(1) that(2) [of ?n] by (auto simp: within_file_def split: if_splits)
  qed (rule that(1))
qed

lemma response_shape:
  "length (ratp_bb type) = 4" "take 2 (ratp_bb type) = be16 type"
  "4 \<le> length (md_response type ret buffer)" "take 2 (md_response type ret buffer) = be16 type"
  "4 \<le> length (mw_response type ret written)" "take 2 (mw_response type ret written) = be16 type"
  by (simp_all add: md_response_def mw_response_def ratp_bb_def be16_def)

lemma cmd_mw_answers: "\<exists>ret rsp w'. ratp_cmd_mw mach w req = Some (Returns ret (Some (mw_response BB_RATP_TYPE_MW_RETURN ret rsp)) w')"
proof -
  obtain r where "mw_request req = Some r" using mw_request_total by blast
  then show ?thesis by (auto simp: ratp_cmd_mw_def case_prod_beta Let_def)
qed

lemma cmd_i2c_read_answers:
  "\<exists>ret buffer w'. ratp_cmd_i2c_read mach w req = Some (Returns 0 (Some (md_response BB_RATP_TYPE_I2C_READ_RETURN ret buffer)) w')"
  by (auto simp: ratp_cmd_i2c_read_def Let_def case_prod_beta not_less)

lemma cmd_getenv_answers:
  assumes "4 \<le> length req"
  shows "\<exists>v w'. ratp_cmd_getenv mach w req = Some (Returns 0 (Some (ratp_bb BB_RATP_TYPE_GETENV_RETURN @ v)) w')"
proof -
  have "unat (of_int (int (length req) - 4) :: u32) \<le> length req - 4"
  proof -
    have "(of_int (int (length req) - 4) :: u32) = of_nat (length req - 4)" using assms by (simp add: of_nat_diff)
    then show ?thesis by (simp add: unat_of_nat)
  qed
  then show ?thesis by (auto simp: ratp_cmd_getenv_def xstrndup_in case_prod_beta Let_def)
qed

lemma init_commands_set: "set (init_ratp_command_list mach msgbuf) = set (barebox_ratp_cmds mach msgbuf)"
proof -
  have "set (fold register_ratp_command cs acc) = set cs \<union> set acc" for cs acc :: "'a ratp_command list"
    by (induction cs arbitrary: acc) (auto simp: register_ratp_command_def)
  then show ?thesis by (simp add: init_ratp_command_list_def)
qed

lemma plain_commands_answer:
  assumes "4 \<le> length req" and "cmd \<in> set (barebox_ratp_cmds mach msgbuf)"
    and "request_id cmd \<noteq> BB_RATP_TYPE_MD" and "request_id cmd \<noteq> BB_RATP_TYPE_I2C_WRITE"
  shows "answers cmd (cmd_fn cmd w req)"
  using assms(2-4) cmd_getenv_answers [OF assms(1), of mach w] cmd_mw_answers [of mach w req] cmd_i2c_read_answers [of mach w req]
  by (auto simp: barebox_ratp_cmds_def answers_def response_shape ratp_cmd_ping_def ratp_cmd_reset_def
      ratp_cmd_gpio_get_value_def ratp_cmd_gpio_set_value_def ratp_cmd_gpio_set_direction_def case_prod_beta not_less)

lemma bind_SomeE: "m \<bind> f = Some r \<Longrightarrow> (\<And>x. m = Some x \<Longrightarrow> f x = Some r \<Longrightarrow> thesis) \<Longrightarrow> thesis"
  by (auto simp: bind_eq_Some_conv)

lemma if_SomeE: "(if c then a else b) = Some r \<Longrightarrow> (a = Some r \<Longrightarrow> thesis) \<Longrightarrow> (b = Some r \<Longrightarrow> thesis) \<Longrightarrow> thesis"
  by (simp split: if_splits)

lemma i2c_write_reg_overrun:
  assumes "length msgbuf = 256"
  shows "i2c_write_reg mach msgbuf bus addr w reg buf = None \<longleftrightarrow> 256 < length (i2c_reg_bytes reg) + length buf"
proof -
  have "length (i2c_reg_bytes reg) \<le> 2" by (simp add: i2c_reg_bytes_def)
  then show ?thesis
    using assms by (auto simp: i2c_write_reg_def Let_def memcpy_to_def case_prod_beta)
qed

text \<open>A write to an I2C device fails outside of its buffers exactly when the request is
  well-formed and its data do not fit into the array on the stack.\<close>

lemma i2c_write_overrun:
  assumes "length msgbuf = 256"
  shows "ratp_cmd_i2c_write mach msgbuf w req = None \<longleftrightarrow>
    15 \<le> length req \<and> unat (of_be16 (subbuf 4 2 req)) \<le> length req \<and> of_be16 (subbuf 13 2 req) = 0
    \<and> of_be16 (subbuf 11 2 req) \<noteq> 0
    \<and> of_be16 (subbuf 11 2 req) \<le> of_nat (length req - unat (of_be16 (subbuf 4 2 req)))
    \<and> m_i2c_adapter mach w (req ! 6) \<and> req ! 10 AND I2C_FLAG_MASTER_MODE = 0 \<and> i2c_write_too_long req"
proof (cases "length req < 15 \<or> length req < unat (of_be16 (subbuf 4 2 req))")
  case True
  then show ?thesis by (auto simp: ratp_cmd_i2c_write_def Let_def)
next
  case False
  define off where "off = of_be16 (subbuf 4 2 req)"
  define data_sz where "data_sz = of_be16 (subbuf 11 2 req)"
  define flags where "flags = req ! 10"
  define reg where "reg = of_be16 (subbuf 8 2 req)"
  define buffer_sz where "buffer_sz = (of_nat (length req - unat off) :: u16)"
  have "unat off + unat data_sz \<le> length req" if "\<not> buffer_sz < data_sz"
    using field_in_request [of off req data_sz] that False
    by (simp add: buffer_sz_def off_def word_less_nat_alt not_less)
  then have data: "\<not> buffer_sz < data_sz \<Longrightarrow> memcpy_from req (unat off) (unat data_sz) = Some (subbuf (unat off) (unat data_sz) req)"
    "\<not> buffer_sz < data_sz \<Longrightarrow> length (subbuf (unat off) (unat data_sz) req) = unat data_sz"
    by (simp_all add: memcpy_from_def)
  have fields: "get16 4 req = Some off" "get16 13 req = Some (of_be16 (subbuf 13 2 req))" "get16 11 req = Some data_sz"
    "get8 6 req = Some (req ! 6)" "get8 7 req = Some (req ! 7)" "get16 8 req = Some reg" "get8 10 req = Some flags"
    using False by (simp_all add: off_def data_sz_def reg_def flags_def)
  have short: "\<not> length req < 15" "\<not> length req < unat off" using False by (simp_all add: off_def)
  have eq: "ratp_cmd_i2c_write mach msgbuf w req = None \<longleftrightarrow> of_be16 (subbuf 13 2 req) = 0 \<and> data_sz \<noteq> 0 \<and> \<not> buffer_sz < data_sz
      \<and> m_i2c_adapter mach w (req ! 6) \<and> flags AND I2C_FLAG_MASTER_MODE = 0
      \<and> i2c_write_reg mach msgbuf (req ! 6) (ucast (req ! 7)) w (i2c_register reg flags) (subbuf (unat off) (unat data_sz) req) = None"
    unfolding ratp_cmd_i2c_write_def Let_def fields bind.bind_lunit buffer_sz_def [symmetric] if_not_P [OF short(1)] if_not_P [OF short(2)]
    using data by (auto simp: bind_eq_None_conv case_prod_beta split: if_splits)
  show ?thesis
    using False data(2) unfolding eq off_def [symmetric] data_sz_def [symmetric] buffer_sz_def [symmetric] flags_def [symmetric]
    by (auto simp: i2c_write_reg_overrun [OF assms] i2c_write_too_long_def data_sz_def [symmetric] flags_def [symmetric] reg_def [symmetric] not_less)
qed

lemma i2c_write_answers:
  assumes "length msgbuf = 256" and "\<not> i2c_write_too_long req"
  shows "\<exists>ret n w'. ratp_cmd_i2c_write mach msgbuf w req = Some (Returns 0 (Some (mw_response BB_RATP_TYPE_I2C_WRITE_RETURN ret n)) w')"
proof -
  have "ratp_cmd_i2c_write mach msgbuf w req \<noteq> None" using assms(2) by (simp only: i2c_write_overrun [OF assms(1)] simp_thms not_False_eq_True)
  then obtain r where "ratp_cmd_i2c_write mach msgbuf w req = Some r" by auto
  moreover from this have "\<exists>ret n w'. r = Returns 0 (Some (mw_response BB_RATP_TYPE_I2C_WRITE_RETURN ret n)) w'"
    unfolding ratp_cmd_i2c_write_def Let_def case_prod_beta
    by (elim bind_SomeE if_SomeE) blast+
  ultimately show ?thesis by blast
qed

context command_machine
begin

lemma md_loop_safe:
  assumes "good w" and "m_open mach w0 path mode = Inr (f_cdev f)" and "within_file f"
    and "t + sz \<le> length out"
  shows "\<exists>r out' w'. md_loop f w sz t out = Some (r, out', w') \<and> good w' \<and> length out' = length out"
  using assms
proof (induction sz arbitrary: f w t out rule: less_induct)
  case (less sz)
  obtain r buf f' w' where rd: "fd_read f w (min sz 4096) = (r, buf, f', w')" by (metis prod_cases4)
  from less.prems(3) rd show ?case
  proof (cases rule: read_within_file)
    case 1
    then show ?thesis using rd less.prems(1) by (simp add: md_loop.simps [of f w sz])
  next
    case (2 n)
    note fits = read_fits [OF less.prems(1,2) 2(2)]
    show ?thesis
    proof (cases "r \<le> 0")
      case True
      then show ?thesis using rd fits by (simp add: md_loop.simps [of f w sz])
    next
      case False
      have r: "nat r \<le> sz" "r \<le> int n" using fits 2(1) by linarith+
      have cpy: "memcpy_to out t (take (nat r) buf) = Some (take t out @ take (nat r) buf @ drop (t + nat r) out)"
        using less.prems(4) r fits by (simp add: memcpy_to_def)
      let ?out = "take t out @ take (nat r) buf @ drop (t + nat r) out"
      have len: "length ?out = length out" using less.prems(4) r fits by simp
      show ?thesis
      proof (cases "sz = nat r")
        case True
        then show ?thesis using rd fits False cpy len by (simp add: md_loop.simps [of f w "nat r"])
      next
        case more: False
        have "\<exists>q out' w''. md_loop f' w' (sz - nat r) (t + nat r) ?out = Some (q, out', w'') \<and> good w'' \<and> length out' = length ?out"
          using False more r less.prems fits 2(3,4) len by (intro less.IH) auto
        then show ?thesis using rd False more cpy len r by (auto simp: md_loop.simps [of f w sz])
      qed
    qed
  qed
qed

lemma mem_md_safe:
  assumes "good w" and "start \<le> 65535" and "length output \<le> 65535"
  shows "\<exists>r out w'. do_ratp_mem_md mach w path start (length output) output = Some (r, out, w') \<and> length out = length output"
proof (cases "m_open mach w path O_RDONLY")
  case (Inl err)
  then show ?thesis by (simp add: do_ratp_mem_md_def open_and_lseek_def)
next
  case (Inr cdev)
  let ?f = "devfs_open cdev O_RDONLY"
  have f: "f_cdev ?f = cdev" "within_file ?f" "f_mode ?f = O_RDONLY" by (simp_all add: devfs_open_def within_file_def)
  define r where "r = (if start = 0 then Inr ?f else lseek_set ?f w start)"
  have eq: "open_and_lseek mach w path O_RDONLY start = (r, w)"
    using Inr by (simp add: open_and_lseek_def r_def)
  have "case r of Inl _ \<Rightarrow> True | Inr f \<Rightarrow> f_cdev f = cdev \<and> within_file f"
    using f by (auto simp: r_def lseek_set_def within_file_def Let_def not_less)
  with eq consider err where "open_and_lseek mach w path O_RDONLY start = (Inl err, w)"
    | f where "open_and_lseek mach w path O_RDONLY start = (Inr f, w)" "f_cdev f = cdev" "within_file f"
    by (cases r) auto
  then show ?thesis
  proof cases
    case 1
    then show ?thesis by (simp add: do_ratp_mem_md_def)
  next
    case (2 f)
    show ?thesis
    proof (cases "m_memmap mach (f_cdev f) w")
      case None
      then show ?thesis
        using md_loop_safe [OF assms(1), of w path O_RDONLY f 0 "length output" "output"] 2 Inr
        by (auto simp: do_ratp_mem_md_def)
    next
      case (Some mem)
      then have "131070 \<le> length mem" using memmap_covers [OF assms(1) Inr] 2(2) by simp
      with Some 2 assms(2,3) show ?thesis
        by (simp add: do_ratp_mem_md_def memcpy_from_def memcpy_to_def)
    qed
  qed
qed

lemma cmd_md_safe:
  assumes "good w"
  shows "\<exists>ret rsp w'. ratp_cmd_md mach w req = Some (Returns ret (Some rsp) w') \<and> 14 \<le> length rsp
    \<and> take 2 rsp = be16 BB_RATP_TYPE_MD_RETURN"
proof -
  obtain r where r: "md_request req = Some r" using md_request_total by blast
  have shape: "14 \<le> length (md_response type ret buffer)" "take 2 (md_response type ret buffer) = be16 type" for type ret buffer
    by (simp_all add: md_response_def ratp_bb_def be32_def be16_def)
  show ?thesis
  proof (cases r)
    case (Inl e)
    then show ?thesis using r shape by (simp add: ratp_cmd_md_def)
  next
    case (Inr x)
    obtain addr sz path where x: "x = (addr, sz, path)" by (metis prod_cases3)
    have "addr \<le> 65535" "sz \<le> 65535" using md_request_bounds r Inr x by simp_all
    with mem_md_safe [OF assms, of addr "replicate sz 0" path] Inr x r shape show ?thesis
      by (auto simp: ratp_cmd_md_def)
  qed
qed

lemma commands_answer:
  assumes "good w" and "cmd \<in> set (init_ratp_command_list mach msgbuf)" and "4 \<le> length req"
    and "length msgbuf = 256" and "request_id cmd = BB_RATP_TYPE_I2C_WRITE \<Longrightarrow> \<not> i2c_write_too_long req"
  shows "answers cmd (cmd_fn cmd w req)"
proof -
  have cmd: "cmd \<in> set (barebox_ratp_cmds mach msgbuf)" using assms(2) by (simp add: init_commands_set)
  consider "request_id cmd = BB_RATP_TYPE_MD" | "request_id cmd = BB_RATP_TYPE_I2C_WRITE"
    | "request_id cmd \<noteq> BB_RATP_TYPE_MD" "request_id cmd \<noteq> BB_RATP_TYPE_I2C_WRITE" by blast
  then show ?thesis
  proof cases
    case 1
    then have "cmd = \<lparr>request_id = BB_RATP_TYPE_MD, response_id = BB_RATP_TYPE_MD_RETURN, cmd_fn = ratp_cmd_md mach\<rparr>"
      using cmd by (auto simp: barebox_ratp_cmds_def)
    then show ?thesis using cmd_md_safe [OF assms(1), of req] by (auto simp: answers_def)
  next
    case 2
    then have "cmd = \<lparr>request_id = BB_RATP_TYPE_I2C_WRITE, response_id = BB_RATP_TYPE_I2C_WRITE_RETURN,
        cmd_fn = ratp_cmd_i2c_write mach msgbuf\<rparr>"
      using cmd by (auto simp: barebox_ratp_cmds_def)
    then show ?thesis using i2c_write_answers [OF assms(4,5), of mach w] 2 by (auto simp: answers_def response_shape)
  next
    case 3
    then show ?thesis using plain_commands_answer [OF assms(3) cmd] by simp
  qed
qed

end

text \<open>The machine with a RAM flash as its only device.\<close>

definition mtdram_machine :: "nat \<Rightarrow> bytes machine" where
  "mtdram_machine sz =
     \<lparr>m_open = (\<lambda>w path mode. if path = ''/dev/mtdram0'' then Inr (mtd_cdev (mtdram_probe sz)) else Inl (- ENOENT)),
      m_memmap = (\<lambda>cdev w. None), m_env = (\<lambda>w. root_env), m_set_env = (\<lambda>e w. w),
      m_gpio_get_value = (\<lambda>w gpio. (- ENODEV, w)), m_gpio_set_value = (\<lambda>w gpio v. w),
      m_gpio_direction_output = (\<lambda>w gpio v. (- ENODEV, w)), m_gpio_direction_input = (\<lambda>w gpio. (- ENODEV, w)),
      m_i2c_adapter = (\<lambda>w bus. bus = 0), m_i2c_xfer = (\<lambda>bus w msgs. (int (length msgs), msgs, w)),
      m_time = (\<lambda>w. (0, w)), m_shutdown = (\<lambda>w. w)\<rparr>"

interpretation mtdram_commands: command_machine "mtdram_machine sz" "\<lambda>w. length w = sz" for sz
  by unfold_locales
    (auto simp: mtdram_machine_def cdev_read_def mtd_cdev_def mtd_op_read_def mtd_read_def mtd_read_oob_def
      mtdram_probe_def ram_mtd_def ram_read_def split: if_splits)

section \<open>Properties\<close>



text \<open>C40. 
  An I2C write request leaves the array on the stack exactly when it is well-formed, names an adapter
  that exists, addresses a register and carries more data than the array has room for beside the
  number of the register.
\<close>

theorem i2c_write_overruns_stack:
  assumes "length msgbuf = 256"
  shows "ratp_cmd_i2c_write mach msgbuf w req = None \<longleftrightarrow>
    15 \<le> length req \<and> unat (of_be16 (subbuf 4 2 req)) \<le> length req \<and> of_be16 (subbuf 13 2 req) = 0
    \<and> of_be16 (subbuf 11 2 req) \<noteq> 0
    \<and> of_be16 (subbuf 11 2 req) \<le> of_nat (length req - unat (of_be16 (subbuf 4 2 req)))
    \<and> m_i2c_adapter mach w (req ! 6) \<and> req ! 10 AND I2C_FLAG_MASTER_MODE = 0 \<and> i2c_write_too_long req"
  by (rule i2c_write_overrun [OF assms])

theorem i2c_write_overruns_stack_witness:
  "ratp_cmd_i2c_write (mtdram_machine 4) (replicate 256 0) [1, 2, 3, 4]
     ([0, 17, 0, 0, 0, 15, 0, 0x50, 0, 0, 0, 1, 0, 0, 0] @ replicate 256 0xff) = None"
  by (subst i2c_write_overruns_stack)
    (simp_all add: mtdram_machine_def i2c_write_too_long_def i2c_reg_bytes_def i2c_register_def subbuf_def of_be16_def)

end
