(* ===== verification/Ratp_Bb.thy ===== *)
theory Ratp_Bb
  imports Ratp_Messages Kfifo Ratp_Commands
begin

text \<open>
  Remote control of the boot loader (\<^verbatim>\<open>common/ratp/ratp.c\<close>): the console that the protocol runs
  on, the console that is carried over it with its two byte queues, the dispatch of received messages
  to commands, the work queue of shell commands, the call of the remote file system, and the poller
  that drives all of it.

  The console device, the shell and the machine that the commands act on are a record of operations.
  The global variables of the file are the record \<open>remote\<close>; the structure \<^verbatim>\<open>ratp_ctx\<close> is its
  component \<open>g_ctx\<close>, and \<open>None\<close> there means that it does not exist. The result \<open>None\<close> of a
  function is an access outside a buffer or to a context that was freed, or a wait without end.
\<close>

section \<open>State\<close>

record ratp_ctx =
  c_ratp :: "ratp_internal option"
  c_recv_fifo :: kfifo
  c_transmit_fifo :: kfifo
  c_fs_rx :: "bytes option"
  c_work :: "string list"
  c_old_active :: nat
  c_console_registered :: bool
  c_poller_registered :: bool
  c_wq_registered :: bool

record 'w remote =
  g_ctx :: "ratp_ctx option"
  g_have_synch :: bool
  g_mount_path :: "string option"
  g_dev :: 'w

record 'w board =
  b_machine :: "'w machine"
  b_console_ratp :: bool
  b_allowed :: bool
  b_has_getc_putc :: bool
  b_exists :: "'w \<Rightarrow> bool"
  b_tstc :: "'w \<Rightarrow> bool"
  b_getc :: "'w \<Rightarrow> u8 \<times> 'w"
  b_putc :: "'w \<Rightarrow> u8 \<Rightarrow> 'w"
  b_time :: "'w \<Rightarrow> u64 \<times> 'w"
  b_malloc :: "nat \<Rightarrow> bytes option"
  b_msgbuf :: bytes
  b_console_register :: "'w \<Rightarrow> int \<times> 'w"
  b_console_unregister :: "'w \<Rightarrow> 'w"
  b_get_active :: "'w \<Rightarrow> nat"
  b_set_active :: "'w \<Rightarrow> nat \<Rightarrow> 'w"
  b_countdown_abort :: "'w \<Rightarrow> 'w"
  b_activate_ratp_console :: "'w \<Rightarrow> 'w"
  b_umount :: "'w \<Rightarrow> string \<Rightarrow> int \<times> 'w"
  b_run_command :: "'w remote \<Rightarrow> string \<Rightarrow> int \<times> 'w remote"

section \<open>The line\<close>

text \<open>The state of the line is the flag for the synch byte that the console has consumed already,
  and the device.\<close>

definition console_recv :: "'w board \<Rightarrow> bool \<times> 'w \<Rightarrow> int \<times> u8 \<times> bool \<times> 'w" where
  "console_recv b s =
     (case s of (have_synch, w) \<Rightarrow>
        if \<not> b_exists b w then (- ENODEV, 0, have_synch, w)
        else if have_synch then (0, 0x01, False, w)
        else if \<not> b_tstc b w then (- EAGAIN, 0, have_synch, w)
        else (case b_getc b w of (c, w) \<Rightarrow> (0, c, have_synch, w)))"

definition console_send :: "'w board \<Rightarrow> bool \<times> 'w \<Rightarrow> bytes \<Rightarrow> int \<times> bool \<times> 'w" where
  "console_send b s pkt =
     (case s of (have_synch, w) \<Rightarrow>
        if \<not> b_exists b w then (- ENODEV, have_synch, w)
        else (0, have_synch, fold (\<lambda>c w. b_putc b w c) pkt w))"

definition console_ops :: "'w board \<Rightarrow> (bool \<times> 'w) ratp_ops" where
  "console_ops b =
     \<lparr>op_send = console_send b, op_recv = console_recv b,
      op_time = (\<lambda>(have_synch, w). case b_time b w of (now, w) \<Rightarrow> (now, have_synch, w)),
      op_done = (\<lambda>s ctx st. s)\<rparr>"

section \<open>Output of the console\<close>

text \<open>The message is put together in an array on the stack of which the flags are never set; their
  content is the argument \<open>junk\<close>.\<close>

partial_function (option) ratp_queue_console_tx ::
  "bytes \<Rightarrow> ratp_internal option \<Rightarrow> kfifo \<Rightarrow> (ratp_internal option \<times> kfifo) option" where
  "ratp_queue_console_tx junk r fifo =
     (let now = min 251 (kfifo_len fifo)
      in if now = 0 then Some (r, fifo)
         else do { (data, fifo) \<leftarrow> kfifo_get fifo now;
                   (case ratp_send r (be16 BB_RATP_TYPE_CONSOLEMSG @ junk @ data) of
                      (ret, r) \<Rightarrow> if ret \<noteq> 0 then Some (r, fifo) else ratp_queue_console_tx junk r fifo) })"

declare ratp_queue_console_tx.simps [code]

definition console_tx :: "bytes \<Rightarrow> ratp_ctx \<Rightarrow> ratp_ctx option" where
  "console_tx junk ctx =
     do { (r, fifo) \<leftarrow> ratp_queue_console_tx junk (c_ratp ctx) (c_transmit_fifo ctx);
          Some (ctx\<lparr>c_ratp := r, c_transmit_fifo := fifo\<rparr>) }"

definition ratp_bb_send_command_return :: "bytes \<Rightarrow> ratp_ctx \<Rightarrow> u32 \<Rightarrow> (int \<times> ratp_ctx) option" where
  "ratp_bb_send_command_return junk ctx errno =
     do { ctx \<leftarrow> console_tx junk ctx;
          (case ratp_send (c_ratp ctx) (ratp_bb BB_RATP_TYPE_COMMAND_RETURN @ be32 errno) of
             (ret, r) \<Rightarrow> Some (ret, ctx\<lparr>c_ratp := r\<rparr>)) }"

section \<open>Dispatch\<close>

text \<open>The number of bytes behind the header is negative for a message shorter than the header.\<close>

definition ratp_bb_dispatch :: "'w board \<Rightarrow> ratp_ctx \<Rightarrow> 'w \<Rightarrow> bytes \<Rightarrow> (int \<times> (ratp_ctx \<times> 'w) option) option" where
  "ratp_bb_dispatch b ctx w buf =
     (let dlen = int (length buf) - 4
      in do { type \<leftarrow> get16 0 buf;
              (case find_ratp_request (init_ratp_command_list (b_machine b) (b_msgbuf b)) type of
                 Some cmd \<Rightarrow>
                   do { r \<leftarrow> cmd_fn cmd w buf;
                        (case r of
                           Restarts w \<Rightarrow> Some (0, None)
                         | Returns ret None w \<Rightarrow> Some (ret, Some (ctx, w))
                         | Returns ret (Some rsp) w \<Rightarrow>
                             (case ratp_send (c_ratp ctx) rsp of (ret, r) \<Rightarrow> Some (ret, Some (ctx\<lparr>c_ratp := r\<rparr>, w)))) }
               | None \<Rightarrow>
                   if type = BB_RATP_TYPE_COMMAND then
                     (if \<not> b_console_ratp b then Some (0, Some (ctx, w))
                      else do { command \<leftarrow> xstrndup (drop 4 buf) (unat (of_int dlen :: u32));
                                Some (0, Some (ctx\<lparr>c_work := c_work ctx @ [command]\<rparr>, w)) })
                   else if type = BB_RATP_TYPE_CONSOLEMSG then
                     (if \<not> b_console_ratp b then Some (0, Some (ctx, w))
                      else (let fifo = c_recv_fifo ctx;
                                n = min (of_int dlen) (k_size fifo - k_in fifo + k_out fifo)
                            in do { data \<leftarrow> memcpy_from buf 4 (unat n);
                                    (_, fifo) \<leftarrow> kfifo_put fifo data;
                                    Some (0, Some (ctx\<lparr>c_recv_fifo := fifo\<rparr>, w)) }))
                   else if type = BB_RATP_TYPE_FS_RETURN then
                     (if dlen < 0 then None
                      else do { data \<leftarrow> memcpy_from buf 4 (nat dlen);
                                Some (0, Some (ctx\<lparr>c_fs_rx := Some data\<rparr>, w)) })
                   else Some (0, Some (ctx, w))) })"

section \<open>The console carried over the protocol\<close>

definition ratp_console_getc :: "ratp_ctx \<Rightarrow> (int \<times> ratp_ctx) option" where
  "ratp_console_getc ctx =
     (if kfifo_len (c_recv_fifo ctx) = 0 then Some (- 1, ctx)
      else do { (_, c, fifo) \<leftarrow> kfifo_getc (c_recv_fifo ctx);
                c \<leftarrow> c;
                Some (uint c, ctx\<lparr>c_recv_fifo := fifo\<rparr>) })"

definition ratp_console_tstc :: "ratp_ctx \<Rightarrow> bool" where
  "ratp_console_tstc ctx = (kfifo_len (c_recv_fifo ctx) \<noteq> 0)"

definition ratp_console_puts :: "ratp_ctx \<Rightarrow> bytes \<Rightarrow> (int \<times> ratp_ctx) option" where
  "ratp_console_puts ctx s =
     (if ratp_busy (c_ratp ctx) then Some (int (length s), ctx)
      else do { (_, fifo) \<leftarrow> kfifo_put (c_transmit_fifo ctx) s;
                Some (int (length s), ctx\<lparr>c_transmit_fifo := fifo\<rparr>) })"

definition ratp_console_putc :: "ratp_ctx \<Rightarrow> u8 \<Rightarrow> ratp_ctx option" where
  "ratp_console_putc ctx c =
     (if ratp_busy (c_ratp ctx) then Some ctx
      else do { fifo \<leftarrow> kfifo_putc (c_transmit_fifo ctx) c;
                Some (ctx\<lparr>c_transmit_fifo := fifo\<rparr>) })"

text \<open>A shell command from the work queue; the context may be gone when it ends.\<close>

definition ratp_command_run :: "'w board \<Rightarrow> bytes \<Rightarrow> 'w remote \<Rightarrow> string \<Rightarrow> 'w remote option" where
  "ratp_command_run b junk g command =
     (case b_run_command b g command of (ret, g) \<Rightarrow>
        do { ctx \<leftarrow> g_ctx g;
             (_, ctx) \<leftarrow> ratp_bb_send_command_return junk ctx (of_int ret);
             Some (g\<lparr>g_ctx := Some ctx\<rparr>) })"

section \<open>Set-up, polling and removal\<close>

definition barebox_ratp_fs_mount :: "'w remote \<Rightarrow> string option \<Rightarrow> int \<times> 'w remote" where
  "barebox_ratp_fs_mount g path =
     (if path \<noteq> None \<and> g_mount_path g \<noteq> None then (- EBUSY, g) else (0, g\<lparr>g_mount_path := path\<rparr>))"

definition ratp_unregister :: "'w board \<Rightarrow> 'w remote \<Rightarrow> ratp_ctx \<Rightarrow> 'w remote option" where
  "ratp_unregister b g ctx =
     (let w = (if c_console_registered ctx then b_console_unregister b (g_dev g) else g_dev g)
      in do { (_, have_synch, w) \<leftarrow> ratp_close (console_ops b) (c_ratp ctx, g_have_synch g, w);
              let g = g\<lparr>g_ctx := None, g_have_synch := have_synch, g_dev := b_set_active b w (c_old_active ctx)\<rparr>;
              Some (case g_mount_path g of
                      None \<Rightarrow> g
                    | Some path \<Rightarrow>
                        (case b_umount b (g_dev g) path of (ret, w) \<Rightarrow>
                           g\<lparr>g_dev := w, g_mount_path := (if ret = 0 then None else Some path)\<rparr>)) })"

text \<open>The poller, up to its poll of the line and as a whole. A dispatched reset ends the run; its
  result is the state before.\<close>

definition ratp_poller_poll :: "'w board \<Rightarrow> bytes \<Rightarrow> 'w remote \<Rightarrow> (int \<times> ratp_ctx \<times> 'w remote) option" where
  "ratp_poller_poll b junk g =
     do { ctx \<leftarrow> g_ctx g;
          ctx \<leftarrow> (if b_console_ratp b then console_tx junk ctx else Some ctx);
          (ret, r, have_synch, w) \<leftarrow> ratp_poll (console_ops b) (c_ratp ctx, g_have_synch g, g_dev g);
          let ctx = ctx\<lparr>c_ratp := r\<rparr>;
          Some (ret, ctx, g\<lparr>g_ctx := Some ctx, g_have_synch := have_synch, g_dev := w\<rparr>) }"

definition ratp_poller :: "'w board \<Rightarrow> bytes \<Rightarrow> 'w remote \<Rightarrow> 'w remote option" where
  "ratp_poller b junk g =
     do { (ret, ctx, g) \<leftarrow> ratp_poller_poll b junk g;
          if ret = - EINTR \<or> ratp_closed (c_ratp ctx) then ratp_unregister b g ctx
          else do { (ret, buf, r) \<leftarrow> ratp_recv (c_ratp ctx);
                    let ctx = ctx\<lparr>c_ratp := r\<rparr>;
                    if ret < 0 then Some (g\<lparr>g_ctx := Some ctx\<rparr>)
                    else do { (_, next) \<leftarrow> ratp_bb_dispatch b ctx (g_dev g) buf;
                              Some (case next of
                                      None \<Rightarrow> g\<lparr>g_ctx := Some ctx\<rparr>
                                    | Some (ctx, w) \<Rightarrow> g\<lparr>g_ctx := Some ctx, g_dev := w\<rparr>) } } }"

text \<open>The loop of \<^verbatim>\<open>barebox_ratp_fs_call\<close>. Looking at the clock runs the poller if it is
  registered, which may free the context that the loop goes on to use.\<close>

partial_function (option) ratp_fs_wait :: "'w board \<Rightarrow> bytes \<Rightarrow> 'w remote \<Rightarrow> u64 \<Rightarrow> (int \<times> bytes \<times> 'w remote) option" where
  "ratp_fs_wait b junk g start =
     do { ctx \<leftarrow> g_ctx g;
          (case c_fs_rx ctx of
             Some rx \<Rightarrow> Some (0, rx, g)
           | None \<Rightarrow>
               if ratp_closed (c_ratp ctx) then Some (- EIO, [], g)
               else (case b_time b (g_dev g) of (now, w) \<Rightarrow>
                       do { g \<leftarrow> (if c_poller_registered ctx then ratp_poller b junk (g\<lparr>g_dev := w\<rparr>)
                                 else Some (g\<lparr>g_dev := w\<rparr>));
                            if sint (start + 10000000000 - now) < 0 then Some (- ETIMEDOUT, [], g)
                            else ratp_fs_wait b junk g start })) }"

declare ratp_fs_wait.simps [code]

definition barebox_ratp_fs_call :: "'w board \<Rightarrow> bytes \<Rightarrow> 'w remote \<Rightarrow> bytes \<Rightarrow> (int \<times> bytes \<times> 'w remote) option" where
  "barebox_ratp_fs_call b junk g tx =
     (case g_ctx g of
        None \<Rightarrow> Some (- EINVAL, [], g)
      | Some ctx \<Rightarrow>
          (case ratp_send (c_ratp ctx) (ratp_bb BB_RATP_TYPE_FS @ tx) of (ret, r) \<Rightarrow>
             (case b_time b (g_dev g) of (start, w) \<Rightarrow>
                ratp_fs_wait b junk (g\<lparr>g_ctx := Some (ctx\<lparr>c_ratp := r, c_fs_rx := None\<rparr>), g_dev := w\<rparr>) start)))"

definition poller_register :: "ratp_ctx \<Rightarrow> int \<times> ratp_ctx" where
  "poller_register ctx =
     (if c_poller_registered ctx then (- EBUSY, ctx) else (0, ctx\<lparr>c_poller_registered := True\<rparr>))"

text \<open>The handler that is registered last, for changes of the security configuration, is
  \<^verbatim>\<open>barebox_ratp_sconfig_update\<close> below. When the console cannot be registered, the function returns and leaves the context that it has
  stored in the global variable.\<close>

definition barebox_ratp :: "'w board \<Rightarrow> bytes \<Rightarrow> bytes \<Rightarrow> 'w remote \<Rightarrow> (int \<times> 'w remote) option" where
  "barebox_ratp b rbuf sbuf g =
     (if \<not> b_allowed b then Some (- EPERM, g)
      else if \<not> b_has_getc_putc b then Some (- EINVAL, g)
      else if g_ctx g \<noteq> None then Some (- EBUSY, g)
      else (case (kfifo_alloc (b_malloc b) True 512, kfifo_alloc (b_malloc b) True 0x20000) of
              (Kfifo_new recv_fifo, Kfifo_new transmit_fifo) \<Rightarrow>
                (let ctx = \<lparr>c_ratp = None, c_recv_fifo = recv_fifo, c_transmit_fifo = transmit_fifo, c_fs_rx = None,
                            c_work = [], c_old_active = 0, c_console_registered = False, c_poller_registered = False,
                            c_wq_registered = False\<rparr>
                 in case b_console_register b (g_dev g) of (ret, w) \<Rightarrow>
                      if ret \<noteq> 0 then Some (ret, g\<lparr>g_ctx := Some ctx, g_dev := w\<rparr>)
                      else (let ctx = ctx\<lparr>c_console_registered := True, c_old_active := b_get_active b w\<rparr>;
                                w = b_set_active b w 0
                            in do { (ret, r, have_synch, w) \<leftarrow> ratp_establish (console_ops b) (True, w) rbuf sbuf False 1000;
                                    let ctx = ctx\<lparr>c_ratp := r\<rparr>;
                                    let g = g\<lparr>g_ctx := Some ctx, g_have_synch := have_synch, g_dev := w\<rparr>;
                                    if ret < 0 then do { g \<leftarrow> ratp_unregister b g ctx; Some (ret, g) }
                                    else (case poller_register (ctx\<lparr>c_wq_registered := True\<rparr>) of (ret, ctx) \<Rightarrow>
                                            if ret \<noteq> 0 then do { g \<leftarrow> ratp_unregister b g ctx; Some (ret, g) }
                                            else Some (0, g\<lparr>g_ctx := Some ctx,
                                                   g_dev := b_activate_ratp_console b (b_countdown_abort b w)\<rparr>)) }))
            | _ \<Rightarrow> None))"

definition barebox_ratp_close :: "'w board \<Rightarrow> 'w remote \<Rightarrow> 'w remote option" where
  "barebox_ratp_close b g = (case g_ctx g of None \<Rightarrow> Some g | Some ctx \<Rightarrow> ratp_unregister b g ctx)"

definition barebox_ratp_sconfig_update :: "'w board \<Rightarrow> 'w remote \<Rightarrow> bool \<Rightarrow> 'w remote option" where
  "barebox_ratp_sconfig_update b g allowed = (if \<not> allowed then barebox_ratp_close b g else Some g)"

section \<open>Console output\<close>

definition console_msg :: "bytes \<Rightarrow> bytes \<Rightarrow> ratp_message" where
  "console_msg junk chunk =
     \<lparr>m_data = be16 BB_RATP_TYPE_CONSOLEMSG @ junk @ chunk, m_eor = True, m_complete = None\<rparr>"

lemma send_console_msg:
  assumes "r_state ri = RATP_STATE_ESTABLISHED" and "length junk = 2" and "length chunk \<le> 251"
  shows "ratp_send (Some ri) (be16 BB_RATP_TYPE_CONSOLEMSG @ junk @ chunk)
    = (0, Some (ri\<lparr>sendmsg := sendmsg ri @ [console_msg junk chunk]\<rparr>))"
  using assms by (simp add: ratp_send_def ratp_send_complete_def ratp_split.simps console_msg_def be16_def)

lemma queue_console_tx_ok:
  assumes "fifo_ok fifo" and "r_state ri = RATP_STATE_ESTABLISHED" and "length junk = 2"
  shows "\<exists>chunks fifo'. ratp_queue_console_tx junk (Some ri) fifo
      = Some (Some (ri\<lparr>sendmsg := sendmsg ri @ map (console_msg junk) chunks\<rparr>), fifo')
    \<and> fifo_ok fifo' \<and> k_size fifo' = k_size fifo \<and> contents fifo' = [] \<and> concat chunks = contents fifo
    \<and> list_all (\<lambda>c. c \<noteq> [] \<and> length c \<le> 251) chunks"
  using assms(1,2)
proof (induction "length (contents fifo)" arbitrary: ri fifo rule: less_induct)
  case less
  define now where "now = min 251 (kfifo_len fifo)"
  have now: "unat now = min 251 (length (contents fifo))"
    by (simp add: now_def min_def word_le_nat_alt)
  show ?case
  proof (cases "now = 0")
    case True
    then have "length (contents fifo) = 0" using now by (simp add: min_def split: if_splits)
    then have "contents fifo = []" by (simp only: length_0_conv)
    moreover have "ratp_queue_console_tx junk (Some ri) fifo = Some (Some ri, fifo)"
      using True by (subst ratp_queue_console_tx.simps) (simp add: now_def)
    ultimately show ?thesis using less.prems by (intro exI [of _ "[]"] exI [of _ fifo]) simp
  next
    case False
    obtain fifo1 where get: "kfifo_get fifo now = Some (take (unat now) (contents fifo), fifo1)" "fifo_ok fifo1"
      "unat (k_size fifo1) = unat (k_size fifo)" "contents fifo1 = drop (unat now) (contents fifo)"
      using get_spec [OF less.prems(1)] by blast
    let ?c = "take (unat now) (contents fifo)"
    let ?ri = "ri\<lparr>sendmsg := sendmsg ri @ [console_msg junk ?c]\<rparr>"
    have "0 < unat now" using False by (simp add: unsigned_eq_0_iff zero_less_iff_neq_zero)
    then have c: "?c \<noteq> []" "length ?c \<le> 251" and shorter: "length (contents fifo1) < length (contents fifo)"
      using now get(4) by (auto simp: min_def simp del: length_contents split: if_splits)
    have "ratp_queue_console_tx junk (Some ri) fifo = ratp_queue_console_tx junk (Some ?ri) fifo1"
      using False get(1) send_console_msg [OF less.prems(2) assms(3) c(2)]
      by (subst ratp_queue_console_tx.simps) (simp add: now_def)
    moreover obtain chunks fifo' where "ratp_queue_console_tx junk (Some ?ri) fifo1
        = Some (Some (?ri\<lparr>sendmsg := sendmsg ?ri @ map (console_msg junk) chunks\<rparr>), fifo')"
      "fifo_ok fifo'" "k_size fifo' = k_size fifo1" "contents fifo' = []" "concat chunks = contents fifo1"
      "list_all (\<lambda>c. c \<noteq> [] \<and> length c \<le> 251) chunks"
      using less.hyps [OF shorter get(2), of ?ri] less.prems(2) by auto
    moreover have "k_size fifo1 = k_size fifo" using get(3) by (simp add: word_unat_eq_iff)
    ultimately show ?thesis
      using c get(4) by (intro exI [of _ "?c # chunks"] exI [of _ fifo']) simp
  qed
qed

section \<open>Dispatch of console messages\<close>

lemma unat_min: "unat (min x y :: u32) = min (unat x) (unat y)"
  by (simp add: min_def word_le_nat_alt)

lemma find_none: "\<forall>c \<in> set cmds. request_id c \<noteq> rid \<Longrightarrow> find_ratp_request cmds rid = None"
  by (induction cmds) auto

lemma no_command:
  "rid \<in> {BB_RATP_TYPE_COMMAND, BB_RATP_TYPE_COMMAND_RETURN, BB_RATP_TYPE_CONSOLEMSG, BB_RATP_TYPE_FS_RETURN} \<Longrightarrow>
     find_ratp_request (init_ratp_command_list mach msgbuf) rid = None"
  by (rule find_none) (auto simp: init_commands_set barebox_ratp_cmds_def)

lemma unat_dlen:
  assumes "4 \<le> length buf" and "length buf < 2 ^ 31"
  shows "unat (of_int (int (length buf) - 4) :: u32) = length buf - 4"
proof -
  have "(of_int (int (length buf) - 4) :: u32) = of_nat (length buf - 4)" using assms(1) by (simp add: of_nat_diff)
  then show ?thesis using assms(2) by (simp add: unat_of_nat take_bit_nat_eq_self)
qed

lemma dispatch_console:
  assumes "b_console_ratp b" and ok: "fifo_ok (c_recv_fifo ctx)" and len: "4 \<le> length buf" "length buf < 2 ^ 31"
    and type: "get16 0 buf = Some BB_RATP_TYPE_CONSOLEMSG"
  shows "\<exists>fifo. ratp_bb_dispatch b ctx w buf = Some (0, Some (ctx\<lparr>c_recv_fifo := fifo\<rparr>, w)) \<and> fifo_ok fifo
    \<and> k_size fifo = k_size (c_recv_fifo ctx)
    \<and> contents fifo = contents (c_recv_fifo ctx)
        @ take (unat (k_size (c_recv_fifo ctx)) - length (contents (c_recv_fifo ctx))) (drop 4 buf)"
proof -
  let ?f = "c_recv_fifo ctx"
  let ?free = "k_size ?f - k_in ?f + k_out ?f" and ?d = "of_int (int (length buf) - 4) :: u32"
  have free: "unat ?free = unat (k_size ?f) - length (contents ?f)" using free_room [OF ok] by simp
  note d = unat_dlen [OF len]
  define n where "n = min (length buf - 4) (unat ?free)"
  have n: "unat (min ?d ?free) = n" by (simp only: n_def unat_min d)
  define data where "data = subbuf 4 n buf"
  have ldata: "length data = n" "n \<le> unat ?free" "length data < 2 ^ 32"
    using len by (auto simp: data_def n_def)
  obtain fifo where put: "kfifo_put ?f data = Some (of_nat n, fifo)" "fifo_ok fifo" "unat (k_size fifo) = unat (k_size ?f)"
    "contents fifo = contents ?f @ data"
    using put_spec [OF ok ldata(3)] ldata(1,2) free by (auto simp: min_def)
  have "memcpy_from buf 4 n = Some data" using len(1) by (simp add: memcpy_from_def data_def n_def)
  then have "ratp_bb_dispatch b ctx w buf = Some (0, Some (ctx\<lparr>c_recv_fifo := fifo\<rparr>, w))"
    using assms(1) put(1) unfolding ratp_bb_dispatch_def Let_def type bind.bind_lunit n
    by (simp add: no_command)
  moreover have "data = take (unat ?free) (drop 4 buf)" by (auto simp: data_def subbuf_def n_def min_def)
  ultimately show ?thesis using put(2-4) free by (auto simp: word_unat_eq_iff)
qed

text \<open>The messages of a queue, dispatched in their order.\<close>

fun dispatch_all :: "'w board \<Rightarrow> ratp_ctx \<Rightarrow> 'w \<Rightarrow> bytes list \<Rightarrow> (ratp_ctx \<times> 'w) option" where
  "dispatch_all b ctx w [] = Some (ctx, w)"
| "dispatch_all b ctx w (buf # bufs) =
     do { (_, cw) \<leftarrow> ratp_bb_dispatch b ctx w buf; (ctx, w) \<leftarrow> cw; dispatch_all b ctx w bufs }"

lemma dispatch_console_msgs:
  assumes "b_console_ratp b" and "fifo_ok (c_recv_fifo ctx)" and "length junk = 2"
    and "list_all (\<lambda>c. length c \<le> 251) chunks"
    and "length (contents (c_recv_fifo ctx)) + length (concat chunks) \<le> unat (k_size (c_recv_fifo ctx))"
  shows "\<exists>fifo. dispatch_all b ctx w (map (\<lambda>c. m_data (console_msg junk c)) chunks) = Some (ctx\<lparr>c_recv_fifo := fifo\<rparr>, w)
    \<and> fifo_ok fifo \<and> contents fifo = contents (c_recv_fifo ctx) @ concat chunks"
  using assms
proof (induction chunks arbitrary: ctx)
  case Nil
  then show ?case by (intro exI [of _ "c_recv_fifo ctx"]) simp
next
  case (Cons c chunks)
  let ?buf = "m_data (console_msg junk c)"
  have "get16 0 ?buf = Some BB_RATP_TYPE_CONSOLEMSG" "4 \<le> length ?buf" "length ?buf < 2 ^ 31" "drop 4 ?buf = c"
    using Cons.prems(3,4) by (simp_all add: console_msg_def subbuf_def be16_def of_be16_def)
  from dispatch_console [OF Cons.prems(1,2) this(2,3,1), of w] this(4) Cons.prems(5)
  obtain fifo where step: "ratp_bb_dispatch b ctx w ?buf = Some (0, Some (ctx\<lparr>c_recv_fifo := fifo\<rparr>, w))"
    and fifo: "fifo_ok fifo" "k_size fifo = k_size (c_recv_fifo ctx)" "contents fifo = contents (c_recv_fifo ctx) @ c"
    by auto
  have "length (contents fifo) = length (contents (c_recv_fifo ctx)) + length c" using fifo(3) by (simp del: length_contents)
  then have "\<exists>fifo'. dispatch_all b (ctx\<lparr>c_recv_fifo := fifo\<rparr>) w (map (\<lambda>c. m_data (console_msg junk c)) chunks)
      = Some (ctx\<lparr>c_recv_fifo := fifo\<rparr>\<lparr>c_recv_fifo := fifo'\<rparr>, w)
    \<and> fifo_ok fifo' \<and> contents fifo' = contents fifo @ concat chunks"
    using Cons.prems fifo Cons.IH [of "ctx\<lparr>c_recv_fifo := fifo\<rparr>"] by simp
  then show ?case using step fifo(3) by auto
qed

section \<open>One record at a time\<close>

text \<open>
  The poller takes at most one packet from the line before it asks for a record. So the queue never
  holds a packet behind the end of a record while the connection is open, and the record fits into
  the buffer that \<^verbatim>\<open>ratp_recv\<close> allocates for it.
\<close>

abbreviation (input) half_open :: "ratp_state set" where
  "half_open \<equiv> {RATP_STATE_LISTEN, RATP_STATE_SYN_SENT, RATP_STATE_SYN_RECEIVED}"

definition one_record :: "ratp_internal \<Rightarrow> bool" where
  "one_record ri \<longleftrightarrow> list_all (\<lambda>m. \<not> m_eor m) (recvmsg ri) \<or> r_state ri \<notin> insert RATP_STATE_ESTABLISHED half_open"

lemma i1_state: "r_state (fst (snd (ratp_behaviour_i1 ops rs))) = r_state (fst rs)"
  by (simp add: ratp_behaviour_i1_def msg_recv_def case_prod_beta Let_def)

lemma h1_state: "r_state (fst (snd (ratp_behaviour_h1 ops rs))) = RATP_STATE_ESTABLISHED"
  by (simp add: ratp_behaviour_h1_def i1_state ratp_state_change_def case_prod_beta)

lemma machine_grows_open:
  "recvmsg (fst (snd (ratp_state_machine ops rs))) = recvmsg (fst rs)
   \<or> r_state (fst (snd (ratp_state_machine ops rs))) \<notin> half_open"
proof (cases "r_state (fst rs) \<in> half_open")
  case True
  then show ?thesis
    by (elim insertE emptyE) (simp_all add: ratp_state_machine_def case_prod_beta h1_state)
next
  case False
  then show ?thesis using state_machine_successors [of ops rs] by (cases "r_state (fst rs)") auto
qed

lemma poll_rest_recvmsg:
  assumes "ratp_poll_rest ops ret1 rs = (ret, ri2, s')"
  shows "recvmsg ri2 = recvmsg (after_packet ops ret1 rs)"
proof -
  have "recvmsg (fst (snd (ratp_retransmit ops rs))) = recvmsg (fst rs)"
    "recvmsg (fst (ratp_poll_next ops rs)) = recvmsg (fst rs)" for rs :: "ratp_internal \<times> 'a"
    by (simp_all add: ratp_retransmit_def ratp_poll_next_def case_prod_beta Let_def)
  moreover have "ri2 = fst (snd (ratp_poll_rest ops ret1 rs))" using assms by simp
  ultimately show ?thesis by (simp add: ratp_poll_rest_def after_packet_def case_prod_beta)
qed

lemma poll_grows_open:
  assumes "ratp_poll ops (Some ri, s) = Some (ret, Some ri', s')"
  shows "recvmsg ri' = recvmsg ri \<or> r_state ri' \<notin> half_open"
  using assms
proof (rule poll_cases)
  fix ret1 ri1 s1 ri2
  assume link: "Some ri' = Some (ri2\<lparr>in_ratp := in_ratp ri2 - 1\<rparr>)"
    and only: "only_recvbuf (ri\<lparr>in_ratp := in_ratp ri + 1\<rparr>) ri1"
    and rest: "ratp_poll_rest ops ret1 (ri1, s1) = (ret, ri2, s')"
  from only obtain buf where ri1: "ri1 = ri\<lparr>in_ratp := in_ratp ri + 1, recvbuf := buf\<rparr>"
    unfolding only_recvbuf_def by fastforce
  have "recvmsg (after_packet ops ret1 (ri1, s1)) = recvmsg ri1 \<or> r_state (after_packet ops ret1 (ri1, s1)) \<notin> half_open"
    using machine_grows_open [where ops = ops and rs = "(ri1, x)" for x]
    by (cases rule: after_packet_machine [of ops ret1 ri1 s1]) auto
  with poll_rest_state(1) [OF rest] poll_rest_recvmsg [OF rest] link ri1 show ?thesis by auto
qed

lemma record_len_none: "list_all (\<lambda>m. \<not> m_eor m) msgs \<Longrightarrow> ratp_record_len msgs = None"
  by (induction msgs) auto

lemma poll_recv_fits:
  assumes wf: "ratp_wf ri" and one: "one_record ri" and poll: "ratp_poll ops (Some ri, s) = Some (ret, link, s')"
  shows "\<exists>ri'. link = Some ri' \<and> ratp_wf ri' \<and> (\<exists>ret buf ri''. ratp_recv (Some ri') = Some (ret, buf, Some ri'')
    \<and> (0 \<le> ret \<longrightarrow> buf \<noteq> []) \<and> ratp_wf ri'' \<and> one_record ri'' \<and> r_state ri'' = r_state ri')"
proof -
  from poll_keeps [OF wf poll] obtain ri' where link: "link = Some ri'" and wf': "ratp_wf ri'"
    and grows: "recvmsg ri' = recvmsg ri \<or> (\<exists>msg. recvmsg ri' = recvmsg ri @ [msg])" by blast
  note poll' = poll [unfolded link]
  have "r_state ri \<in> insert RATP_STATE_ESTABLISHED half_open" if "r_state ri' \<in> insert RATP_STATE_ESTABLISHED half_open"
    using ratp_poll_transitions [OF poll'] that by (cases "r_state ri") auto
  then have none: "list_all (\<lambda>m. \<not> m_eor m) (recvmsg ri)" if "r_state ri' \<in> insert RATP_STATE_ESTABLISHED half_open"
    using one that by (auto simp: one_record_def)
  have "\<exists>ret buf ri''. ratp_recv (Some ri') = Some (ret, buf, Some ri'')
    \<and> (0 \<le> ret \<longrightarrow> buf \<noteq> []) \<and> ratp_wf ri'' \<and> one_record ri'' \<and> r_state ri'' = r_state ri'"
  proof (cases "r_state ri' = RATP_STATE_ESTABLISHED")
    case False
    then have "one_record ri'" using none poll_grows_open [OF poll'] by (auto simp: one_record_def)
    with False wf' show ?thesis by (simp add: ratp_recv_def)
  next
    case est: True
    show ?thesis
    proof (cases "list_all (\<lambda>m. \<not> m_eor m) (recvmsg ri')")
      case True
      with est wf' show ?thesis by (simp add: ratp_recv_def record_len_none one_record_def)
    next
      case False
      with none est grows obtain msg where msg: "recvmsg ri' = recvmsg ri @ [msg]" "m_eor msg" by auto
      have "m_data msg \<noteq> []" using wf' msg(1) by (simp add: ratp_wf_def ratp_msg_ok_def)
      moreover from recv_record_queue [OF est msg(1)] none est msg(2)
      have "ratp_recv (Some ri') = Some (0, concat (map m_data (recvmsg ri')), Some (ri'\<lparr>recvmsg := []\<rparr>))" by simp
      moreover have "ratp_wf (ri'\<lparr>recvmsg := []\<rparr>)" using wf' by (simp add: ratp_wf_def)
      ultimately show ?thesis using msg(1) by (simp add: one_record_def)
    qed
  qed
  with link wf' show ?thesis by blast
qed

section \<open>The context\<close>

definition ctx_ok :: "ratp_ctx \<Rightarrow> bool" where
  "ctx_ok ctx \<longleftrightarrow> (case c_ratp ctx of None \<Rightarrow> False | Some ri \<Rightarrow> ratp_wf ri \<and> one_record ri)
     \<and> fifo_ok (c_recv_fifo ctx) \<and> fifo_ok (c_transmit_fifo ctx)"

text \<open>A record that the dispatch can handle within its bounds.\<close>

definition record_ok :: "bytes \<Rightarrow> bool" where
  "record_ok buf \<longleftrightarrow> 4 \<le> length buf \<and> length buf < 2 ^ 31
     \<and> (of_be16 (take 2 buf) = BB_RATP_TYPE_I2C_WRITE \<longrightarrow> \<not> i2c_write_too_long buf)"

lemma send_keeps:
  assumes "ratp_wf ri" and "data \<noteq> []"
  shows "\<exists>ret ri'. ratp_send (Some ri) data = (ret, Some ri') \<and> ratp_wf ri' \<and> one_record ri' = one_record ri"
  using assms split_shape [OF assms(2), of None]
  by (auto simp: ratp_send_def ratp_send_complete_def ratp_wf_def one_record_def)

lemma ctx_ok_send:
  assumes "ctx_ok ctx" and "data \<noteq> []" and "ratp_send (c_ratp ctx) data = (ret, r)"
  shows "ctx_ok (ctx\<lparr>c_ratp := r\<rparr>)"
  using assms send_keeps [OF _ assms(2)] by (fastforce simp: ctx_ok_def split: option.splits)

lemma queue_console_tx_down:
  assumes "fifo_ok fifo" and "r_state ri \<noteq> RATP_STATE_ESTABLISHED"
  shows "\<exists>fifo'. ratp_queue_console_tx junk (Some ri) fifo = Some (Some ri, fifo') \<and> fifo_ok fifo'"
  using get_spec [OF assms(1), of "min 251 (kfifo_len fifo)"] assms
  by (subst ratp_queue_console_tx.simps) (auto simp: Let_def ratp_send_def ratp_send_complete_def)

lemma console_tx_keeps:
  assumes "ctx_ok ctx" and "length junk = 2"
  shows "\<exists>ctx'. console_tx junk ctx = Some ctx' \<and> ctx_ok ctx'"
proof -
  obtain ri where ri: "c_ratp ctx = Some ri" "ratp_wf ri" "one_record ri" and fifos: "fifo_ok (c_recv_fifo ctx)" "fifo_ok (c_transmit_fifo ctx)"
    using assms(1) by (auto simp: ctx_ok_def split: option.splits)
  show ?thesis
  proof (cases "r_state ri = RATP_STATE_ESTABLISHED")
    case True
    from queue_console_tx_ok [OF fifos(2) True assms(2)] obtain chunks fifo where
      tx: "ratp_queue_console_tx junk (Some ri) (c_transmit_fifo ctx)
        = Some (Some (ri\<lparr>sendmsg := sendmsg ri @ map (console_msg junk) chunks\<rparr>), fifo)" "fifo_ok fifo"
      and "list_all (\<lambda>c. c \<noteq> [] \<and> length c \<le> 251) chunks" by blast
    then have "list_all ratp_msg_ok (map (console_msg junk) chunks)"
      using assms(2) by (auto simp: list_all_iff ratp_msg_ok_def console_msg_def)
    then have "ratp_wf (ri\<lparr>sendmsg := sendmsg ri @ map (console_msg junk) chunks\<rparr>)" using ri(2) by (simp add: ratp_wf_def)
    with tx ri fifos(1) show ?thesis by (simp add: console_tx_def ctx_ok_def one_record_def)
  next
    case False
    from queue_console_tx_down [OF fifos(2) False, of junk] ri fifos(1) show ?thesis by (auto simp: console_tx_def ctx_ok_def)
  qed
qed

lemma find_some: "find_ratp_request cmds rid = Some c \<Longrightarrow> c \<in> set cmds \<and> request_id c = rid"
  by (induction cmds) (auto split: if_splits)

lemma dispatch_ok:
  assumes mach: "command_machine (b_machine b) good" "good w" "length (b_msgbuf b) = 256"
    and "ctx_ok ctx" and "record_ok buf"
  shows "\<exists>ret next. ratp_bb_dispatch b ctx w buf = Some (ret, next) \<and> (\<forall>ctx' w'. next = Some (ctx', w') \<longrightarrow> ctx_ok ctx')"
proof -
  define type where "type = of_be16 (take 2 buf)"
  have len: "4 \<le> length buf" "length buf < 2 ^ 31" using assms(5) by (simp_all add: record_ok_def)
  have type: "get16 0 buf = Some type" using len(1) by (simp add: type_def subbuf_def)
  show ?thesis
  proof (cases "find_ratp_request (init_ratp_command_list (b_machine b) (b_msgbuf b)) type")
    case (Some cmd)
    note cmd = find_some [OF Some]
    have "answers cmd (cmd_fn cmd w buf)"
      using command_machine.commands_answer [OF mach(1,2) _ len(1) mach(3)] cmd assms(5) by (auto simp: record_ok_def type_def)
    then show ?thesis
      using Some type assms(4) ctx_ok_send [OF assms(4)]
      by (auto simp: ratp_bb_dispatch_def answers_def case_prod_beta split: option.splits cmd_result.splits)
        (metis list.size(3) not_numeral_le_zero prod.collapse)
  next
    case None
    have str: "\<exists>c. xstrndup (drop 4 buf) (unat (of_int (int (length buf) - 4) :: u32)) = Some c"
      unfolding unat_dlen [OF len] by (simp add: xstrndup_in)
    show ?thesis
    proof (cases "type = BB_RATP_TYPE_CONSOLEMSG \<and> b_console_ratp b")
      case True
      then obtain fifo where "ratp_bb_dispatch b ctx w buf = Some (0, Some (ctx\<lparr>c_recv_fifo := fifo\<rparr>, w))" "fifo_ok fifo"
        using dispatch_console [of b ctx buf w] len type assms(4) by (auto simp: ctx_ok_def)
      with assms(4) show ?thesis by (simp add: ctx_ok_def)
    next
      case False
      then show ?thesis
        using None type str assms(4) len
        by (auto simp: ratp_bb_dispatch_def Let_def memcpy_from_def ctx_ok_def)
    qed
  qed
qed

lemma poller_dispatch:
  assumes "command_machine (b_machine b) good" and "length (b_msgbuf b) = 256"
    and ok: "ctx_ok ctx" and poll: "ratp_poll ops (c_ratp ctx, s) = Some (ret, link, s')"
    and first: "ratp_poller_poll b junk g = Some (ret, ctx\<lparr>c_ratp := link\<rparr>, g1)"
    and open_: "ret \<noteq> - EINTR" "\<not> ratp_closed link"
  shows "\<exists>ret2 buf r. ratp_recv link = Some (ret2, buf, r)
    \<and> (ret2 < 0 \<or> record_ok buf \<and> good (g_dev g1)
         \<longrightarrow> (\<exists>g' ctx'. ratp_poller b junk g = Some g' \<and> g_ctx g' = Some ctx' \<and> ctx_ok ctx'))"
proof -
  obtain ri where ri: "c_ratp ctx = Some ri" "ratp_wf ri" "one_record ri" using ok by (auto simp: ctx_ok_def split: option.splits)
  from poll_recv_fits [OF ri(2,3), of ops s ret link s'] poll ri(1) obtain ri' ret2 buf ri''
    where recv: "link = Some ri'" "ratp_recv (Some ri') = Some (ret2, buf, Some ri'')" "ratp_wf ri''" "one_record ri''"
    by auto
  let ?ctx = "ctx\<lparr>c_ratp := Some ri''\<rparr>"
  have ok': "ctx_ok ?ctx" using ok recv(3,4) by (simp add: ctx_ok_def)
  have eq: "ratp_poller b junk g
    = (if ret2 < 0 then Some (g1\<lparr>g_ctx := Some ?ctx\<rparr>)
       else do { (_, nxt) \<leftarrow> ratp_bb_dispatch b ?ctx (g_dev g1) buf;
                 Some (case nxt of None \<Rightarrow> g1\<lparr>g_ctx := Some ?ctx\<rparr> | Some (ctx, w) \<Rightarrow> g1\<lparr>g_ctx := Some ctx, g_dev := w\<rparr>) })"
    using first open_ recv(1,2) by (simp add: ratp_poller_def Let_def)
  show ?thesis
  proof (cases "ret2 < 0")
    case True
    then show ?thesis using recv(1,2) eq ok' by simp
  next
    case False
    show ?thesis
    proof (cases "record_ok buf \<and> good (g_dev g1)")
      case True
      with dispatch_ok [OF assms(1) _ assms(2) ok'] obtain q nxt where
        "ratp_bb_dispatch b ?ctx (g_dev g1) buf = Some (q, nxt)" "\<forall>ctx' w'. nxt = Some (ctx', w') \<longrightarrow> ctx_ok ctx'" by blast
      then show ?thesis using False recv(1,2) eq ok' by (cases nxt) auto
    next
      case bad: False
      then show ?thesis using False recv(1,2) by auto
    qed
  qed
qed

section \<open>The console as a line\<close>

text \<open>
  What the protocol expects of the console device, and that the device then is a serial line in the
  sense of the protocol. The first character on the line is the synch byte that the console has read
  before it started the protocol.
\<close>

locale uart =
  fixes b :: "'w board" and ready :: "'w \<Rightarrow> bool" and rx :: "'w \<Rightarrow> bytes" and tx :: "'w \<Rightarrow> 'o"
    and waits :: "'w \<Rightarrow> u64 \<Rightarrow> u64 \<Rightarrow> nat"
  assumes present: "ready w \<Longrightarrow> b_exists b w"
    and tstc: "ready w \<Longrightarrow> b_tstc b w \<longleftrightarrow> rx w \<noteq> []"
    and getc: "ready w \<Longrightarrow> rx w = c # cs \<Longrightarrow> \<exists>w'. b_getc b w = (c, w') \<and> rx w' = cs \<and> tx w' = tx w \<and> ready w'"
    and time: "ready w \<Longrightarrow> b_time b w = (now, w') \<Longrightarrow> rx w' = rx w \<and> tx w' = tx w \<and> ready w'"
    and time_passes: "ready w \<Longrightarrow> b_time b w = (now, w') \<Longrightarrow> 0 \<le> sint (start + offset - now) \<Longrightarrow>
      waits w' start offset < waits w start offset"

sublocale uart \<subseteq> console: serial_line "console_ops b" "\<lambda>s. ready (snd s)" "\<lambda>s. (if fst s then [0x01] else []) @ rx (snd s)"
  "\<lambda>s. tx (snd s)" "\<lambda>s. waits (snd s)"
proof
  fix s c cs
  assume r: "ready (snd s)" and p: "(if fst s then [0x01] else []) @ rx (snd s) = c # cs"
  show "\<exists>s'. op_recv (console_ops b) s = (0, c, s') \<and> (if fst s' then [0x01] else []) @ rx (snd s') = cs
      \<and> tx (snd s') = tx (snd s) \<and> ready (snd s')"
    using present [OF r] tstc [OF r] getc [OF r] r p
    by (cases s; cases "fst s") (fastforce simp: console_ops_def console_recv_def)+
next
  fix s
  assume r: "ready (snd s)" and p: "(if fst s then [0x01] else []) @ rx (snd s) = []"
  show "\<exists>c s'. op_recv (console_ops b) s = (- EAGAIN, c, s') \<and> (if fst s' then [0x01] else []) @ rx (snd s') = []
      \<and> tx (snd s') = tx (snd s) \<and> ready (snd s') \<and> (\<forall>start offset. waits (snd s') start offset = waits (snd s) start offset)"
    using present [OF r] tstc [OF r] r p by (cases s) (auto simp: console_ops_def console_recv_def split: if_splits)
next
  fix s now s'
  assume "ready (snd s)" and "op_time (console_ops b) s = (now, s')"
  then show "(if fst s' then [0x01] else []) @ rx (snd s') = (if fst s then [0x01] else []) @ rx (snd s)
      \<and> tx (snd s') = tx (snd s) \<and> ready (snd s')"
    using time [of "snd s"] by (cases s) (auto simp: console_ops_def split: prod.splits)
next
  fix s start offset s'
  assume "ready (snd s)" and "is_timeout (console_ops b) s start offset = (False, s')"
  then show "waits (snd s') start offset < waits (snd s) start offset"
    using time_passes [of "snd s"] by (cases s) (auto simp: is_timeout_def console_ops_def not_less split: prod.splits)
qed

context uart
begin

lemma poll_returns:
  assumes "ready w"
  shows "\<exists>ret link s'. ratp_poll (console_ops b) (Some ri, have_synch, w) = Some (ret, link, s')"
proof -
  from console.recv_pkt_returns [of "(have_synch, w)" "ri\<lparr>in_ratp := in_ratp ri + 1\<rparr>" 100] assms obtain ret ri1 s1
    where "ratp_recv_pkt (console_ops b) (ri\<lparr>in_ratp := in_ratp ri + 1\<rparr>, have_synch, w) 100 = Some (ret, ri1, s1)"
    by (auto simp: console.receives_def)
  then show ?thesis by (simp add: ratp_poll_def ratp_poll_internal_def case_prod_beta)
qed

lemma poller_polls:
  assumes "ready (g_dev g)" and "g_ctx g = Some ctx" and "ctx_ok ctx" and "length junk = 2"
  shows "\<exists>ret link ctx1 s' g1. ctx_ok ctx1
    \<and> ratp_poll (console_ops b) (c_ratp ctx1, g_have_synch g, g_dev g) = Some (ret, link, s')
    \<and> ratp_poller_poll b junk g = Some (ret, ctx1\<lparr>c_ratp := link\<rparr>, g1)"
proof -
  obtain ctx1 where ctx1: "(if b_console_ratp b then console_tx junk ctx else Some ctx) = Some ctx1" "ctx_ok ctx1"
    using console_tx_keeps [OF assms(3,4)] assms(3) by (cases "b_console_ratp b") auto
  then obtain ri where "c_ratp ctx1 = Some ri" by (auto simp: ctx_ok_def split: option.splits)
  with poll_returns [OF assms(1), of ri "g_have_synch g"] obtain ret link hs w
    where "ratp_poll (console_ops b) (c_ratp ctx1, g_have_synch g, g_dev g) = Some (ret, link, hs, w)" by auto
  moreover from this ctx1(1) assms(2) have "ratp_poller_poll b junk g = Some (ret, ctx1\<lparr>c_ratp := link\<rparr>,
      g\<lparr>g_ctx := Some (ctx1\<lparr>c_ratp := link\<rparr>), g_have_synch := hs, g_dev := w\<rparr>)"
    by (simp add: ratp_poller_poll_def Let_def)
  ultimately show ?thesis using ctx1(2) by blast
qed

end

text \<open>A board without devices whose console is the line of the protocol's own model.\<close>

definition bare_machine :: "'w machine" where
  "bare_machine =
     \<lparr>m_open = (\<lambda>w path mode. Inl (- ENOENT)), m_memmap = (\<lambda>cdev w. None), m_env = (\<lambda>w. root_env), m_set_env = (\<lambda>e w. w),
      m_gpio_get_value = (\<lambda>w gpio. (- ENODEV, w)), m_gpio_set_value = (\<lambda>w gpio v. w),
      m_gpio_direction_output = (\<lambda>w gpio v. (- ENODEV, w)), m_gpio_direction_input = (\<lambda>w gpio. (- ENODEV, w)),
      m_i2c_adapter = (\<lambda>w bus. False), m_i2c_xfer = (\<lambda>bus w msgs. (- EIO, msgs, w)),
      m_time = (\<lambda>w. (0, w)), m_shutdown = (\<lambda>w. w)\<rparr>"

definition line_board :: "line board" where
  "line_board =
     \<lparr>b_machine = bare_machine, b_console_ratp = True, b_allowed = True, b_has_getc_putc = True, b_exists = (\<lambda>w. True),
      b_tstc = (\<lambda>w. line_in w \<noteq> []), b_getc = (\<lambda>w. (hd (line_in w), w\<lparr>line_in := tl (line_in w)\<rparr>)),
      b_putc = (\<lambda>w c. w\<lparr>line_out := line_out w @ [[c]]\<rparr>), b_time = op_time line_ops,
      b_malloc = (\<lambda>n. Some (replicate n 0)), b_msgbuf = replicate 256 0,
      b_console_register = (\<lambda>w. (0, w)), b_console_unregister = (\<lambda>w. w), b_get_active = (\<lambda>w. 0), b_set_active = (\<lambda>w a. w),
      b_countdown_abort = (\<lambda>w. w), b_activate_ratp_console = (\<lambda>w. w),
      b_umount = (\<lambda>w path. (0, w)), b_run_command = (\<lambda>g cmd. (0, g))\<rparr>"

interpretation bare: command_machine bare_machine "\<lambda>w. True"
  by unfold_locales (simp_all add: bare_machine_def)

interpretation line_uart: uart line_board line_ready line_in "\<lambda>s. (line_out s, line_done s)" line_patience
proof unfold_locales
  fix w w' now start offset
  assume "line_ready w" and "b_time line_board w = (now, w')" and "0 \<le> sint (start + offset - now)"
  then show "line_patience w' start offset < line_patience w start offset"
    using line.wait_ends [of w start offset w'] by (simp add: is_timeout_def line_board_def)
qed (auto simp: line_board_def line_ready_def line_ops_def)

section \<open>Properties\<close>


abbreviation (input) demo_fifo :: kfifo where
  "demo_fifo \<equiv> kfifo_init [72, 105] 2\<lparr>k_in := 2\<rparr>"

abbreviation (input) demo_ctx :: "ratp_internal \<Rightarrow> kfifo \<Rightarrow> ratp_ctx" where
  "demo_ctx ri fifo \<equiv> \<lparr>c_ratp = Some ri, c_recv_fifo = kfifo_init [0, 0] 2, c_transmit_fifo = fifo, c_fs_rx = None,
     c_work = [], c_old_active = 0, c_console_registered = True, c_poller_registered = True, c_wq_registered = True\<rparr>"

abbreviation (input) demo_remote :: "ratp_ctx \<Rightarrow> bytes \<Rightarrow> line remote" where
  "demo_remote ctx bs \<equiv> \<lparr>g_ctx = Some ctx, g_have_synch = False, g_mount_path = None, g_dev = line_with bs\<rparr>"

lemma demo_fifos: "fifo_ok (kfifo_init [0, 0] 2)" "fifo_ok demo_fifo"
  by (auto simp: fifo_ok_def kfifo_init_def kfifo_len_def intro!: exI [of _ 1])

lemma demo_contents: "contents (kfifo_init [0, 0] 2) = []" "contents demo_fifo = [72, 105]"
  by (simp_all add: contents_def kfifo_init_def kfifo_len_def ring_def upt_rec)

lemma demo_size: "k_size (kfifo_init buf sz) = sz"
  by (simp add: kfifo_init_def)




text \<open>
  A call of the remote file system goes on to use its context when the poller that runs during the
  wait has freed it, because the connection ended.
\<close>

theorem fs_call_uses_freed_context:
  assumes "g_ctx g = Some ctx" and "c_poller_registered ctx" and "c_fs_rx ctx = None" and "\<not> ratp_closed (c_ratp ctx)" and "b_time b (g_dev g) = (now, w)"
    and "ratp_poller b junk (g\<lparr>g_dev := w\<rparr>) = Some g'" and "g_ctx g' = None" and "\<not> sint (start + 10000000000 - now) < 0"
  shows "ratp_fs_wait b junk g start = None"
  using assms by (subst ratp_fs_wait.simps) (simp add: ratp_fs_wait.simps [of b junk g'])

theorem fs_call_uses_freed_context_witness:
  "ratp_fs_wait line_board [0, 0]
     (demo_remote (demo_ctx (listening\<lparr>r_state := RATP_STATE_ESTABLISHED\<rparr>) demo_fifo) [0x01, 0x18, 0, 0xe7]) 0 = None"
proof -
  let ?ctx = "demo_ctx (listening\<lparr>r_state := RATP_STATE_ESTABLISHED\<rparr>) demo_fifo"
  let ?g = "demo_remote ?ctx [0x01, 0x18, 0, 0xe7]"
  let ?w = "(line_with [0x01, 0x18, 0, 0xe7])\<lparr>line_clock := 1000000\<rparr>"
  have "map_option (\<lambda>g. g_ctx g = None) (ratp_poller line_board [0, 0] (?g\<lparr>g_dev := ?w\<rparr>)) = Some True" by code_simp
  then obtain g' where poll: "ratp_poller line_board [0, 0] (?g\<lparr>g_dev := ?w\<rparr>) = Some g'" "g_ctx g' = None" by auto
  have t: "b_time line_board (g_dev ?g) = (0, ?w)" by (simp add: line_board_def line_ops_def)
  show ?thesis by (rule fs_call_uses_freed_context [where ctx = ?ctx, OF _ _ _ _ t poll]) (simp_all add: ratp_closed_def)
qed

end
