(* ===== verification/Remote.thy ===== *)
theory Remote
  imports Ratp_Commands
begin

text \<open>
  The host's side of the remote control protocol (\<^verbatim>\<open>scripts/remote/messages.py\<close> and the function
  \<^verbatim>\<open>unpack\<close> of \<^verbatim>\<open>scripts/remote/controller.py\<close>), and its agreement with the commands of the
  boot loader: what the host packs is what the command reads, and what the command answers is what the
  host unpacks.

  The numbers of the host are unbounded integers. \<open>None\<close> is an exception: a number that does not
  fit its field, a message that is too short, or a failed assertion.
\<close>

section \<open>Fields\<close>

definition pack_B :: "int \<Rightarrow> bytes option" where
  "pack_B n = (if 0 \<le> n \<and> n < 256 then Some [of_int n] else None)"

definition pack_H :: "int \<Rightarrow> bytes option" where
  "pack_H n = (if 0 \<le> n \<and> n < 65536 then Some (be16 (of_int n)) else None)"

definition pack_L :: "int \<Rightarrow> bytes option" where
  "pack_L n = (if 0 \<le> n \<and> n < 4294967296 then Some (be32 (of_int n)) else None)"

fun pack_all :: "bytes option list \<Rightarrow> bytes option" where
  "pack_all [] = Some []"
| "pack_all (f # fs) = do { x \<leftarrow> f; y \<leftarrow> pack_all fs; Some (x @ y) }"

text \<open>A slice of a byte string; a negative bound counts from the end.\<close>

definition py_index :: "bytes \<Rightarrow> int \<Rightarrow> nat" where
  "py_index s i = (if i < 0 then nat (i + int (length s)) else min (nat i) (length s))"

definition py_slice :: "bytes \<Rightarrow> int \<Rightarrow> int \<Rightarrow> bytes" where
  "py_slice s i j = take (py_index s j - py_index s i) (drop (py_index s i) s)"

section \<open>Messages\<close>

text \<open>
  One constructor for each class, with the attributes its \<^verbatim>\<open>_pack_payload\<close> reads. The base
  class \<^verbatim>\<open>BBPacket\<close> carries its own type; ping, pong and the answer to setting a pin inherit
  its payload, which is empty when the host makes them and the received one when it unpacks them. Every object
  has flags besides, which are 0 unless the object was unpacked.
\<close>

datatype bb_packet =
    BBPacketUnknown int bytes
  | BBPacketCommand bytes
  | BBPacketCommandReturn int
  | BBPacketConsoleMsg bytes
  | BBPacketPing bytes
  | BBPacketPong bytes
  | BBPacketGetenv bytes
  | BBPacketGetenvReturn bytes
  | BBPacketFS bytes
  | BBPacketFSReturn bytes
  | BBPacketMd bytes int int
  | BBPacketMdReturn int bytes
  | BBPacketMw bytes int bytes
  | BBPacketMwReturn int int
  | BBPacketReset bool
  | BBPacketI2cRead int int int int int
  | BBPacketI2cReadReturn int bytes
  | BBPacketI2cWrite int int int int bytes
  | BBPacketI2cWriteReturn int int
  | BBPacketGpioGetValue int
  | BBPacketGpioGetValueReturn int
  | BBPacketGpioSetValue int int
  | BBPacketGpioSetValueReturn bytes
  | BBPacketGpioSetDirection int int int
  | BBPacketGpioSetDirectionReturn int

fun packet_type :: "bb_packet \<Rightarrow> int" where
  "packet_type (BBPacketUnknown t payload) = t"
| "packet_type (BBPacketCommand cmd) = uint BB_RATP_TYPE_COMMAND"
| "packet_type (BBPacketCommandReturn exit_code) = uint BB_RATP_TYPE_COMMAND_RETURN"
| "packet_type (BBPacketConsoleMsg txt) = uint BB_RATP_TYPE_CONSOLEMSG"
| "packet_type (BBPacketPing payload) = uint BB_RATP_TYPE_PING"
| "packet_type (BBPacketPong payload) = uint BB_RATP_TYPE_PONG"
| "packet_type (BBPacketGetenv varname) = uint BB_RATP_TYPE_GETENV"
| "packet_type (BBPacketGetenvReturn txt) = uint BB_RATP_TYPE_GETENV_RETURN"
| "packet_type (BBPacketFS payload) = uint BB_RATP_TYPE_FS"
| "packet_type (BBPacketFSReturn payload) = uint BB_RATP_TYPE_FS_RETURN"
| "packet_type (BBPacketMd path addr sz) = uint BB_RATP_TYPE_MD"
| "packet_type (BBPacketMdReturn exit_code data) = uint BB_RATP_TYPE_MD_RETURN"
| "packet_type (BBPacketMw path addr data) = uint BB_RATP_TYPE_MW"
| "packet_type (BBPacketMwReturn exit_code written) = uint BB_RATP_TYPE_MW_RETURN"
| "packet_type (BBPacketReset force) = uint BB_RATP_TYPE_RESET"
| "packet_type (BBPacketI2cRead bus addr reg flags sz) = uint BB_RATP_TYPE_I2C_READ"
| "packet_type (BBPacketI2cReadReturn exit_code data) = uint BB_RATP_TYPE_I2C_READ_RETURN"
| "packet_type (BBPacketI2cWrite bus addr reg flags data) = uint BB_RATP_TYPE_I2C_WRITE"
| "packet_type (BBPacketI2cWriteReturn exit_code written) = uint BB_RATP_TYPE_I2C_WRITE_RETURN"
| "packet_type (BBPacketGpioGetValue gpio) = uint BB_RATP_TYPE_GPIO_GET_VALUE"
| "packet_type (BBPacketGpioGetValueReturn v) = uint BB_RATP_TYPE_GPIO_GET_VALUE_RETURN"
| "packet_type (BBPacketGpioSetValue gpio v) = uint BB_RATP_TYPE_GPIO_SET_VALUE"
| "packet_type (BBPacketGpioSetValueReturn payload) = uint BB_RATP_TYPE_GPIO_SET_VALUE_RETURN"
| "packet_type (BBPacketGpioSetDirection gpio direction v) = uint BB_RATP_TYPE_GPIO_SET_DIRECTION"
| "packet_type (BBPacketGpioSetDirectionReturn exit_code) = uint BB_RATP_TYPE_GPIO_SET_DIRECTION_RETURN"

record bb_object =
  p_flags :: int
  packet :: bb_packet

definition bb_new :: "bb_packet \<Rightarrow> bb_object" where
  "bb_new p = \<lparr>p_flags = 0, packet = p\<rparr>"

fun pack_payload :: "bb_packet \<Rightarrow> bytes option" where
  "pack_payload (BBPacketUnknown t payload) = Some payload"
| "pack_payload (BBPacketCommand cmd) = Some cmd"
| "pack_payload (BBPacketCommandReturn exit_code) = pack_L exit_code"
| "pack_payload (BBPacketConsoleMsg txt) = Some txt"
| "pack_payload (BBPacketPing payload) = Some payload"
| "pack_payload (BBPacketPong payload) = Some payload"
| "pack_payload (BBPacketGetenv varname) = Some varname"
| "pack_payload (BBPacketGetenvReturn txt) = Some txt"
| "pack_payload (BBPacketFS payload) = Some payload"
| "pack_payload (BBPacketFSReturn payload) = Some payload"
| "pack_payload (BBPacketMd path addr sz) =
     pack_all [pack_H 14, pack_H addr, pack_H sz, pack_H (int (length path)), pack_H 0, Some path]"
| "pack_payload (BBPacketMdReturn exit_code data) =
     pack_all [pack_H 14, pack_L exit_code, pack_H (int (length data)), pack_H 0, Some data]"
| "pack_payload (BBPacketMw path addr data) =
     pack_all [pack_H 16, pack_H addr, pack_H (int (length path)), pack_H 0, pack_H (int (length data)),
       pack_H (int (length path)), Some path, Some data]"
| "pack_payload (BBPacketMwReturn exit_code written) = pack_all [pack_H 12, pack_L exit_code, pack_H written]"
| "pack_payload (BBPacketReset force) = Some [if force then 1 else 0]"
| "pack_payload (BBPacketI2cRead bus addr reg flags sz) =
     pack_all [pack_H 13, pack_B bus, pack_B addr, pack_H reg, pack_B flags, pack_H sz]"
| "pack_payload (BBPacketI2cReadReturn exit_code data) =
     pack_all [pack_H 14, pack_L exit_code, pack_H (int (length data)), pack_H 0, Some data]"
| "pack_payload (BBPacketI2cWrite bus addr reg flags data) =
     pack_all [pack_H 15, pack_B bus, pack_B addr, pack_H reg, pack_B flags, pack_H (int (length data)), pack_H 0, Some data]"
| "pack_payload (BBPacketI2cWriteReturn exit_code written) = pack_all [pack_H 12, pack_L exit_code, pack_H written]"
| "pack_payload (BBPacketGpioGetValue gpio) = pack_L gpio"
| "pack_payload (BBPacketGpioGetValueReturn v) = pack_B v"
| "pack_payload (BBPacketGpioSetValue gpio v) = pack_all [pack_L gpio, pack_B v]"
| "pack_payload (BBPacketGpioSetValueReturn payload) = Some payload"
| "pack_payload (BBPacketGpioSetDirection gpio direction v) = pack_all [pack_L gpio, pack_B direction, pack_B v]"
| "pack_payload (BBPacketGpioSetDirectionReturn exit_code) = pack_L exit_code"

definition pack :: "bb_object \<Rightarrow> bytes option" where
  "pack b = pack_all [pack_H (packet_type (packet b)), pack_H (p_flags b), pack_payload (packet b)]"

text \<open>The classes of requests for shell commands, for reading and for writing memory assert that the
  argument of the constructor is a byte string, which it is not when they are made from a raw message.\<close>

definition unpack_packet :: "u16 \<Rightarrow> bytes \<Rightarrow> bb_packet option" where
  "unpack_packet t payload =
     (if t \<in> {BB_RATP_TYPE_COMMAND, BB_RATP_TYPE_MD, BB_RATP_TYPE_MW} then None
      else if t = BB_RATP_TYPE_COMMAND_RETURN then do { e \<leftarrow> get32 0 payload; Some (BBPacketCommandReturn (uint e)) }
      else if t = BB_RATP_TYPE_CONSOLEMSG then Some (BBPacketConsoleMsg payload)
      else if t = BB_RATP_TYPE_PING then Some (BBPacketPing payload)
      else if t = BB_RATP_TYPE_PONG then Some (BBPacketPong payload)
      else if t = BB_RATP_TYPE_GETENV_RETURN then Some (BBPacketGetenvReturn payload)
      else if t = BB_RATP_TYPE_FS then Some (BBPacketFS payload)
      else if t = BB_RATP_TYPE_FS_RETURN then Some (BBPacketFSReturn payload)
      else if t = BB_RATP_TYPE_MD_RETURN \<or> t = BB_RATP_TYPE_I2C_READ_RETURN then
        do { buffer_offset \<leftarrow> get16 0 payload; e \<leftarrow> get32 2 payload; data_size \<leftarrow> get16 6 payload; data_offset \<leftarrow> get16 8 payload;
             let off = uint buffer_offset + uint data_offset - 4;
             let d = py_slice payload off (off + uint data_size);
             Some (if t = BB_RATP_TYPE_MD_RETURN then BBPacketMdReturn (uint e) d else BBPacketI2cReadReturn (uint e) d) }
      else if t = BB_RATP_TYPE_MW_RETURN \<or> t = BB_RATP_TYPE_I2C_WRITE_RETURN then
        do { buffer_offset \<leftarrow> get16 0 payload; e \<leftarrow> get32 2 payload; written \<leftarrow> get16 6 payload;
             Some (if t = BB_RATP_TYPE_MW_RETURN then BBPacketMwReturn (uint e) (uint written)
                   else BBPacketI2cWriteReturn (uint e) (uint written)) }
      else if t = BB_RATP_TYPE_RESET then do { force \<leftarrow> get8 0 payload; Some (BBPacketReset (force \<noteq> 0)) }
      else if t = BB_RATP_TYPE_I2C_READ then
        do { buffer_offset \<leftarrow> get16 0 payload; bus \<leftarrow> get8 2 payload; addr \<leftarrow> get8 3 payload; reg \<leftarrow> get16 4 payload;
             flags \<leftarrow> get8 6 payload; sz \<leftarrow> get16 7 payload;
             Some (BBPacketI2cRead (uint bus) (uint addr) (uint reg) (uint flags) (uint sz)) }
      else if t = BB_RATP_TYPE_I2C_WRITE then
        do { buffer_offset \<leftarrow> get16 0 payload; bus \<leftarrow> get8 2 payload; addr \<leftarrow> get8 3 payload; reg \<leftarrow> get16 4 payload;
             flags \<leftarrow> get8 6 payload; data_size \<leftarrow> get16 7 payload; data_offset \<leftarrow> get16 9 payload;
             let off = uint buffer_offset + uint data_offset - 4;
             Some (BBPacketI2cWrite (uint bus) (uint addr) (uint reg) (uint flags) (py_slice payload off (off + uint data_size))) }
      else if t = BB_RATP_TYPE_GPIO_GET_VALUE then do { gpio \<leftarrow> get32 0 payload; Some (BBPacketGpioGetValue (uint gpio)) }
      else if t = BB_RATP_TYPE_GPIO_GET_VALUE_RETURN then do { v \<leftarrow> get8 0 payload; Some (BBPacketGpioGetValueReturn (uint v)) }
      else if t = BB_RATP_TYPE_GPIO_SET_VALUE then
        do { gpio \<leftarrow> get32 0 payload; v \<leftarrow> get8 4 payload; Some (BBPacketGpioSetValue (uint gpio) (uint v)) }
      else if t = BB_RATP_TYPE_GPIO_SET_VALUE_RETURN then Some (BBPacketGpioSetValueReturn payload)
      else if t = BB_RATP_TYPE_GPIO_SET_DIRECTION then
        do { gpio \<leftarrow> get32 0 payload; direction \<leftarrow> get8 4 payload; v \<leftarrow> get8 5 payload;
             Some (BBPacketGpioSetDirection (uint gpio) (uint direction) (uint v)) }
      else if t = BB_RATP_TYPE_GPIO_SET_DIRECTION_RETURN then
        do { e \<leftarrow> get32 0 payload; Some (BBPacketGpioSetDirectionReturn (uint e)) }
      else Some (BBPacketUnknown (uint t) payload))"

definition unpack :: "bytes \<Rightarrow> bb_object option" where
  "unpack data =
     do { t \<leftarrow> get16 0 data;
          flags \<leftarrow> get16 2 data;
          p \<leftarrow> unpack_packet t (drop 4 data);
          Some \<lparr>p_flags = uint flags, packet = p\<rparr> }"

section \<open>Reading what was packed\<close>

lemma uint_of_int_fits:
  "0 \<le> n \<Longrightarrow> n < 256 \<Longrightarrow> uint (of_int n :: u8) = n"
  "0 \<le> n \<Longrightarrow> n < 65536 \<Longrightarrow> uint (of_int n :: u16) = n"
  "0 \<le> n \<Longrightarrow> n < 4294967296 \<Longrightarrow> uint (of_int n :: u32) = n"
  by (simp_all add: uint_word_of_int_eq take_bit_int_eq_self)

lemma unat_of_nat_fits: "n < 65536 \<Longrightarrow> unat (of_nat n :: u16) = n"
  by (simp add: unat_of_nat)

lemma of_be32_be32 [simp]: "of_be32 (be32 w) = w"
proof (rule bit_word_eqI)
  fix n
  assume n: "n < LENGTH(32)"
  consider "n < 8" | "8 \<le> n" "n < 16" | "16 \<le> n" "n < 24" | "24 \<le> n" by linarith
  then show "bit (of_be32 (be32 w)) n = bit w n"
    using n by cases (auto simp: of_be32_def be32_def bit_simps)
qed

lemma length_be32 [simp]: "length (be32 w) = 4"
  by (simp add: be32_def)

lemma get_here:
  "get8 0 (x # ys) = Some x" "get16 0 (be16 v @ ys) = Some v" "get32 0 (be32 d @ ys) = Some d"
  "get16 0 (be16 v) = Some v" "get32 0 (be32 d) = Some d" "get16 0 (0 # 0 # ys) = Some 0"
  by (simp_all add: subbuf_def) (simp add: of_be16_def)

lemma get_behind:
  "length xs \<le> n \<Longrightarrow> get8 n (xs @ ys) = get8 (n - length xs) ys"
  "length xs \<le> n \<Longrightarrow> get16 n (xs @ ys) = get16 (n - length xs) ys"
  "length xs \<le> n \<Longrightarrow> get32 n (xs @ ys) = get32 (n - length xs) ys"
  by (auto simp: get8_def get16_def get32_def memcpy_from_def subbuf_def)

lemma get_behind_byte:
  "0 < n \<Longrightarrow> get8 n (x # ys) = get8 (n - 1) ys"
  "0 < n \<Longrightarrow> get16 n (x # ys) = get16 (n - 1) ys"
  "0 < n \<Longrightarrow> get32 n (x # ys) = get32 (n - 1) ys"
  using get_behind [of "[x]" n ys] by simp_all

lemma py_slice_forward:
  "0 \<le> i \<Longrightarrow> 0 \<le> k \<Longrightarrow> py_slice s i (i + k) = take (nat k) (drop (nat i) s)"
  by (cases "nat i \<le> length s") (auto simp: py_slice_def py_index_def nat_add_distrib min_def)

lemmas codec = get_here get_behind get_behind_byte uint_of_int_fits unat_of_nat_fits py_slice_forward

lemma pack_field:
  "pack_B n = Some bs \<longleftrightarrow> 0 \<le> n \<and> n < 256 \<and> bs = [of_int n]"
  "pack_H n = Some bs \<longleftrightarrow> 0 \<le> n \<and> n < 65536 \<and> bs = be16 (of_int n)"
  "pack_L n = Some bs \<longleftrightarrow> 0 \<le> n \<and> n < 4294967296 \<and> bs = be32 (of_int n)"
  by (auto simp: pack_B_def pack_H_def pack_L_def)

text \<open>What the host gets back of an object it packed.\<close>

fun received :: "bb_packet \<Rightarrow> bb_packet option" where
  "received (BBPacketCommand cmd) = None"
| "received (BBPacketMd path addr sz) = None"
| "received (BBPacketMw path addr data) = None"
| "received (BBPacketGetenv varname) = Some (BBPacketUnknown (uint BB_RATP_TYPE_GETENV) varname)"
| "received p = Some p"

definition labelled :: "bb_packet \<Rightarrow> bool" where
  "labelled p = (case p of BBPacketUnknown t payload \<Rightarrow> t = 6 \<or> t < 1 \<or> 24 < t | _ \<Rightarrow> True)"

lemma unknown_type:
  assumes "uint t = 6 \<or> uint t < 1 \<or> 24 < uint t"
  shows "unpack_packet t payload = Some (BBPacketUnknown (uint t) payload)"
proof -
  have "t \<notin> {1, 2, 3, 4, 5, 7, 8, 9, 10, 11, 12, 13, 14, 15, 16, 17, 18, 19, 20, 21, 22, 23, 24}"
    using assms by auto
  then show ?thesis by (simp add: unpack_packet_def)
qed

lemma unpack_payload:
  assumes "pack_payload p = Some payload" and "labelled p" and "0 \<le> packet_type p" and "packet_type p < 65536"
  shows "unpack_packet (of_int (packet_type p)) payload = received p"
proof (cases "\<exists>t pl. p = BBPacketUnknown t pl")
  case True
  then obtain t pl where p: "p = BBPacketUnknown t pl" by blast
  with assms have t: "uint (of_int t :: u16) = t" "t = 6 \<or> t < 1 \<or> 24 < t" "pl = payload"
    by (simp_all add: uint_of_int_fits labelled_def)
  with unknown_type [of "of_int t" payload] show ?thesis by (simp add: p)
next
  case False
  with assms(1) show ?thesis
    by (cases p) (auto simp: unpack_packet_def Let_def bind_eq_Some_conv pack_field codec
        simp del: get8_in get16_in get32_in)
qed



section \<open>The boot loader reads what the host packed\<close>

definition path_string :: "bytes \<Rightarrow> string" where
  "path_string = map (\<lambda>c. char_of (unat c))"

lemma xstrndup_string:
  "0 \<notin> set path \<Longrightarrow> xstrndup (path @ rest) (length path) = Some (path_string path)"
  by (induction path) (auto simp: path_string_def)

text \<open>A path that can be sent: it is not empty, has no zero byte and fits into the request with the data.\<close>

definition sendable :: "bytes \<Rightarrow> bytes \<Rightarrow> bool" where
  "sendable path data \<longleftrightarrow> path \<noteq> [] \<and> 0 \<notin> set path \<and> length path + length data < 65536"

lemma md_request_packed:
  assumes "pack (bb_new (BBPacketMd path addr sz)) = Some req" and "sendable path []"
  shows "md_request req = Some (Inr (nat addr, nat sz, path_string path))"
proof -
  from assms(1) have r: "0 \<le> addr" "addr < 65536" "0 \<le> sz" "sz < 65536"
    and req: "req = be16 10 @ be16 0 @ be16 14 @ be16 (of_int addr) @ be16 (of_int sz) @ be16 (of_nat (length path)) @ be16 0 @ path"
    by (auto simp: pack_def bb_new_def bind_eq_Some_conv pack_field)
  have len: "length req = 14 + length path" by (simp add: req)
  have fields: "get16 4 req = Some 14" "get16 12 req = Some 0" "get16 10 req = Some (of_nat (length path))"
    "get16 6 req = Some (of_int addr)" "get16 8 req = Some (of_int sz)"
    by (simp_all add: req codec del: get16_in)
  have "drop 14 req = path" by (simp add: req)
  then have "xstrndup (drop 14 req) (length path) = Some (path_string path)"
    using xstrndup_string [of path "[]"] assms(2) by (simp add: sendable_def)
  moreover have "unat (of_int addr :: u16) = nat addr" "unat (of_int sz :: u16) = nat sz"
    using r by (simp_all add: unat_eq_nat_uint uint_of_int_fits)
  moreover have "(of_nat (length path) :: u16) \<noteq> 0"
    using assms(2) by (auto simp: sendable_def dest: arg_cong [of _ _ unat] simp add: unat_of_nat)
  ultimately show ?thesis
    using assms(2) unfolding md_request_def Let_def fields bind.bind_lunit
    by (simp add: len unat_of_nat_fits sendable_def)
qed

lemma mw_request_packed:
  assumes "pack (bb_new (BBPacketMw path addr data)) = Some req" and "sendable path data" and "data \<noteq> []"
  shows "mw_request req = Some (Inr (nat addr, path_string path, data))"
proof -
  from assms(1) have r: "0 \<le> addr" "addr < 65536"
    and req: "req = be16 12 @ be16 0 @ be16 16 @ be16 (of_int addr) @ be16 (of_nat (length path)) @ be16 0
      @ be16 (of_nat (length data)) @ be16 (of_nat (length path)) @ path @ data"
    by (auto simp: pack_def bb_new_def bind_eq_Some_conv pack_field)
  have len: "length req = 16 + (length path + length data)" by (simp add: req)
  have fields: "get16 4 req = Some 16" "get16 10 req = Some 0" "get16 8 req = Some (of_nat (length path))"
    "get16 14 req = Some (of_nat (length path))" "get16 12 req = Some (of_nat (length data))" "get16 6 req = Some (of_int addr)"
    by (simp_all add: req codec del: get16_in)
  have "drop 16 req = path @ data" by (simp add: req)
  then have "xstrndup (drop 16 req) (length path) = Some (path_string path)"
    using xstrndup_string [of path data] assms(2) by (simp add: sendable_def)
  moreover have "memcpy_from req (16 + length path) (length data) = Some data"
    by (simp add: memcpy_from_def subbuf_def len) (simp add: req)
  moreover have "unat (of_int addr :: u16) = nat addr"
    using r by (simp add: unat_eq_nat_uint uint_of_int_fits)
  moreover have "unat (of_nat (length path) :: u16) = length path" "unat (of_nat (length data) :: u16) = length data"
    "unat (of_nat (length path + length data) :: u16) = length path + length data"
    using assms(2) by (auto simp: sendable_def intro!: unat_of_nat_fits simp del: of_nat_add)
  moreover from this have "(of_nat (length path) :: u16) \<noteq> 0" "(of_nat (length data) :: u16) \<noteq> 0"
    using assms(2,3) by (auto simp: sendable_def)
  ultimately show ?thesis
    using assms(2) unfolding mw_request_def Let_def fields bind.bind_lunit
    by (simp add: len del: of_nat_add)
qed

lemma unpack_md_response:
  assumes "ret = 0 \<Longrightarrow> length data < 65536"
  shows "unpack (md_response BB_RATP_TYPE_MD_RETURN ret data)
    = Some (bb_new (BBPacketMdReturn (ret mod 4294967296) (if ret = 0 then data else [])))"
  using assms by (auto simp: md_response_def ratp_bb_def unpack_def unpack_packet_def Let_def bb_new_def codec
      uint_word_of_int_eq take_bit_int_def simp del: get8_in get16_in get32_in)

lemma unpack_mw_response:
  assumes "0 \<le> n" and "n < 65536"
  shows "unpack (mw_response BB_RATP_TYPE_MW_RETURN 0 n) = Some (bb_new (BBPacketMwReturn 0 n))"
  using assms by (simp add: mw_response_def ratp_bb_def unpack_def unpack_packet_def bb_new_def codec
      del: get8_in get16_in get32_in)

section \<open>Writing and reading back\<close>

context disk
begin

lemma open_and_lseek_disk:
  assumes "m_open mach w path mode = Inr cdev" and "pos \<le> cdev_sz cdev"
    and "open_and_lseek mach w path mode pos = (r, w')"
  shows "w' = w" and "r = Inr f \<Longrightarrow> is_open f \<and> f_pos f = pos \<and> f_mode f = mode" and "r \<noteq> Inl 0"
proof -
  let ?f = "devfs_open cdev mode"
  have f: "f_mode ?f = mode" "f_pos ?f = 0" by (simp_all add: devfs_open_def)
  have "\<not> f_stream ?f" "\<not> f_size ?f < pos"
    using is_open_devfs_open [of mode] assms(2) by (simp_all add: is_open_def)
  then have "open_and_lseek mach w path mode pos = (if pos = 0 then Inr ?f else lseek_set ?f w pos, w)"
    using assms(1) by (simp add: open_and_lseek_def Let_def)
  with assms(3) have r: "r = (if pos = 0 then Inr ?f else lseek_set ?f w pos)" and "w' = w" by simp_all
  then show "w' = w" by simp
  show "r = Inr f \<Longrightarrow> is_open f \<and> f_pos f = pos \<and> f_mode f = mode"
    using r f is_open_devfs_open [of mode] lseek_ok [OF is_open_devfs_open [of mode], of w pos f]
    by (auto split: if_splits)
  show "r \<noteq> Inl 0" by (auto simp: r lseek_set_def Let_def)
qed

lemma md_loop_disk:
  assumes "is_open f" and "f_mode f = O_RDONLY" and "inv w" and "f_pos f + sz \<le> cdev_sz cdev" and "0 < sz"
    and "t + sz = length out" and "md_loop f w sz t out = Some (0, out', w')"
  shows "out' = take t out @ subbuf (f_pos f) sz (content w) \<and> content w' = content w"
  using assms
proof (induction sz arbitrary: f w t out rule: less_induct)
  case (less sz)
  obtain r buf f' w1 where rd: "fd_read f w (min sz 4096) = (r, buf, f', w1)" by (metis prod_cases4)
  have "f_mode f \<noteq> O_WRONLY" "0 < min sz 4096" "f_pos f + min sz 4096 \<le> cdev_sz cdev"
    using less.prems(2,4,5) by auto
  note ok = fd_read_ok [OF less.prems(1) this(1) less.prems(3) this(2,3) rd]
  have pos: "0 < r" using less.prems(7) rd ok(3) by (auto simp: md_loop.simps [of f w sz] split: if_splits)
  define n where "n = nat r"
  have n: "0 < n" "n \<le> sz" "r = int n" using pos ok(4) by (auto simp: n_def)
  define chunk where "chunk = subbuf (f_pos f) n (content w)"
  have chunk: "take n buf = chunk" "length chunk = n"
    using ok(6) pos n less.prems(4) length_content [OF less.prems(3)] by (simp_all add: chunk_def n_def [symmetric])
  define out1 where "out1 = take t out @ chunk @ drop (t + n) out"
  have cpy: "memcpy_to out t (take n buf) = Some out1"
    using less.prems(6) n chunk by (simp add: memcpy_to_def out1_def)
  have split: "subbuf (f_pos f) sz (content w) = chunk @ subbuf (f_pos f + n) (sz - n) (content w)"
    using subbuf_add [of "f_pos f" n "sz - n" "content w"] n by (simp add: chunk_def)
  show ?case
  proof (cases "sz = n")
    case True
    then show ?thesis
      using less.prems(6,7) rd n cpy ok(2) split by (auto simp: md_loop.simps [of f w n] out1_def subbuf_def)
  next
    case False
    then have "md_loop f' w1 (sz - n) (t + n) out1 = Some (0, out', w')"
      using less.prems(7) rd n cpy by (simp add: md_loop.simps [of f w sz])
    then have "out' = take (t + n) out1 @ subbuf (f_pos f') (sz - n) (content w1) \<and> content w' = content w1"
      using less.prems n ok(1,5) False chunk(2)
      by (intro less.IH) (auto simp: out1_def n_def [symmetric])
    then show ?thesis
      using less.prems(6) n ok(2,5) chunk(2) split by (simp add: out1_def n_def [symmetric])
  qed
qed

lemma cmd_mw_disk:
  assumes "inv w" and "m_open mach w path O_WRONLY = Inr cdev" and "addr + length data \<le> cdev_sz cdev" and "data \<noteq> []"
    and "mw_request req = Some (Inr (addr, path, data))" and "ratp_cmd_mw mach w req = Some (Returns 0 rsp w')"
  obtains n where "rsp = Some (mw_response BB_RATP_TYPE_MW_RETURN 0 (int n))" "n \<le> length data" "inv w'"
    "subbuf addr n (content w') = take n data" "same_outside addr (length data) (content w') (content w)"
proof -
  obtain r w1 where o: "open_and_lseek mach w path O_WRONLY addr = (r, w1)" by fastforce
  show thesis
  proof (cases r)
    case (Inl err)
    then show thesis using assms(5,6) o open_and_lseek_disk(3) [OF assms(2) _ o] assms(3) by (auto simp: ratp_cmd_mw_def)
  next
    case (Inr f)
    with o have f: "is_open f" "f_pos f = addr" "f_mode f = O_WRONLY" "w1 = w"
      using open_and_lseek_disk [OF assms(2) _ o] assms(3) by auto
    obtain written f' w2 where wr: "fd_write f w data = (written, f', w2)" by (metis prod_cases3)
    have ok: "inv w2" "written \<le> int (length data)" "same_outside addr (length data) (content w2) (content w)"
      "0 < written \<Longrightarrow> subbuf addr (nat written) (content w2) = take (nat written) data"
      using fd_write_ok [OF f(1) _ assms(1,4) _ wr] f(2,3) assms(3) by simp_all
    have "\<not> written < 0" "w' = w2" "rsp = Some (mw_response BB_RATP_TYPE_MW_RETURN 0 written)"
      using assms(5,6) o Inr wr f(4) by (auto simp: ratp_cmd_mw_def split: if_splits)
    then show thesis using that [of "nat written"] ok by (cases "written = 0") (auto simp: subbuf_def)
  qed
qed

lemma cmd_md_disk:
  assumes "inv w" and "m_open mach w path O_RDONLY = Inr cdev" and "m_memmap mach cdev w = None"
    and "addr + sz \<le> cdev_sz cdev" and "md_request req = Some (Inr (addr, sz, path))"
    and "ratp_cmd_md mach w req = Some (Returns 0 rsp w')"
  shows "rsp = Some (md_response BB_RATP_TYPE_MD_RETURN 0 (subbuf addr sz (content w))) \<and> content w' = content w"
proof (cases "sz = 0")
  case True
  then show ?thesis using assms(5,6) by (auto simp: ratp_cmd_md_def subbuf_def)
next
  case False
  obtain r w1 where o: "open_and_lseek mach w path O_RDONLY addr = (r, w1)" by fastforce
  note od = open_and_lseek_disk [OF assms(2) _ o]
  have "r \<noteq> Inl 0" using od(3) assms(4) by simp
  with assms(5,6) False o obtain f where r: "r = Inr f"
    by (cases r) (auto simp: ratp_cmd_md_def do_ratp_mem_md_def)
  with od assms(4) have f: "is_open f" "f_pos f = addr" "f_mode f = O_RDONLY" "w1 = w" by auto
  have "m_memmap mach (f_cdev f) w = None" using f(1) assms(3) by (simp add: is_open_def)
  then have "do_ratp_mem_md mach w path addr sz out = md_loop f w sz 0 out" for out
    using o r f(4) by (simp add: do_ratp_mem_md_def)
  then obtain buffer where l: "md_loop f w sz 0 (replicate sz 0) = Some (0, buffer, w')"
    and rsp: "rsp = Some (md_response BB_RATP_TYPE_MD_RETURN 0 buffer)"
    using assms(5,6) False by (auto simp: ratp_cmd_md_def bind_eq_Some_conv)
  from md_loop_disk [OF f(1,3) assms(1) _ _ _ l] False f(2) assms(4) rsp show ?thesis by simp
qed

end

text \<open>C37. 
  What the host writes to a disk it can read back: a write the boot loader reports as successful
  is unpacked as a number \<open>n\<close> of bytes, nothing outside of the written range changes, and a successful
  read of \<open>n\<close> bytes at the same place is unpacked as the first \<open>n\<close> bytes of the data.
\<close>

theorem remote_write_read:
  assumes "disk cdev content good" and "good w"
    and "\<And>w mode. m_open mach w (path_string path) mode = Inr cdev" and "\<And>w. m_memmap mach cdev w = None"
    and "sendable path data" and "data \<noteq> []" and "nat addr + length data \<le> cdev_sz cdev"
    and "pack (bb_new (BBPacketMw path addr data)) = Some req" and "ratp_cmd_mw mach w req = Some (Returns 0 (Some rsp) w1)"
  shows "\<exists>n. unpack rsp = Some (bb_new (BBPacketMwReturn 0 (int n))) \<and> n \<le> length data
    \<and> same_outside (nat addr) (length data) (content w1) (content w)
    \<and> (\<forall>req2 rsp2 w2. pack (bb_new (BBPacketMd path addr (int n))) = Some req2
         \<longrightarrow> ratp_cmd_md mach w1 req2 = Some (Returns 0 (Some rsp2) w2)
         \<longrightarrow> unpack rsp2 = Some (bb_new (BBPacketMdReturn 0 (take n data))) \<and> content w2 = content w1)"
proof -
  have len: "length data < 65536" and path: "sendable path []" using assms(5) by (auto simp: sendable_def)
  obtain n where n: "rsp = mw_response BB_RATP_TYPE_MW_RETURN 0 (int n)" "n \<le> length data" "good w1"
    "subbuf (nat addr) n (content w1) = take n data" "same_outside (nat addr) (length data) (content w1) (content w)"
    using disk.cmd_mw_disk [OF assms(1,2,3,7,6) mw_request_packed [OF assms(8,5,6)] assms(9)] by blast
  have "unpack rsp2 = Some (bb_new (BBPacketMdReturn 0 (take n data))) \<and> content w2 = content w1"
    if "pack (bb_new (BBPacketMd path addr (int n))) = Some req2" "ratp_cmd_md mach w1 req2 = Some (Returns 0 (Some rsp2) w2)"
    for req2 rsp2 w2
    using disk.cmd_md_disk [OF assms(1) n(3) assms(3,4) _ md_request_packed [OF that(1) path] that(2)] assms(7) n(2,4) len
    by (simp add: unpack_md_response)
  then show ?thesis using n len by (auto simp: unpack_mw_response)
qed

abbreviation (input) demo_path :: bytes where
  "demo_path \<equiv> [0x2f, 0x64, 0x65, 0x76, 0x2f, 0x6d, 0x74, 0x64, 0x72, 0x61, 0x6d, 0x30]"

abbreviation (input) demo_write :: bytes where
  "demo_write \<equiv> [0, 12, 0, 0, 0, 16, 0, 1, 0, 12, 0, 0, 0, 2, 0, 12] @ demo_path @ [7, 8]"

abbreviation (input) demo_read :: bytes where
  "demo_read \<equiv> [0, 10, 0, 0, 0, 14, 0, 1, 0, 2, 0, 12, 0, 0] @ demo_path"

theorem remote_write_read_witness:
  "ratp_cmd_mw (mtdram_machine 4) [1, 2, 3, 4] demo_write
     = Some (Returns 0 (Some (mw_response BB_RATP_TYPE_MW_RETURN 0 2)) [1, 7, 8, 4])
   \<and> unpack (mw_response BB_RATP_TYPE_MW_RETURN 0 2) = Some (bb_new (BBPacketMwReturn 0 2))
   \<and> ratp_cmd_md (mtdram_machine 4) [1, 7, 8, 4] demo_read
     = Some (Returns 0 (Some (md_response BB_RATP_TYPE_MD_RETURN 0 [7, 8])) [1, 7, 8, 4])
   \<and> unpack (md_response BB_RATP_TYPE_MD_RETURN 0 [7, 8]) = Some (bb_new (BBPacketMdReturn 0 [7, 8]))"
proof -
  have path: "path_string demo_path = ''/dev/mtdram0''" by code_simp
  have opens: "m_open (mtdram_machine 4) w (path_string demo_path) mode = Inr (mtd_cdev (mtdram_probe 4))"
    "m_memmap (mtdram_machine 4) (mtd_cdev (mtdram_probe 4)) w = None" for w mode
    by (simp_all add: path mtdram_machine_def)
  have packed: "pack (bb_new (BBPacketMw demo_path 1 [7, 8])) = Some demo_write" by code_simp
  have cmd: "ratp_cmd_mw (mtdram_machine 4) [1, 2, 3, 4] demo_write
      = Some (Returns 0 (Some (mw_response BB_RATP_TYPE_MW_RETURN 0 2)) [1, 7, 8, 4])" by code_simp
  have fits: "sendable demo_path [7, 8]" "nat 1 + length [7, 8 :: u8] \<le> cdev_sz (mtd_cdev (mtdram_probe 4))"
    by (simp add: sendable_def) code_simp
  have read: "pack (bb_new (BBPacketMd demo_path 1 2)) = Some demo_read" by code_simp
  have cmd_md: "ratp_cmd_md (mtdram_machine 4) [1, 7, 8, 4] demo_read
      = Some (Returns 0 (Some (md_response BB_RATP_TYPE_MD_RETURN 0 [7, 8])) [1, 7, 8, 4])" by code_simp
  have two: "unpack (mw_response BB_RATP_TYPE_MW_RETURN 0 2) = Some (bb_new (BBPacketMwReturn 0 2))"
    by (rule unpack_mw_response) simp_all
  obtain n where n: "unpack (mw_response BB_RATP_TYPE_MW_RETURN 0 2) = Some (bb_new (BBPacketMwReturn 0 (int n)))"
    "\<And>req2 rsp2 w2. pack (bb_new (BBPacketMd demo_path 1 (int n))) = Some req2 \<Longrightarrow>
      ratp_cmd_md (mtdram_machine 4) [1, 7, 8, 4] req2 = Some (Returns 0 (Some rsp2) w2) \<Longrightarrow>
      unpack rsp2 = Some (bb_new (BBPacketMdReturn 0 (take n [7, 8])))"
    using remote_write_read [OF mtdram_disk.disk_axioms _ opens fits(1) _ fits(2) packed cmd] by auto
  from n(1) two have "n = 2" by (simp add: bb_new_def)
  with n(2) [of demo_read] read cmd_md show ?thesis using cmd two by simp
qed

end
